(* ===== verification/Prelude.thy ===== *)
theory Prelude
  imports Main "HOL-Library.Word" "HOL-Library.Char_ord" "HOL-Library.List_Lexorder" "HOL-Library.AList"
begin

text \<open>
  The vocabulary every component shares: the fixed-width integers and byte strings of the C++
  sources, the C++ exceptions as values, the pieces of \<^verbatim>\<open>std::string\<close> the sources use
  (\<^verbatim>\<open>find\<close>, \<^verbatim>\<open>rfind\<close>, \<^verbatim>\<open>substr\<close>, \<^verbatim>\<open>starts_with\<close>, construction from a
  character literal), \<^verbatim>\<open>std::to_string\<close>, \<^verbatim>\<open>std::stoull\<close> and \<^verbatim>\<open>std::stoll\<close>, and
  \<^verbatim>\<open>std::map\<close> as a key-sorted association list. The lemmas are the ones the component
  theories rest on: decimal printing and reading are inverse, the ordered map obeys the map laws
  and stays sorted.
\<close>

unbundle bit_operations_syntax

section \<open>Machine integers, bytes and exceptions\<close>

type_synonym uint8 = "8 word"
type_synonym uint16 = "16 word"
type_synonym uint32 = "32 word"
type_synonym uint64 = "64 word"
type_synonym bytes = "char list"

named_theorems byte_simps \<open>conversions between characters and bytes\<close>
named_theorems str_simps \<open>the std::string operations on the shapes the code builds\<close>

text \<open>
  The standard exceptions the sources can raise, as values; a call of \<^verbatim>\<open>exit\<close> inside a callback leaves the calling
  code in the same way.
\<close>

datatype exn = Invalid_argument | Out_of_range_exn | Length_error | Runtime_error string | Process_exit int

text \<open>\<^verbatim>\<open>static_cast<char>\<close> and \<^verbatim>\<open>static_cast<uint8_t>\<close> between \<^verbatim>\<open>char\<close> and bytes.\<close>

definition char_of_byte :: "uint8 \<Rightarrow> char" where
  "char_of_byte b = char_of (unat b)"

definition byte_of_char :: "char \<Rightarrow> uint8" where
  "byte_of_char c = word_of_nat (of_char c)"

lemma byte_of_char_of_byte [simp, byte_simps]: "byte_of_char (char_of_byte b) = b"
proof -
  have "unat b < 256"
    using unsigned_less [of b, where 'a = nat] by simp
  then show ?thesis
    by (simp add: byte_of_char_def char_of_byte_def of_char_of)
qed

lemma char_of_byte_of_char [simp, byte_simps]: "char_of_byte (byte_of_char c) = c"
  by (simp add: byte_of_char_def char_of_byte_def unat_of_nat)

lemma char_of_byte_inject [simp]: "char_of_byte a = char_of_byte b \<longleftrightarrow> a = b"
  by (metis byte_of_char_of_byte)

lemma byte_of_char_inject [simp]: "byte_of_char a = byte_of_char b \<longleftrightarrow> a = b"
  by (metis char_of_byte_of_char)

lemma map_byte_of_char_of_byte [simp, byte_simps]: "map byte_of_char (map char_of_byte bs) = bs"
  by (simp add: map_idI)

lemma map_char_of_byte_of_char [simp, byte_simps]: "map char_of_byte (map byte_of_char cs) = cs"
  by (simp add: map_idI)

lemma map_byte_char_comp [simp, byte_simps]:
  "map (char_of_byte \<circ> byte_of_char) cs = cs" "map (byte_of_char \<circ> char_of_byte) bs = bs"
  by (simp_all add: map_idI)

text \<open>
  A byte cut out of a word by shifting and masking, and a word assembled from bytes by shifting and
  or-ing, compared bit by bit.
\<close>

lemma byte_mask: "(0xFF :: 'a::len word) = mask 8"
  by (simp add: mask_eq_exp_minus_1)

lemma bit_byte_field:
  fixes v :: "'a::len word"
  shows "bit (push_bit k (ucast (ucast (drop_bit k v AND 0xFF) :: uint8) :: 'a word)) n \<longleftrightarrow>
     k \<le> n \<and> n < k + 8 \<and> bit v n"
  unfolding byte_mask
  by (cases "n < LENGTH('a)")
    (auto simp: bit_push_bit_iff bit_unsigned_iff bit_and_iff bit_drop_bit_eq bit_mask_iff
      simp del: unsigned_and_eq dest: bit_imp_le_length)

lemma bit_byte_field0:
  fixes v :: "'a::len word"
  shows "bit (ucast (ucast (v AND 0xFF) :: uint8) :: 'a word) n \<longleftrightarrow> n < 8 \<and> bit v n"
  using bit_byte_field [of 0 v n] by simp

lemma byte_field_eqI:
  fixes v :: "'a::len word"
  assumes "8 \<le> LENGTH('a)" and "\<And>n. n < 8 \<Longrightarrow> bit v (k + n) = bit x n"
  shows "(ucast (drop_bit k v AND 0xFF) :: uint8) = x"
  unfolding byte_mask using assms
  by (auto simp: bit_eq_iff bit_unsigned_iff bit_and_iff bit_drop_bit_eq bit_mask_iff
      simp del: unsigned_and_eq)

lemma byte_field0_eqI:
  fixes v :: "'a::len word"
  assumes "8 \<le> LENGTH('a)" and "\<And>n. n < 8 \<Longrightarrow> bit v n = bit x n"
  shows "(ucast (v AND 0xFF) :: uint8) = x"
  using byte_field_eqI [of v 0 x] assms by simp

lemma unat_succ: "w \<noteq> - 1 \<Longrightarrow> unat (w + 1) = Suc (unat (w :: 'a::len word))"
  using unatSuc [of w] by (metis add.commute add_eq_0_iff minus_equation_iff)

lemma word_less_succ: "w \<noteq> - 1 \<Longrightarrow> w < w + (1 :: 'a::len word)"
  by (simp add: word_less_nat_alt unat_succ)

lemma bit_high_byte: "8 \<le> n \<Longrightarrow> \<not> bit (x :: uint8) n"
  using bit_imp_le_length [of x n] by auto

lemmas byte_bit_simps =
  bit_or_iff bit_push_bit_iff bit_unsigned_iff bit_high_byte bit_byte_field bit_byte_field0

lemma count_list_distinct: "distinct xs \<Longrightarrow> count_list xs x = of_bool (x \<in> set xs)"
  by (induction xs) auto

lemma take_drop_nth:
  "off + k \<le> length b \<Longrightarrow> take k (drop off b) = map (\<lambda>i. b ! (off + i)) [0..<k]"
  by (rule nth_equalityI) auto

text \<open>
  \<^verbatim>\<open>thenE m f\<close> continues with the value of \<open>m\<close> and lets an exception of \<open>m\<close> pass, as the
  C++ code does between a call that can throw and the statement after it.
\<close>

definition thenE :: "exn + 'a \<Rightarrow> ('a \<Rightarrow> exn + 'b) \<Rightarrow> exn + 'b" where
  "thenE m f = (case m of Inl e \<Rightarrow> Inl e | Inr x \<Rightarrow> f x)"

lemma thenE_simps [simp]: "thenE (Inl e) f = Inl e" "thenE (Inr x) f = f x"
  by (simp_all add: thenE_def)

lemma thenE_Inr_iff: "thenE m f = Inr y \<longleftrightarrow> (\<exists>x. m = Inr x \<and> f x = Inr y)"
  by (cases m) simp_all

lemma thenE_cong [fundef_cong]:
  "m = m' \<Longrightarrow> (\<And>x. m' = Inr x \<Longrightarrow> f x = g x) \<Longrightarrow> thenE m f = thenE m' g"
  by (cases m') simp_all

section \<open>std::string\<close>

text \<open>
  \<^verbatim>\<open>s.find(c)\<close> and \<^verbatim>\<open>s.rfind(c)\<close>; \<open>None\<close> is \<^verbatim>\<open>std::string::npos\<close>.
  \<^verbatim>\<open>s.substr(pos, n)\<close> throws \<^verbatim>\<open>std::out_of_range\<close> when \<open>pos\<close> is past the end and clips
  \<open>n\<close> otherwise; \<^verbatim>\<open>s.substr(pos)\<close> takes the rest. \<open>c_str_literal\<close> is the \<^verbatim>\<open>std::string\<close>
  that a C string literal converts to: the characters before its first NUL.
\<close>

fun str_find :: "char \<Rightarrow> bytes \<Rightarrow> nat option" where
  "str_find c [] = None"
| "str_find c (x # xs) = (if x = c then Some 0 else map_option Suc (str_find c xs))"

fun str_rfind :: "char \<Rightarrow> bytes \<Rightarrow> nat option" where
  "str_rfind c [] = None"
| "str_rfind c (x # xs) =
     (case str_rfind c xs of
        Some i \<Rightarrow> Some (Suc i)
      | None \<Rightarrow> (if x = c then Some 0 else None))"

definition substr :: "bytes \<Rightarrow> nat \<Rightarrow> nat \<Rightarrow> exn + bytes" where
  "substr s pos n = (if length s < pos then Inl Out_of_range_exn else Inr (take n (drop pos s)))"

definition substr_from :: "bytes \<Rightarrow> nat \<Rightarrow> exn + bytes" where
  "substr_from s pos = (if length s < pos then Inl Out_of_range_exn else Inr (drop pos s))"

definition starts_with :: "bytes \<Rightarrow> bytes \<Rightarrow> bool" where
  "starts_with s p \<longleftrightarrow> take (length p) s = p"

definition c_str_literal :: "char list \<Rightarrow> bytes" where
  "c_str_literal cs = takeWhile (\<lambda>c. c \<noteq> CHR 0x00) cs"

lemma str_find_None_iff: "str_find c s = None \<longleftrightarrow> c \<notin> set s"
  by (induction s) auto

lemma str_find_None [simp, str_simps]: "c \<notin> set s \<Longrightarrow> str_find c s = None"
  by (simp add: str_find_None_iff)

lemma str_find_append [str_simps]:
  "str_find c (a @ b) =
     (case str_find c a of Some i \<Rightarrow> Some i | None \<Rightarrow> map_option ((+) (length a)) (str_find c b))"
proof (induction a)
  case Nil
  show ?case by (cases "str_find c b") auto
next
  case (Cons x a)
  then show ?case by (cases "str_find c a"; cases "str_find c b") auto
qed

lemma str_find_mid [str_simps]: "c \<notin> set a \<Longrightarrow> str_find c (a @ c # b) = Some (length a)"
  by (induction a) auto

lemma str_find_SomeD:
  "str_find c s = Some i \<Longrightarrow> i < length s \<and> s ! i = c \<and> c \<notin> set (take i s)"
  by (induction s arbitrary: i) (auto split: if_splits)

lemma str_rfind_None [simp, str_simps]: "c \<notin> set s \<Longrightarrow> str_rfind c s = None"
  by (induction s) auto

lemma str_rfind_mid [str_simps]: "c \<notin> set b \<Longrightarrow> str_rfind c (a @ c # b) = Some (length a)"
  by (induction a) auto

lemma starts_with_append [simp]: "starts_with (p @ s) p"
  by (simp add: starts_with_def)

lemma starts_with_iff: "starts_with s p \<longleftrightarrow> (\<exists>t. s = p @ t)"
proof
  assume "starts_with s p"
  then have "s = p @ drop (length p) s"
    by (metis append_take_drop_id starts_with_def)
  then show "\<exists>t. s = p @ t" ..
qed auto

lemma c_str_literal_nul [simp]: "c_str_literal [CHR 0x00] = []"
  by (simp add: c_str_literal_def)

section \<open>Decimal numbers\<close>

text \<open>
  \<^verbatim>\<open>std::to_string\<close> of an unsigned value, and the reading side: \<^verbatim>\<open>std::stoull\<close> and
  \<^verbatim>\<open>std::stoll\<close> in base ten skip white space, take an optional sign and the longest run of
  digits, ignore what follows, throw \<^verbatim>\<open>std::invalid_argument\<close> without a digit and
  \<^verbatim>\<open>std::out_of_range\<close> when the value does not fit. \<^verbatim>\<open>std::stoull\<close> accepts a minus sign and
  negates in unsigned arithmetic.
\<close>

definition digit_char :: "nat \<Rightarrow> char" where
  "digit_char d = char_of (48 + d)"

definition is_digit :: "char \<Rightarrow> bool" where
  "is_digit c \<longleftrightarrow> 48 \<le> (of_char c :: nat) \<and> (of_char c :: nat) \<le> 57"

definition is_space :: "char \<Rightarrow> bool" where
  "is_space c \<longleftrightarrow> c = CHR '' '' \<or> (9 \<le> (of_char c :: nat) \<and> (of_char c :: nat) \<le> 13)"

fun to_string :: "nat \<Rightarrow> bytes" where
  "to_string n = (if n < 10 then [digit_char n] else to_string (n div 10) @ [digit_char (n mod 10)])"

declare to_string.simps [simp del]

definition dec_val :: "bytes \<Rightarrow> nat" where
  "dec_val ds = foldl (\<lambda>a c. 10 * a + (of_char c - 48)) 0 ds"

definition split_sign :: "bytes \<Rightarrow> bool \<times> bytes" where
  "split_sign s =
     (case s of
        [] \<Rightarrow> (False, [])
      | c # r \<Rightarrow> if c = CHR ''-'' then (True, r) else if c = CHR ''+'' then (False, r) else (False, s))"

definition stoull :: "bytes \<Rightarrow> exn + uint64" where
  "stoull s =
     (let (neg, u) = split_sign (dropWhile is_space s); ds = takeWhile is_digit u; n = dec_val ds
      in if ds = [] then Inl Invalid_argument
         else if 2 ^ 64 \<le> n then Inl Out_of_range_exn
         else Inr (if neg then - word_of_nat n else word_of_nat n))"

definition stoll :: "bytes \<Rightarrow> exn + int" where
  "stoll s =
     (let (neg, u) = split_sign (dropWhile is_space s); ds = takeWhile is_digit u;
          v = (if neg then - int (dec_val ds) else int (dec_val ds))
      in if ds = [] then Inl Invalid_argument
         else if v < - (2 ^ 63) \<or> 2 ^ 63 \<le> v then Inl Out_of_range_exn
         else Inr v)"

text \<open>Printing of a signed value by an output stream.\<close>

definition show_int :: "int \<Rightarrow> bytes" where
  "show_int i = (if i < 0 then CHR ''-'' # to_string (nat (- i)) else to_string (nat i))"

lemma digit_char_eval [simp]:
  "digit_char 0 = CHR ''0''" "digit_char (Suc 0) = CHR ''1''" "digit_char 1 = CHR ''1''"
  "digit_char 2 = CHR ''2''" "digit_char 3 = CHR ''3''" "digit_char 4 = CHR ''4''"
  "digit_char 5 = CHR ''5''" "digit_char 6 = CHR ''6''" "digit_char 7 = CHR ''7''"
  "digit_char 8 = CHR ''8''" "digit_char 9 = CHR ''9''"
  by (simp_all add: digit_char_def char_of_eq_iff)

lemma of_char_digit_char [simp]: "d < 10 \<Longrightarrow> (of_char (digit_char d) :: nat) = 48 + d"
  by (simp add: digit_char_def of_char_of)

lemma is_digit_digit_char [simp]: "d < 10 \<Longrightarrow> is_digit (digit_char d)"
  by (simp add: is_digit_def)

lemma to_string_digits: "list_all is_digit (to_string n)"
proof (induction n rule: to_string.induct)
  case (1 n)
  then show ?case
    by (cases "n < 10") (simp_all add: to_string.simps [of n])
qed

lemma to_string_not_Nil [simp]: "to_string n \<noteq> []"
  by (cases "n < 10") (simp_all add: to_string.simps [of n])

lemma dec_val_snoc: "dec_val (ds @ [c]) = 10 * dec_val ds + (of_char c - 48)"
  by (simp add: dec_val_def)

lemma dec_val_to_string [simp]: "dec_val (to_string n) = n"
proof (induction n rule: to_string.induct)
  case (1 n)
  show ?case
  proof (cases "n < 10")
    case True
    then show ?thesis by (simp add: to_string.simps [of n] dec_val_def)
  next
    case False
    with 1 have "dec_val (to_string (n div 10)) = n div 10" by simp
    with False show ?thesis
      by (simp add: to_string.simps [of n] dec_val_snoc)
  qed
qed

lemma to_string_inject [simp]: "to_string m = to_string n \<longleftrightarrow> m = n"
  by (metis dec_val_to_string)

lemma digit_not_space [simp]: "is_digit c \<Longrightarrow> \<not> is_space c"
  by (auto simp: is_digit_def is_space_def)

lemma digit_not_sign [simp]: "is_digit c \<Longrightarrow> c \<noteq> CHR ''-''" "is_digit c \<Longrightarrow> c \<noteq> CHR ''+''"
  by (auto simp: is_digit_def)

lemma digit_not_sep [simp]: "is_digit c \<Longrightarrow> c \<noteq> CHR '':''" "is_digit c \<Longrightarrow> c \<noteq> CHR 0x00"
    "is_digit c \<Longrightarrow> c \<noteq> CHR 0x0D"
  by (auto simp: is_digit_def)

lemma to_string_set: "c \<in> set (to_string n) \<Longrightarrow> is_digit c"
  using to_string_digits [of n] by (auto simp: list_all_iff)

lemma to_string_no_sep [simp]:
  "CHR '':'' \<notin> set (to_string n)" "CHR 0x00 \<notin> set (to_string n)" "CHR 0x0D \<notin> set (to_string n)"
  using to_string_set digit_not_sep by blast+

lemma to_string_Cons: obtains c ds where "to_string n = c # ds" and "is_digit c"
  by (metis list.set_intros(1) list.exhaust to_string_not_Nil to_string_set)

lemma dropWhile_space_digits: "dropWhile is_space (to_string n @ r) = to_string n @ r"
  by (rule to_string_Cons [of n]) simp

lemma split_sign_digits: "split_sign (to_string n @ r) = (False, to_string n @ r)"
  by (rule to_string_Cons [of n]) (auto simp: split_sign_def)

lemma takeWhile_digits:
  "r = [] \<or> \<not> is_digit (hd r) \<Longrightarrow> takeWhile is_digit (to_string n @ r) = to_string n"
  by (cases r) (auto simp: takeWhile_append1 takeWhile_append2 to_string_set)

lemma takeWhile_to_string [simp]: "takeWhile is_digit (to_string n) = to_string n"
  using takeWhile_digits [of "[]" n] by simp

text \<open>
  Reading back what was printed: the decimal text of a 64-bit value reads as that value, whatever
  non-digit text follows.
\<close>

lemma stoull_to_string [simp]:
  assumes "n < 2 ^ 64" and "r = [] \<or> \<not> is_digit (hd r)"
  shows "stoull (to_string n @ r) = Inr (word_of_nat n)"
  using assms
  by (simp add: stoull_def dropWhile_space_digits split_sign_digits takeWhile_digits Let_def)

lemma stoull_to_string_unat [simp]: "stoull (to_string (unat w)) = Inr w"
  using stoull_to_string [of "unat w" "[]"] unsigned_less [of w, where 'a = nat] by simp

lemma stoll_show_int [simp]:
  assumes "- (2 ^ 63) \<le> i" and "i < 2 ^ 63"
  shows "stoll (show_int i) = Inr i"
proof (cases "i < 0")
  case True
  have "stoll (CHR ''-'' # to_string (nat (- i))) = Inr i"
    using assms True
    by (simp add: stoll_def split_sign_def is_space_def Let_def)
  with True show ?thesis by (simp add: show_int_def)
next
  case False
  then show ?thesis
    using assms dropWhile_space_digits [of "nat i" "[]"] split_sign_digits [of "nat i" "[]"]
      takeWhile_digits [of "[]" "nat i"]
    by (simp add: stoll_def show_int_def Let_def)
qed

lemma stoll_range: "stoll s = Inr v \<Longrightarrow> - (2 ^ 63) \<le> v \<and> v < 2 ^ 63"
  by (auto simp: stoll_def Let_def split: prod.splits if_splits)

section \<open>Ordered maps\<close>

text \<open>
  \<^verbatim>\<open>std::map\<close> and the ordered key space of a B+tree, as association lists with strictly
  increasing keys: insertion or replacement, removal, and the entries from a key on, in key order.
\<close>

abbreviation om_sorted :: "('k::linorder \<times> 'v) list \<Rightarrow> bool" where
  "om_sorted m \<equiv> sorted_wrt (<) (map fst m)"

fun om_put :: "'k::linorder \<Rightarrow> 'v \<Rightarrow> ('k \<times> 'v) list \<Rightarrow> ('k \<times> 'v) list" where
  "om_put k v [] = [(k, v)]"
| "om_put k v ((k', v') # m) =
     (if k < k' then (k, v) # (k', v') # m
      else if k = k' then (k, v) # m else (k', v') # om_put k v m)"

definition om_del :: "'k \<Rightarrow> ('k \<times> 'v) list \<Rightarrow> ('k \<times> 'v) list" where
  "om_del k m = filter (\<lambda>e. fst e \<noteq> k) m"

definition om_from :: "'k::linorder \<Rightarrow> ('k \<times> 'v) list \<Rightarrow> ('k \<times> 'v) list" where
  "om_from k m = dropWhile (\<lambda>e. fst e < k) m"

lemma keys_om_put: "set (map fst (om_put k v m)) = insert k (set (map fst m))"
  by (induction k v m rule: om_put.induct) auto

lemma om_sorted_put [simp]: "om_sorted m \<Longrightarrow> om_sorted (om_put k v m)"
proof (induction k v m rule: om_put.induct)
  case (2 k v k' v' m)
  then show ?case
    using keys_om_put [of k v m] by (auto simp del: set_map)
qed simp

lemma map_of_om_put [simp]: "om_sorted m \<Longrightarrow> map_of (om_put k v m) = (map_of m)(k \<mapsto> v)"
  by (induction m) (auto simp: fun_eq_iff)

lemma om_sorted_del [simp]: "om_sorted m \<Longrightarrow> om_sorted (om_del k m)"
  by (induction m) (auto simp: om_del_def)

lemma map_of_om_del [simp]: "map_of (om_del k m) = (map_of m)(k := None)"
  by (induction m) (auto simp: om_del_def fun_eq_iff)

lemma om_from_eq_filter: "om_sorted m \<Longrightarrow> om_from k m = filter (\<lambda>e. k \<le> fst e) m"
proof (induction m)
  case (Cons e m)
  then show ?case
  proof (cases "fst e < k")
    case False
    with Cons.prems have "\<forall>x \<in> set m. k \<le> fst x" by force
    with False show ?thesis by (simp add: om_from_def)
  qed (simp add: om_from_def)
qed (simp add: om_from_def)

lemma om_sorted_from [simp]: "om_sorted m \<Longrightarrow> om_sorted (om_from k m)"
  by (induction m) (auto simp: om_from_def)

section \<open>Hash maps\<close>

text \<open>
  \<^verbatim>\<open>std::unordered_map\<close> as an association list: \<^verbatim>\<open>operator[]\<close> with assignment is \<^const>\<open>AList.update\<close>,
  \<^verbatim>\<open>erase\<close> is \<^const>\<open>AList.delete\<close>, \<^verbatim>\<open>find\<close> is \<^const>\<open>map_of\<close>. The order of the list is one iteration order.
\<close>

lemma distinct_update_iff: "distinct (map fst (AList.update k v m)) = distinct (map fst m)"
proof
  show "distinct (map fst m) \<Longrightarrow> distinct (map fst (AList.update k v m))"
    by (rule distinct_update)
  show "distinct (map fst (AList.update k v m)) \<Longrightarrow> distinct (map fst m)"
    by (simp add: update_keys split: if_splits)
qed

lemmas alist_simps = update_conv' delete_conv' distinct_update_iff distinct_delete

end
