(* ===== verification/Framing.thy ===== *)
theory Framing
  imports Prelude
begin

text \<open>
  The receive loop that the broker's sessions and the client libraries share: append what
  \<^verbatim>\<open>recv\<close> returned to a buffer, then parse and consume complete messages from its front until
  the parser asks for more bytes (\<^verbatim>\<open>Session::run\<close> in \<^verbatim>\<open>src/session.cpp\<close>, the client loops in
  \<^verbatim>\<open>src/pubsub.cpp\<close>, \<^verbatim>\<open>src/binary_pubsub.cpp\<close> and \<^verbatim>\<open>src/queue.cpp\<close>). The locales state what
  such a loop needs from a parser; the lemmas show that the loop then ends, that it is insensitive
  to how TCP cuts the stream into chunks, and that a stream of rendered messages is handled
  message by message. The two wire formats are shown to meet these contracts in their own theories.
\<close>

section \<open>The loop\<close>

text \<open>
  A parser returns \<open>Inr None\<close> for an incomplete (or rejected) buffer, \<open>Inr (Some (m, n))\<close> for a
  message and the bytes it took, \<open>Inl e\<close> when it throws. A handler updates the state and may throw.
  \<open>recv_loop\<close> is the inner \<^verbatim>\<open>while (!recv_buffer_.empty())\<close> loop; a parser that accepted a
  message without consuming bytes would make it run forever, so not returning is \<open>None\<close>.
\<close>

type_synonym 'm parser = "bytes \<Rightarrow> exn + ('m \<times> nat) option"
type_synonym ('s, 'm) handler = "'s \<Rightarrow> 'm \<Rightarrow> 's \<times> exn option"

partial_function (option) recv_loop ::
  "'m parser \<Rightarrow> ('s, 'm) handler \<Rightarrow> 's \<Rightarrow> bytes \<Rightarrow> ('s \<times> bytes \<times> exn option) option" where
  [code]: "recv_loop parse h s buf =
     (if buf = [] then Some (s, buf, None)
      else case parse buf of
             Inl e \<Rightarrow> Some (s, buf, Some e)
           | Inr None \<Rightarrow> Some (s, buf, None)
           | Inr (Some (m, n)) \<Rightarrow>
               (case h s m of
                  (s', Some e) \<Rightarrow> Some (s', drop n buf, Some e)
                | (s', None) \<Rightarrow> recv_loop parse h s' (drop n buf)))"

text \<open>The outer loop over the chunks that successive \<^verbatim>\<open>recv\<close> calls return.\<close>

fun recv_chunks ::
  "'m parser \<Rightarrow> ('s, 'm) handler \<Rightarrow> 's \<Rightarrow> bytes \<Rightarrow> bytes list \<Rightarrow> ('s \<times> bytes \<times> exn option) option" where
  "recv_chunks parse h s buf [] = Some (s, buf, None)"
| "recv_chunks parse h s buf (c # cs) =
     (case recv_loop parse h s (buf @ c) of
        None \<Rightarrow> None
      | Some (s', r, Some e) \<Rightarrow> Some (s', r, Some e)
      | Some (s', r, None) \<Rightarrow> recv_chunks parse h s' r cs)"

text \<open>The handler that only collects the messages.\<close>

definition collect :: "('m list, 'm) handler" where
  "collect ms m = (ms @ [m], None)"

lemma foldl_snoc [simp]: "foldl (\<lambda>ms m. ms @ [m]) ms0 ms = ms0 @ ms"
  by (induction ms arbitrary: ms0) auto

lemma collect_eq: "collect = (\<lambda>ms m. (ms @ [m], None))"
  by (simp add: collect_def fun_eq_iff)

lemma recv_loop_Nil [simp]: "recv_loop parse h s [] = Some (s, [], None)"
  by (simp add: recv_loop.simps)

lemma recv_loop_wait:
  "parse buf = Inr None \<Longrightarrow> recv_loop parse h s buf = Some (s, buf, None)"
  by (simp add: recv_loop.simps)

lemma recv_loop_throw:
  "buf \<noteq> [] \<Longrightarrow> parse buf = Inl e \<Longrightarrow> recv_loop parse h s buf = Some (s, buf, Some e)"
  by (simp add: recv_loop.simps)

lemma recv_loop_step:
  "buf \<noteq> [] \<Longrightarrow> parse buf = Inr (Some (m, n)) \<Longrightarrow>
   recv_loop parse h s buf =
     (case h s m of
        (s', Some e) \<Rightarrow> Some (s', drop n buf, Some e)
      | (s', None) \<Rightarrow> recv_loop parse h s' (drop n buf))"
  by (simp add: recv_loop.simps [of parse h s buf])

section \<open>What the loop needs from a parser\<close>

locale frame_parser =
  fixes parse :: "'m parser"
  assumes never_throws: "parse b \<noteq> Inl e"
    and progress: "parse b = Inr (Some (m, n)) \<Longrightarrow> 0 < n \<and> n \<le> length b"
    and stable: "parse b = Inr (Some (m, n)) \<Longrightarrow> parse (b @ t) = Inr (Some (m, n))"
begin

lemma parse_cases:
  obtains (wait) "parse b = Inr None"
  | (message) m n where "parse b = Inr (Some (m, n))" and "0 < n" and "n \<le> length b"
proof (cases "parse b")
  case (Inl e)
  then show ?thesis using never_throws by blast
next
  case (Inr r)
  then show ?thesis using progress wait message by (cases r) auto
qed

text \<open>Induction along the loop: on the length of the buffer, following the message consumed.\<close>

lemma loop_induct [case_names empty waiting message]:
  assumes "\<And>s. P s []"
    and "\<And>s buf. buf \<noteq> [] \<Longrightarrow> parse buf = Inr None \<Longrightarrow> P s buf"
    and "\<And>s buf m n. buf \<noteq> [] \<Longrightarrow> parse buf = Inr (Some (m, n)) \<Longrightarrow> 0 < n \<Longrightarrow> n \<le> length buf \<Longrightarrow>
           (\<And>s'. P s' (drop n buf)) \<Longrightarrow> P s buf"
  shows "P s buf"
proof (induction "length buf" arbitrary: s buf rule: less_induct)
  case less
  show ?case
  proof (cases "buf = []")
    case True
    then show ?thesis using assms(1) by simp
  next
    case nonempty: False
    show ?thesis
    proof (cases rule: parse_cases [of buf])
      case wait
      with nonempty show ?thesis by (rule assms(2))
    next
      case (message m n)
      have "P s' (drop n buf)" for s'
        using less message(2) nonempty by simp
      then show ?thesis using assms(3) nonempty message by blast
    qed
  qed
qed

lemma loop_returns: "\<exists>s' r e. recv_loop parse h s buf = Some (s', r, e)"
proof (induction s buf rule: loop_induct)
  case (message s buf m n)
  obtain s' e where "h s m = (s', e)" by force
  with message show ?case by (cases e) (simp_all add: recv_loop_step)
qed (simp_all add: recv_loop_wait)

lemma loop_rest:
  "recv_loop parse h s buf = Some (s', r, None) \<Longrightarrow> r = [] \<or> parse r = Inr None"
proof (induction s buf rule: loop_induct)
  case (message s buf m n)
  then show ?case by (auto simp: recv_loop_step split: prod.splits option.splits)
qed (simp_all add: recv_loop_wait)

lemma loop_suffix:
  "recv_loop parse h s buf = Some (s', r, e) \<Longrightarrow> \<exists>k. r = drop k buf"
proof (induction s buf rule: loop_induct)
  case (message s buf m n)
  then show ?case by (fastforce simp: recv_loop_step split: prod.splits option.splits)
qed (auto simp: recv_loop_wait intro: exI [of _ 0])

lemma loop_invariant:
  assumes "\<And>s m. P s \<Longrightarrow> P (fst (h s m))"
  shows "recv_loop parse h s buf = Some (s', r, e) \<Longrightarrow> P s \<Longrightarrow> P s'"
proof (induction s buf rule: loop_induct)
  case (message s buf m n)
  obtain s1 x where h: "h s m = (s1, x)" by force
  then have "P s1" using assms [OF message.prems(2), of m] by simp
  with message h show ?case by (cases x) (auto simp: recv_loop_step)
qed (auto simp: recv_loop_wait)

text \<open>Cutting the buffer anywhere does not change what the loop does.\<close>

lemma loop_append:
  "recv_loop parse h s (a @ b) =
     (case recv_loop parse h s a of
        None \<Rightarrow> None
      | Some (s', r, None) \<Rightarrow> recv_loop parse h s' (r @ b)
      | Some (s', r, Some e) \<Rightarrow> Some (s', r @ b, Some e))"
proof (induction s a rule: loop_induct)
  case (message s a m n)
  then have "parse (a @ b) = Inr (Some (m, n))" by (simp add: stable)
  with message show ?case
    by (cases "h s m") (simp add: recv_loop_step split: option.split)
qed (simp_all add: recv_loop_wait)

lemma chunks_return: "\<exists>s' r e. recv_chunks parse h s buf cs = Some (s', r, e)"
proof (induction cs arbitrary: s buf)
  case (Cons c cs)
  obtain s1 r1 e1 where "recv_loop parse h s (buf @ c) = Some (s1, r1, e1)"
    using loop_returns [of h s "buf @ c"] by blast
  then show ?case using Cons by (cases e1) auto
qed simp

text \<open>
  Reading chunk by chunk reaches the same state and the same exception as reading the whole stream
  at once; only the bytes left unread after an exception depend on the chunks.
\<close>

lemma chunks_eq_loop:
  "buf = [] \<or> parse buf = Inr None \<Longrightarrow>
   recv_loop parse h s (buf @ concat cs) = Some (s', r, e) \<Longrightarrow>
   \<exists>r'. recv_chunks parse h s buf cs = Some (s', r', e) \<and> (e = None \<longrightarrow> r' = r)"
proof (induction cs arbitrary: s buf)
  case Nil
  then show ?case by (auto simp: recv_loop_wait)
next
  case (Cons c cs)
  obtain s1 r1 e1 where l1: "recv_loop parse h s (buf @ c) = Some (s1, r1, e1)"
    using loop_returns [of h s "buf @ c"] by blast
  show ?case
  proof (cases e1)
    case None
    have "r1 = [] \<or> parse r1 = Inr None"
      using loop_rest [OF l1 [unfolded None]] .
    moreover have "recv_loop parse h s1 (r1 @ concat cs) = Some (s', r, e)"
      using Cons.prems(2) l1 None loop_append [of h s "buf @ c" "concat cs"] by simp
    ultimately show ?thesis
      using Cons.IH l1 None by simp
  next
    case (Some e)
    then show ?thesis
      using Cons.prems(2) l1 loop_append [of h s "buf @ c" "concat cs"] by simp
  qed
qed

end

section \<open>A parser together with its printer\<close>

locale frame_codec = frame_parser parse for parse :: "'m parser" +
  fixes render :: "'m \<Rightarrow> bytes" and valid :: "'m \<Rightarrow> bool"
  assumes roundtrip: "valid m \<Longrightarrow> parse (render m @ t) = Inr (Some (m, length (render m)))"
begin

lemma render_not_Nil: "valid m \<Longrightarrow> render m \<noteq> []"
  using roundtrip [of m "[]"] progress [of "render m" m "length (render m)"] by auto

text \<open>A message cut short is never taken for a message.\<close>

lemma strict_prefix_waits:
  assumes "valid m" and "k < length (render m)"
  shows "parse (take k (render m)) = Inr None"
proof (cases rule: parse_cases [of "take k (render m)"])
  case (message m' n)
  then have "parse (take k (render m) @ drop k (render m)) = Inr (Some (m', n))"
    by (simp only: stable)
  with message assms roundtrip [of m "[]"] show ?thesis by simp
qed

lemma loop_render:
  "list_all valid ms \<Longrightarrow> (\<And>s m. m \<in> set ms \<Longrightarrow> h s m = (g s m, None)) \<Longrightarrow>
   recv_loop parse h s (concat (map render ms) @ t) = recv_loop parse h (foldl g s ms) t"
proof (induction ms arbitrary: s)
  case (Cons m ms)
  then show ?case
    using roundtrip [of m "concat (map render ms) @ t"] render_not_Nil [of m]
    by (simp add: recv_loop_step)
qed simp

text \<open>
  A stream of rendered messages, cut into chunks at arbitrary places, is handled exactly as the
  sequence of messages, and what follows them unparsed stays in the buffer.
\<close>

lemma chunks_render_then:
  assumes "list_all valid ms" and "concat cs = concat (map render ms) @ t" and "t = [] \<or> parse t = Inr None"
    and "\<And>s m. m \<in> set ms \<Longrightarrow> h s m = (g s m, None)"
  shows "recv_chunks parse h s [] cs = Some (foldl g s ms, t, None)"
proof -
  have "recv_loop parse h s ([] @ concat cs) = Some (foldl g s ms, t, None)"
    using loop_render [where h = h, OF assms(1,4), of s t] assms(2,3) by (auto simp: recv_loop_wait)
  from chunks_eq_loop [OF _ this] show ?thesis by auto
qed

lemma chunks_render:
  "list_all valid ms \<Longrightarrow> concat cs = concat (map render ms) \<Longrightarrow>
   recv_chunks parse (\<lambda>s m. (g s m, None)) s [] cs = Some (foldl g s ms, [], None)"
  using chunks_render_then [of ms cs "[]" "\<lambda>s m. (g s m, None)" g s] by simp

corollary chunks_collect:
  "list_all valid ms \<Longrightarrow> concat cs = concat (map render ms) \<Longrightarrow>
   recv_chunks parse collect [] [] cs = Some (ms, [], None)"
  using chunks_render [of ms cs "\<lambda>ms m. ms @ [m]" "[]"] by (simp add: collect_eq)

end

end
