(* ===== verification/Binary_Protocol.thy ===== *)
theory Binary_Protocol
  imports Framing
begin

text \<open>
  The binary wire format (\<^verbatim>\<open>src/binary_protocol.hpp\<close>, \<^verbatim>\<open>src/binary_protocol.cpp\<close>): the command
  enumeration, the frame structure with its factory functions, the big-endian readers and writers,
  and \<^verbatim>\<open>BinaryProtocol::serialize\<close> and \<^verbatim>\<open>BinaryProtocol::parse\<close>. The lemmas show that parsing
  inverts serialization whatever bytes follow, that every accepted byte sequence is the
  serialization of the frame returned, that a strict prefix of a frame is never accepted, and that
  the parser never throws; together they make the pair an instance of the framing contract.
\<close>

unbundle bit_operations_syntax

section \<open>Frames\<close>

text \<open>
  An \<^verbatim>\<open>enum class\<close> over \<^verbatim>\<open>uint8_t\<close> can hold any byte after a \<^verbatim>\<open>static_cast\<close>; the bytes that are
  not enumerators are \<open>CMD_OTHER\<close>.
\<close>

datatype BinaryCommand =
    CMD_SUBSCRIBE | CMD_UNSUBSCRIBE | CMD_PUBLISH | CMD_MESSAGE | CMD_ACK | CMD_PING | CMD_PONG
  | CMD_ERROR | CMD_SIGNED_PUBLISH | CMD_SIGNED_MESSAGE | CMD_OTHER uint8

fun command_byte :: "BinaryCommand \<Rightarrow> uint8" where
  "command_byte CMD_SUBSCRIBE = 0x01"
| "command_byte CMD_UNSUBSCRIBE = 0x02"
| "command_byte CMD_PUBLISH = 0x03"
| "command_byte CMD_MESSAGE = 0x04"
| "command_byte CMD_ACK = 0x05"
| "command_byte CMD_PING = 0x06"
| "command_byte CMD_PONG = 0x07"
| "command_byte CMD_ERROR = 0x08"
| "command_byte CMD_SIGNED_PUBLISH = 0x10"
| "command_byte CMD_SIGNED_MESSAGE = 0x11"
| "command_byte (CMD_OTHER b) = b"

definition command_of_byte :: "uint8 \<Rightarrow> BinaryCommand" where
  "command_of_byte b =
     (if b = 0x01 then CMD_SUBSCRIBE else if b = 0x02 then CMD_UNSUBSCRIBE
      else if b = 0x03 then CMD_PUBLISH else if b = 0x04 then CMD_MESSAGE
      else if b = 0x05 then CMD_ACK else if b = 0x06 then CMD_PING
      else if b = 0x07 then CMD_PONG else if b = 0x08 then CMD_ERROR
      else if b = 0x10 then CMD_SIGNED_PUBLISH else if b = 0x11 then CMD_SIGNED_MESSAGE
      else CMD_OTHER b)"

definition BINARY_PROTOCOL_VERSION :: uint8 where "BINARY_PROTOCOL_VERSION = 1"
definition SIGNATURE_SIZE :: nat where "SIGNATURE_SIZE = 64"
definition KEY_ID_SIZE :: nat where "KEY_ID_SIZE = 4"
definition MIN_FRAME_SIZE :: nat where "MIN_FRAME_SIZE = 16"
definition MAX_TOPIC_LEN :: uint16 where "MAX_TOPIC_LEN = 256"
definition MAX_PAYLOAD_LEN :: uint32 where "MAX_PAYLOAD_LEN = 16 * 1024 * 1024"

record BinaryFrame =
  frame_version :: uint8
  frame_command :: BinaryCommand
  frame_sequence :: uint64
  frame_topic :: bytes
  frame_payload :: bytes
  frame_signature :: "uint8 list"
  frame_key_id :: uint32
  frame_is_signed :: bool

text \<open>The default constructor and the factory functions of \<^verbatim>\<open>BinaryFrame\<close>.\<close>

definition new_frame :: BinaryFrame where
  "new_frame =
     \<lparr>frame_version = BINARY_PROTOCOL_VERSION, frame_command = CMD_PING, frame_sequence = 0,
      frame_topic = [], frame_payload = [], frame_signature = replicate 64 0, frame_key_id = 0,
      frame_is_signed = False\<rparr>"

definition subscribe_frame :: "bytes \<Rightarrow> uint64 \<Rightarrow> BinaryFrame" where
  "subscribe_frame topic seq =
     new_frame\<lparr>frame_command := CMD_SUBSCRIBE, frame_topic := topic, frame_sequence := seq\<rparr>"

definition unsubscribe_frame :: "bytes \<Rightarrow> uint64 \<Rightarrow> BinaryFrame" where
  "unsubscribe_frame topic seq =
     new_frame\<lparr>frame_command := CMD_UNSUBSCRIBE, frame_topic := topic, frame_sequence := seq\<rparr>"

definition publish_frame :: "bytes \<Rightarrow> bytes \<Rightarrow> uint64 \<Rightarrow> BinaryFrame" where
  "publish_frame topic payload seq =
     new_frame\<lparr>frame_command := CMD_PUBLISH, frame_topic := topic, frame_payload := payload,
       frame_sequence := seq\<rparr>"

definition message_frame :: "bytes \<Rightarrow> bytes \<Rightarrow> uint64 \<Rightarrow> BinaryFrame" where
  "message_frame topic payload seq =
     new_frame\<lparr>frame_command := CMD_MESSAGE, frame_topic := topic, frame_payload := payload,
       frame_sequence := seq\<rparr>"

definition ack_frame :: "uint64 \<Rightarrow> BinaryFrame" where
  "ack_frame seq = new_frame\<lparr>frame_command := CMD_ACK, frame_sequence := seq\<rparr>"

definition ping_frame :: BinaryFrame where
  "ping_frame = new_frame\<lparr>frame_command := CMD_PING\<rparr>"

definition pong_frame :: BinaryFrame where
  "pong_frame = new_frame\<lparr>frame_command := CMD_PONG\<rparr>"

definition error_frame :: "bytes \<Rightarrow> BinaryFrame" where
  "error_frame message = new_frame\<lparr>frame_command := CMD_ERROR, frame_payload := message\<rparr>"

definition signed_publish_frame ::
  "bytes \<Rightarrow> bytes \<Rightarrow> uint8 list \<Rightarrow> uint32 \<Rightarrow> uint64 \<Rightarrow> BinaryFrame" where
  "signed_publish_frame topic payload sig key_id seq =
     new_frame\<lparr>frame_command := CMD_SIGNED_PUBLISH, frame_topic := topic, frame_payload := payload,
       frame_signature := sig, frame_key_id := key_id, frame_is_signed := True,
       frame_sequence := seq\<rparr>"

definition signed_message_frame ::
  "bytes \<Rightarrow> bytes \<Rightarrow> uint8 list \<Rightarrow> uint32 \<Rightarrow> uint64 \<Rightarrow> BinaryFrame" where
  "signed_message_frame topic payload sig key_id seq =
     new_frame\<lparr>frame_command := CMD_SIGNED_MESSAGE, frame_topic := topic, frame_payload := payload,
       frame_signature := sig, frame_key_id := key_id, frame_is_signed := True,
       frame_sequence := seq\<rparr>"

lemmas frame_defs =
  new_frame_def subscribe_frame_def unsubscribe_frame_def publish_frame_def message_frame_def
  ack_frame_def ping_frame_def pong_frame_def error_frame_def signed_publish_frame_def
  signed_message_frame_def

lemmas size_defs =
  BINARY_PROTOCOL_VERSION_def SIGNATURE_SIZE_def KEY_ID_SIZE_def MIN_FRAME_SIZE_def
  MAX_TOPIC_LEN_def MAX_PAYLOAD_LEN_def

section \<open>Big-endian integers\<close>

definition writeUint16 :: "bytes \<Rightarrow> uint16 \<Rightarrow> bytes" where
  "writeUint16 buffer v =
     buffer @ [char_of_byte (ucast (drop_bit 8 v AND 0xFF)), char_of_byte (ucast (v AND 0xFF))]"

definition writeUint32 :: "bytes \<Rightarrow> uint32 \<Rightarrow> bytes" where
  "writeUint32 buffer v =
     buffer @ [char_of_byte (ucast (drop_bit 24 v AND 0xFF)), char_of_byte (ucast (drop_bit 16 v AND 0xFF)),
       char_of_byte (ucast (drop_bit 8 v AND 0xFF)), char_of_byte (ucast (v AND 0xFF))]"

definition writeUint64 :: "bytes \<Rightarrow> uint64 \<Rightarrow> bytes" where
  "writeUint64 buffer v =
     buffer @ [char_of_byte (ucast (drop_bit 56 v AND 0xFF)), char_of_byte (ucast (drop_bit 48 v AND 0xFF)),
       char_of_byte (ucast (drop_bit 40 v AND 0xFF)), char_of_byte (ucast (drop_bit 32 v AND 0xFF)),
       char_of_byte (ucast (drop_bit 24 v AND 0xFF)), char_of_byte (ucast (drop_bit 16 v AND 0xFF)),
       char_of_byte (ucast (drop_bit 8 v AND 0xFF)), char_of_byte (ucast (v AND 0xFF))]"

definition readUint16 :: "bytes \<Rightarrow> nat \<Rightarrow> exn + uint16" where
  "readUint16 buffer offset =
     (if length buffer < offset + 2 then Inl (Runtime_error ''Buffer underflow reading uint16'')
      else Inr (push_bit 8 (ucast (byte_of_char (buffer ! offset)))
             OR ucast (byte_of_char (buffer ! (offset + 1)))))"

definition readUint32 :: "bytes \<Rightarrow> nat \<Rightarrow> exn + uint32" where
  "readUint32 buffer offset =
     (if length buffer < offset + 4 then Inl (Runtime_error ''Buffer underflow reading uint32'')
      else Inr (push_bit 24 (ucast (byte_of_char (buffer ! offset)))
             OR push_bit 16 (ucast (byte_of_char (buffer ! (offset + 1))))
             OR push_bit 8 (ucast (byte_of_char (buffer ! (offset + 2))))
             OR ucast (byte_of_char (buffer ! (offset + 3)))))"

definition readUint64 :: "bytes \<Rightarrow> nat \<Rightarrow> exn + uint64" where
  "readUint64 buffer offset =
     (if length buffer < offset + 8 then Inl (Runtime_error ''Buffer underflow reading uint64'')
      else Inr (push_bit 56 (ucast (byte_of_char (buffer ! offset)))
             OR push_bit 48 (ucast (byte_of_char (buffer ! (offset + 1))))
             OR push_bit 40 (ucast (byte_of_char (buffer ! (offset + 2))))
             OR push_bit 32 (ucast (byte_of_char (buffer ! (offset + 3))))
             OR push_bit 24 (ucast (byte_of_char (buffer ! (offset + 4))))
             OR push_bit 16 (ucast (byte_of_char (buffer ! (offset + 5))))
             OR push_bit 8 (ucast (byte_of_char (buffer ! (offset + 6))))
             OR ucast (byte_of_char (buffer ! (offset + 7)))))"

section \<open>Serializer and parser\<close>

definition serialize :: "BinaryFrame \<Rightarrow> bytes" where
  "serialize frame =
     (let b1 = [char_of_byte (frame_version frame), char_of_byte (command_byte (frame_command frame))];
          b2 = writeUint64 b1 (frame_sequence frame);
          b3 = writeUint16 b2 (word_of_nat (length (frame_topic frame)));
          b4 = writeUint32 b3 (word_of_nat (length (frame_payload frame)));
          b5 = b4 @ frame_topic frame @ frame_payload frame
      in if frame_is_signed frame
         then writeUint32 (b5 @ map char_of_byte (take SIGNATURE_SIZE (frame_signature frame)))
                (frame_key_id frame)
         else b5)"

definition is_signed_cmd :: "BinaryCommand \<Rightarrow> bool" where
  "is_signed_cmd c \<longleftrightarrow> c = CMD_SIGNED_PUBLISH \<or> c = CMD_SIGNED_MESSAGE"

definition calculateFrameSize :: "bytes \<Rightarrow> bytes \<Rightarrow> nat" where
  "calculateFrameSize topic payload = MIN_FRAME_SIZE + length topic + length payload"

definition parse :: "BinaryFrame parser" where
  "parse buffer =
     (if length buffer < MIN_FRAME_SIZE then Inr None
      else if byte_of_char (buffer ! 0) \<noteq> BINARY_PROTOCOL_VERSION then Inr None
      else
        let cmd = command_of_byte (byte_of_char (buffer ! 1)) in
        thenE (readUint64 buffer 2) (\<lambda>seq.
        thenE (readUint16 buffer 10) (\<lambda>topic_len.
        thenE (readUint32 buffer 12) (\<lambda>payload_len.
        if MAX_TOPIC_LEN < topic_len then Inr None
        else if MAX_PAYLOAD_LEN < payload_len then Inr None
        else
          let sig_size = (if is_signed_cmd cmd then SIGNATURE_SIZE + KEY_ID_SIZE else 0);
              total_size = MIN_FRAME_SIZE + unat topic_len + unat payload_len + sig_size
          in
          if length buffer < total_size then Inr None
          else
            thenE (if 0 < topic_len then substr buffer 16 (unat topic_len) else Inr []) (\<lambda>topic.
            let offset1 = 16 + unat topic_len in
            thenE (if 0 < payload_len then substr buffer offset1 (unat payload_len) else Inr []) (\<lambda>payload.
            let offset2 = offset1 + unat payload_len;
                frame = new_frame\<lparr>frame_version := byte_of_char (buffer ! 0), frame_command := cmd,
                          frame_sequence := seq, frame_topic := topic, frame_payload := payload\<rparr>
            in
            if is_signed_cmd cmd then
              thenE (readUint32 buffer (offset2 + SIGNATURE_SIZE)) (\<lambda>kid.
              Inr (Some (frame\<lparr>frame_signature := map byte_of_char (take SIGNATURE_SIZE (drop offset2 buffer)),
                               frame_key_id := kid, frame_is_signed := True\<rparr>, total_size)))
            else Inr (Some (frame, total_size))))))))"

text \<open>The frames the format can carry; every factory function yields one within the size limits.\<close>

definition valid_frame :: "BinaryFrame \<Rightarrow> bool" where
  "valid_frame f \<longleftrightarrow>
     frame_version f = BINARY_PROTOCOL_VERSION \<and>
     command_of_byte (command_byte (frame_command f)) = frame_command f \<and>
     length (frame_topic f) \<le> unat MAX_TOPIC_LEN \<and> length (frame_payload f) \<le> unat MAX_PAYLOAD_LEN \<and>
     frame_is_signed f = is_signed_cmd (frame_command f) \<and> length (frame_signature f) = SIGNATURE_SIZE \<and>
     (\<not> frame_is_signed f \<longrightarrow> frame_signature f = replicate 64 0 \<and> frame_key_id f = 0)"

section \<open>The integer codec\<close>

lemma join_uint16:
  "push_bit 8 (ucast (ucast (drop_bit 8 v AND 0xFF) :: uint8)) OR ucast (ucast (v AND 0xFF) :: uint8)
   = (v :: uint16)"
  by (rule bit_word_eqI) (auto simp: bit_or_iff bit_byte_field bit_byte_field0)

lemma join_uint32:
  "push_bit 24 (ucast (ucast (drop_bit 24 v AND 0xFF) :: uint8))
   OR push_bit 16 (ucast (ucast (drop_bit 16 v AND 0xFF) :: uint8))
   OR push_bit 8 (ucast (ucast (drop_bit 8 v AND 0xFF) :: uint8))
   OR ucast (ucast (v AND 0xFF) :: uint8) = (v :: uint32)"
  by (rule bit_word_eqI) (auto simp: bit_or_iff bit_byte_field bit_byte_field0)

lemma join_uint64:
  "push_bit 56 (ucast (ucast (drop_bit 56 v AND 0xFF) :: uint8))
   OR push_bit 48 (ucast (ucast (drop_bit 48 v AND 0xFF) :: uint8))
   OR push_bit 40 (ucast (ucast (drop_bit 40 v AND 0xFF) :: uint8))
   OR push_bit 32 (ucast (ucast (drop_bit 32 v AND 0xFF) :: uint8))
   OR push_bit 24 (ucast (ucast (drop_bit 24 v AND 0xFF) :: uint8))
   OR push_bit 16 (ucast (ucast (drop_bit 16 v AND 0xFF) :: uint8))
   OR push_bit 8 (ucast (ucast (drop_bit 8 v AND 0xFF) :: uint8))
   OR ucast (ucast (v AND 0xFF) :: uint8) = (v :: uint64)"
  by (rule bit_word_eqI) (auto simp: bit_or_iff bit_byte_field bit_byte_field0)

lemma split_uint16:
  fixes x0 x1 :: uint8
  defines "v \<equiv> push_bit 8 (ucast x0) OR (ucast x1 :: uint16)"
  shows "(ucast (drop_bit 8 v AND 0xFF) :: uint8) = x0" "(ucast (v AND 0xFF) :: uint8) = x1"
  by (rule byte_field_eqI byte_field0_eqI; simp add: v_def byte_bit_simps)+

lemma split_uint32:
  fixes x0 x1 x2 x3 :: uint8
  defines "v \<equiv> push_bit 24 (ucast x0) OR push_bit 16 (ucast x1) OR push_bit 8 (ucast x2)
    OR (ucast x3 :: uint32)"
  shows "(ucast (drop_bit 24 v AND 0xFF) :: uint8) = x0" "(ucast (drop_bit 16 v AND 0xFF) :: uint8) = x1"
    "(ucast (drop_bit 8 v AND 0xFF) :: uint8) = x2" "(ucast (v AND 0xFF) :: uint8) = x3"
  by (rule byte_field_eqI byte_field0_eqI; simp add: v_def byte_bit_simps)+

lemma split_uint64:
  fixes x0 x1 x2 x3 x4 x5 x6 x7 :: uint8
  defines "v \<equiv> push_bit 56 (ucast x0) OR push_bit 48 (ucast x1) OR push_bit 40 (ucast x2)
    OR push_bit 32 (ucast x3) OR push_bit 24 (ucast x4) OR push_bit 16 (ucast x5)
    OR push_bit 8 (ucast x6) OR (ucast x7 :: uint64)"
  shows "(ucast (drop_bit 56 v AND 0xFF) :: uint8) = x0" "(ucast (drop_bit 48 v AND 0xFF) :: uint8) = x1"
    "(ucast (drop_bit 40 v AND 0xFF) :: uint8) = x2" "(ucast (drop_bit 32 v AND 0xFF) :: uint8) = x3"
    "(ucast (drop_bit 24 v AND 0xFF) :: uint8) = x4" "(ucast (drop_bit 16 v AND 0xFF) :: uint8) = x5"
    "(ucast (drop_bit 8 v AND 0xFF) :: uint8) = x6" "(ucast (v AND 0xFF) :: uint8) = x7"
  by (rule byte_field_eqI byte_field0_eqI; simp add: v_def byte_bit_simps)+

lemmas read_defs = readUint16_def readUint32_def readUint64_def
lemmas write_defs = writeUint16_def writeUint32_def writeUint64_def

lemma length_write [simp]:
  "length (writeUint16 b v) = length b + 2"
  "length (writeUint32 b w) = length b + 4"
  "length (writeUint64 b x) = length b + 8"
  by (simp_all add: write_defs)

lemma read_write:
  "length a = off \<Longrightarrow> readUint16 (a @ writeUint16 [] v @ t) off = Inr v"
  "length a = off \<Longrightarrow> readUint32 (a @ writeUint32 [] w @ t) off = Inr w"
  "length a = off \<Longrightarrow> readUint64 (a @ writeUint64 [] x @ t) off = Inr x"
  by (auto simp: read_defs write_defs nth_append join_uint16 join_uint32 join_uint64)

lemma read_stable:
  "off + 2 \<le> length b \<Longrightarrow> readUint16 (b @ t) off = readUint16 b off"
  "off + 4 \<le> length b \<Longrightarrow> readUint32 (b @ t) off = readUint32 b off"
  "off + 8 \<le> length b \<Longrightarrow> readUint64 (b @ t) off = readUint64 b off"
  by (simp_all add: read_defs nth_append)

lemma write_join:
  "writeUint16 [] (push_bit 8 (ucast (byte_of_char c0)) OR ucast (byte_of_char c1)) = [c0, c1]"
  "writeUint32 [] (push_bit 24 (ucast (byte_of_char c0)) OR push_bit 16 (ucast (byte_of_char c1))
     OR push_bit 8 (ucast (byte_of_char c2)) OR ucast (byte_of_char c3)) = [c0, c1, c2, c3]"
  "writeUint64 [] (push_bit 56 (ucast (byte_of_char c0)) OR push_bit 48 (ucast (byte_of_char c1))
     OR push_bit 40 (ucast (byte_of_char c2)) OR push_bit 32 (ucast (byte_of_char c3))
     OR push_bit 24 (ucast (byte_of_char c4)) OR push_bit 16 (ucast (byte_of_char c5))
     OR push_bit 8 (ucast (byte_of_char c6)) OR ucast (byte_of_char c7)) =
     [c0, c1, c2, c3, c4, c5, c6, c7]"
  by (simp_all only: write_defs split_uint16 split_uint32 split_uint64 append_Nil char_of_byte_of_char)

lemma upt_bytes: "[0..<2] = [0, 1 :: nat]" "[0..<4] = [0, 1, 2, 3 :: nat]"
  "[0..<8] = [0, 1, 2, 3, 4, 5, 6, 7 :: nat]"
  by (simp_all add: upt_rec)

lemma read_inverse:
  "readUint16 b off = Inr v \<Longrightarrow> take 2 (drop off b) = writeUint16 [] v"
  "readUint32 b off = Inr w \<Longrightarrow> take 4 (drop off b) = writeUint32 [] w"
  "readUint64 b off = Inr x \<Longrightarrow> take 8 (drop off b) = writeUint64 [] x"
  by (auto simp: read_defs write_join take_drop_nth upt_bytes split: if_splits)

lemma read_ok:
  "off + 2 \<le> length b \<Longrightarrow> \<exists>v. readUint16 b off = Inr v"
  "off + 4 \<le> length b \<Longrightarrow> \<exists>v. readUint32 b off = Inr v"
  "off + 8 \<le> length b \<Longrightarrow> \<exists>v. readUint64 b off = Inr v"
  by (simp_all add: read_defs)

section \<open>Parsing inverts serialization\<close>

definition frame_header :: "BinaryFrame \<Rightarrow> bytes" where
  "frame_header f =
     [char_of_byte (frame_version f), char_of_byte (command_byte (frame_command f))]
     @ writeUint64 [] (frame_sequence f) @ writeUint16 [] (word_of_nat (length (frame_topic f)))
     @ writeUint32 [] (word_of_nat (length (frame_payload f)))"

definition frame_trailer :: "BinaryFrame \<Rightarrow> bytes" where
  "frame_trailer f =
     (if frame_is_signed f
      then map char_of_byte (take SIGNATURE_SIZE (frame_signature f)) @ writeUint32 [] (frame_key_id f)
      else [])"

lemma serialize_split:
  "serialize f = frame_header f @ frame_topic f @ frame_payload f @ frame_trailer f"
  by (simp add: serialize_def frame_header_def frame_trailer_def write_defs Let_def)

lemma length_frame_header [simp]: "length (frame_header f) = 16"
  by (simp add: frame_header_def)

lemma length_frame_trailer:
  "valid_frame f \<Longrightarrow> length (frame_trailer f) = (if is_signed_cmd (frame_command f) then 68 else 0)"
  by (simp add: frame_trailer_def valid_frame_def size_defs)

lemma length_serialize:
  "valid_frame f \<Longrightarrow>
   length (serialize f) = calculateFrameSize (frame_topic f) (frame_payload f)
     + (if is_signed_cmd (frame_command f) then SIGNATURE_SIZE + KEY_ID_SIZE else 0)"
  by (simp add: serialize_split length_frame_trailer calculateFrameSize_def size_defs)

lemma unat_lens:
  assumes "valid_frame f"
  shows "unat (word_of_nat (length (frame_topic f)) :: uint16) = length (frame_topic f)"
    and "unat (word_of_nat (length (frame_payload f)) :: uint32) = length (frame_payload f)"
  using assms by (simp_all add: valid_frame_def size_defs unat_of_nat)

lemma header_reads:
  "byte_of_char ((frame_header f @ t) ! 0) = frame_version f"
  "byte_of_char ((frame_header f @ t) ! Suc 0) = command_byte (frame_command f)"
  "readUint64 (frame_header f @ t) 2 = Inr (frame_sequence f)"
  "readUint16 (frame_header f @ t) 10 = Inr (word_of_nat (length (frame_topic f)))"
  "readUint32 (frame_header f @ t) 12 = Inr (word_of_nat (length (frame_payload f)))"
proof -
  let ?v = "[char_of_byte (frame_version f), char_of_byte (command_byte (frame_command f))]"
  let ?s = "writeUint64 [] (frame_sequence f)"
  let ?tlen = "writeUint16 [] (word_of_nat (length (frame_topic f)))"
  let ?plen = "writeUint32 [] (word_of_nat (length (frame_payload f)))"
  show "byte_of_char ((frame_header f @ t) ! 0) = frame_version f"
    "byte_of_char ((frame_header f @ t) ! Suc 0) = command_byte (frame_command f)"
    by (simp_all add: frame_header_def)
  show "readUint64 (frame_header f @ t) 2 = Inr (frame_sequence f)"
    using read_write(3) [of ?v 2 "frame_sequence f" "?tlen @ ?plen @ t"] by (simp add: frame_header_def)
  show "readUint16 (frame_header f @ t) 10 = Inr (word_of_nat (length (frame_topic f)))"
    using read_write(1) [of "?v @ ?s" 10 _ "?plen @ t"] by (simp add: frame_header_def)
  show "readUint32 (frame_header f @ t) 12 = Inr (word_of_nat (length (frame_payload f)))"
    using read_write(2) [of "?v @ ?s @ ?tlen" 12 _ t] by (simp add: frame_header_def)
qed

lemma trailer_reads:
  assumes "frame_is_signed f" and "length (frame_signature f) = SIGNATURE_SIZE" and "length a = off"
  shows "map byte_of_char (take SIGNATURE_SIZE (drop off (a @ frame_trailer f @ t))) = frame_signature f"
    and "readUint32 (a @ frame_trailer f @ t) (off + SIGNATURE_SIZE) = Inr (frame_key_id f)"
  using assms
    read_write(2) [of "a @ map char_of_byte (frame_signature f)" "off + SIGNATURE_SIZE" "frame_key_id f" t]
  by (simp_all add: frame_trailer_def comp_def)

text \<open>
  The parser as one decision: once the header can be read, a buffer is either refused or waiting,
  or the frame is cut out of it at fixed offsets.
\<close>

definition frame_size :: "BinaryCommand \<Rightarrow> uint16 \<Rightarrow> uint32 \<Rightarrow> nat" where
  "frame_size cmd tlen plen = 16 + unat tlen + unat plen + (if is_signed_cmd cmd then 68 else 0)"

definition cut_frame :: "bytes \<Rightarrow> uint64 \<Rightarrow> uint16 \<Rightarrow> uint32 \<Rightarrow> uint32 \<Rightarrow> BinaryFrame" where
  "cut_frame b seq tlen plen kid =
     (let cmd = command_of_byte (byte_of_char (b ! 1)); off = 16 + unat tlen + unat plen
      in \<lparr>frame_version = byte_of_char (b ! 0), frame_command = cmd, frame_sequence = seq,
          frame_topic = take (unat tlen) (drop 16 b),
          frame_payload = take (unat plen) (drop (16 + unat tlen) b),
          frame_signature = (if is_signed_cmd cmd then map byte_of_char (take 64 (drop off b)) else replicate 64 0),
          frame_key_id = (if is_signed_cmd cmd then kid else 0), frame_is_signed = is_signed_cmd cmd\<rparr>)"

lemma substr_word:
  "pos \<le> length b \<Longrightarrow>
   (if 0 < w then substr b pos (unat w) else Inr []) = Inr (take (unat w) (drop pos b))"
  by (auto simp: substr_def word_greater_zero_iff)

lemma parse_short [simp]: "length b < 16 \<Longrightarrow> parse b = Inr None"
  by (simp add: parse_def MIN_FRAME_SIZE_def)

lemma parse_decision:
  assumes "16 \<le> length b"
    and "readUint64 b 2 = Inr seq" and "readUint16 b 10 = Inr tlen" and "readUint32 b 12 = Inr plen"
    and "is_signed_cmd (command_of_byte (byte_of_char (b ! 1))) \<Longrightarrow>
         frame_size (command_of_byte (byte_of_char (b ! 1))) tlen plen \<le> length b \<Longrightarrow>
         readUint32 b (16 + unat tlen + unat plen + 64) = Inr kid"
  shows "parse b =
     (if byte_of_char (b ! 0) \<noteq> BINARY_PROTOCOL_VERSION \<or> MAX_TOPIC_LEN < tlen \<or> MAX_PAYLOAD_LEN < plen \<or>
         length b < frame_size (command_of_byte (byte_of_char (b ! 1))) tlen plen
      then Inr None
      else Inr (Some (cut_frame b seq tlen plen kid, frame_size (command_of_byte (byte_of_char (b ! 1))) tlen plen)))"
proof -
  have mid: "16 + unat tlen \<le> length b" if "16 + unat tlen + unat plen + k \<le> length b" for k
    using that by simp
  show ?thesis
    using assms
    by (auto simp: parse_def frame_size_def cut_frame_def substr_word mid new_frame_def size_defs Let_def)
qed

lemma header_readable:
  assumes "16 \<le> length b"
  obtains seq tlen plen where "readUint64 b 2 = Inr seq" "readUint16 b 10 = Inr tlen" "readUint32 b 12 = Inr plen"
  using assms read_ok(1) [of 10 b] read_ok(2) [of 12 b] read_ok(3) [of 2 b] by auto

lemma key_id_readable:
  "\<exists>kid. is_signed_cmd cmd \<longrightarrow> frame_size cmd tlen plen \<le> length b \<longrightarrow>
     readUint32 b (16 + unat tlen + unat plen + 64) = Inr kid"
  using read_ok(2) [of "16 + unat tlen + unat plen + 64" b] by (auto simp: frame_size_def)

lemma parse_serialize_gen:
  assumes "valid_frame f"
  shows "parse (serialize f @ t) = Inr (Some (f, length (serialize f)))"
proof -
  define rest where "rest = frame_topic f @ frame_payload f @ frame_trailer f @ t"
  define b where "b = frame_header f @ rest"
  have bytes: "serialize f @ t = b"
    by (simp add: b_def rest_def serialize_split)
  let ?tlen = "word_of_nat (length (frame_topic f)) :: uint16"
  let ?plen = "word_of_nat (length (frame_payload f)) :: uint32"
  note valid = assms [unfolded valid_frame_def]
  note lens = unat_lens [OF assms]
  have cmd: "command_of_byte (byte_of_char (b ! 1)) = frame_command f"
    and ver: "byte_of_char (b ! 0) = BINARY_PROTOCOL_VERSION" "frame_version f = BINARY_PROTOCOL_VERSION"
    using valid header_reads(1,2) [of f rest] by (simp_all add: b_def)
  have limits: "\<not> MAX_TOPIC_LEN < ?tlen" "\<not> MAX_PAYLOAD_LEN < ?plen"
    using valid lens by (auto simp: word_less_nat_alt)
  have size: "frame_size (frame_command f) ?tlen ?plen = length (serialize f)"
    using lens length_serialize [OF assms] by (simp add: frame_size_def calculateFrameSize_def size_defs)
  have signed: "is_signed_cmd (frame_command f) \<Longrightarrow>
      readUint32 b (16 + unat ?tlen + unat ?plen + 64) = Inr (frame_key_id f) \<and>
      map byte_of_char (take 64 (drop (16 + unat ?tlen + unat ?plen) b)) = frame_signature f"
    using trailer_reads [of f "frame_header f @ frame_topic f @ frame_payload f" _ t] valid lens
    by (simp add: b_def rest_def SIGNATURE_SIZE_def add.assoc)
  have "cut_frame b (frame_sequence f) ?tlen ?plen (frame_key_id f) = f"
    using cmd ver signed valid lens
    by (cases f) (auto simp: cut_frame_def Let_def b_def rest_def)
  moreover have "length (serialize f) \<le> length b" "16 \<le> length b"
    by (simp_all add: bytes [symmetric] serialize_split)
  ultimately show ?thesis
    using parse_decision [of b "frame_sequence f" ?tlen ?plen "frame_key_id f"] signed cmd ver limits size
      header_reads(3,4,5) [of f rest]
    by (simp add: bytes b_def [symmetric])
qed

section \<open>Accepted bytes are serializations\<close>

lemma command_byte_of_byte [simp]: "command_byte (command_of_byte b) = b"
  by (simp add: command_of_byte_def)

lemma parse_SomeE:
  assumes "parse b = Inr (Some (f, n))"
  obtains seq tlen plen kid where
    "16 \<le> length b" "n \<le> length b" "byte_of_char (b ! 0) = BINARY_PROTOCOL_VERSION"
    "readUint64 b 2 = Inr seq" "readUint16 b 10 = Inr tlen" "readUint32 b 12 = Inr plen"
    "tlen \<le> MAX_TOPIC_LEN" "plen \<le> MAX_PAYLOAD_LEN" "f = cut_frame b seq tlen plen kid"
    "n = frame_size (frame_command f) tlen plen" "frame_command f = command_of_byte (byte_of_char (b ! 1))"
    "is_signed_cmd (frame_command f) \<Longrightarrow> readUint32 b (16 + unat tlen + unat plen + 64) = Inr kid"
proof -
  let ?cmd = "command_of_byte (byte_of_char (b ! 1))"
  have size: "16 \<le> length b"
    using assms parse_short [of b] by (cases "length b < 16") auto
  obtain seq tlen plen where reads: "readUint64 b 2 = Inr seq" "readUint16 b 10 = Inr tlen" "readUint32 b 12 = Inr plen"
    using header_readable [OF size] .
  obtain kid where kid: "is_signed_cmd ?cmd \<Longrightarrow> frame_size ?cmd tlen plen \<le> length b \<Longrightarrow>
      readUint32 b (16 + unat tlen + unat plen + 64) = Inr kid"
    using key_id_readable [of ?cmd tlen plen b] by blast
  have cmd: "frame_command (cut_frame b seq tlen plen kid) = ?cmd"
    by (simp add: cut_frame_def Let_def)
  show ?thesis
    using assms parse_decision [OF size reads kid] kid size reads cmd
    by (intro that [of seq tlen plen kid]) (auto split: if_splits simp: not_less)
qed

lemma cut_frame_bytes:
  assumes "16 \<le> length b" and "readUint64 b 2 = Inr seq" and "readUint16 b 10 = Inr tlen"
    and "readUint32 b 12 = Inr plen" and "f = cut_frame b seq tlen plen kid"
    and "frame_size (frame_command f) tlen plen \<le> length b"
    and "is_signed_cmd (frame_command f) \<Longrightarrow> readUint32 b (16 + unat tlen + unat plen + 64) = Inr kid"
  shows "take (frame_size (frame_command f) tlen plen) b = serialize f"
proof -
  let ?o = "16 + unat tlen + unat plen"
  have fields: "frame_topic f = take (unat tlen) (drop 16 b)" "frame_sequence f = seq"
    "frame_payload f = take (unat plen) (drop (16 + unat tlen) b)"
    "frame_is_signed f = is_signed_cmd (frame_command f)"
    "is_signed_cmd (frame_command f) \<Longrightarrow> frame_signature f = map byte_of_char (take 64 (drop ?o b)) \<and> frame_key_id f = kid"
    "char_of_byte (frame_version f) = b ! 0" "char_of_byte (command_byte (frame_command f)) = b ! 1"
    by (simp_all add: assms(5) cut_frame_def Let_def)
  have len: "length (frame_topic f) = unat tlen" "length (frame_payload f) = unat plen"
    using assms(6) by (simp_all add: fields(1,3) frame_size_def split: if_splits)
  have two: "take 2 b = [b ! 0, b ! 1]"
    using assms(1) take_drop_nth [of 0 2 b] by (simp add: upt_bytes)
  have "take 16 b = take 2 b @ take 8 (drop 2 b) @ take 2 (drop 10 b) @ take 4 (drop 12 b)"
    using take_add [of 2 14 b] take_add [of 8 6 "drop 2 b"] take_add [of 2 4 "drop 10 b"] by simp
  then have header: "take 16 b = frame_header f"
    using read_inverse(3) [OF assms(2)] read_inverse(1) [OF assms(3)] read_inverse(2) [OF assms(4)] two fields len
    by (simp add: frame_header_def)
  have "take (if is_signed_cmd (frame_command f) then 68 else 0) (drop ?o b) = frame_trailer f"
  proof (cases "is_signed_cmd (frame_command f)")
    case True
    have "take 68 (drop ?o b) = take 64 (drop ?o b) @ take 4 (drop (?o + 64) b)"
      using take_add [of 64 4 "drop ?o b"] by (simp add: add.commute)
    then show ?thesis
      using True fields(4,5) read_inverse(2) [OF assms(7)] assms(6)
      by (simp add: frame_trailer_def SIGNATURE_SIZE_def frame_size_def)
  qed (simp add: frame_trailer_def fields(4))
  then show ?thesis
    using header fields(1,3) take_add [of 16 "unat tlen" b] take_add [of "16 + unat tlen" "unat plen" b]
      take_add [of ?o "if is_signed_cmd (frame_command f) then 68 else 0" b]
    by (simp add: frame_size_def serialize_split)
qed

lemma parse_inverse_gen:
  assumes "parse b = Inr (Some (f, n))"
  shows "valid_frame f \<and> take n b = serialize f \<and> n = length (serialize f)"
proof -
  obtain seq tlen plen kid where p: "16 \<le> length b" "n \<le> length b"
    "byte_of_char (b ! 0) = BINARY_PROTOCOL_VERSION"
    "readUint64 b 2 = Inr seq" "readUint16 b 10 = Inr tlen" "readUint32 b 12 = Inr plen"
    "tlen \<le> MAX_TOPIC_LEN" "plen \<le> MAX_PAYLOAD_LEN" "f = cut_frame b seq tlen plen kid"
    "n = frame_size (frame_command f) tlen plen" "frame_command f = command_of_byte (byte_of_char (b ! 1))"
    "is_signed_cmd (frame_command f) \<Longrightarrow> readUint32 b (16 + unat tlen + unat plen + 64) = Inr kid"
    using parse_SomeE [OF assms] by blast
  have bytes: "take n b = serialize f"
    using cut_frame_bytes [OF p(1,4,5,6,9) _ p(12)] p(2,10) by simp
  moreover have "n = length (serialize f)"
    using p(2) by (simp add: bytes [symmetric])
  moreover have "valid_frame f"
    using p by (auto simp: valid_frame_def cut_frame_def frame_size_def SIGNATURE_SIZE_def
        word_le_nat_alt Let_def)
  ultimately show ?thesis by blast
qed

lemma parse_not_Inl: "parse b \<noteq> Inl e"
proof (cases "length b < 16")
  case False
  let ?cmd = "command_of_byte (byte_of_char (b ! 1))"
  have size: "16 \<le> length b" using False by simp
  obtain seq tlen plen where reads: "readUint64 b 2 = Inr seq" "readUint16 b 10 = Inr tlen" "readUint32 b 12 = Inr plen"
    using header_readable [OF size] .
  obtain kid where "is_signed_cmd ?cmd \<Longrightarrow> frame_size ?cmd tlen plen \<le> length b \<Longrightarrow>
      readUint32 b (16 + unat tlen + unat plen + 64) = Inr kid"
    using key_id_readable [of ?cmd tlen plen b] by blast
  from parse_decision [OF size reads this] show ?thesis by simp
qed simp

text \<open>The binary format meets the framing contract.\<close>

interpretation binary_codec: frame_codec parse serialize valid_frame
proof
  fix b e
  show "parse b \<noteq> Inl e" by (rule parse_not_Inl)
next
  fix b m n
  assume "parse b = Inr (Some (m, n))"
  then have "n \<le> length b" and "n = length (serialize m)"
    using parse_SomeE parse_inverse_gen by metis+
  then show "0 < n \<and> n \<le> length b"
    by (simp add: serialize_split)
next
  fix b m n t
  assume p: "parse b = Inr (Some (m, n))"
  then have "b = serialize m @ drop n b" "n = length (serialize m)" "valid_frame m"
    using parse_inverse_gen [OF p] append_take_drop_id [of n b] by (simp_all, metis)
  then show "parse (b @ t) = Inr (Some (m, n))"
    using parse_serialize_gen [of m "drop n b @ t"] by (metis append.assoc)
next
  fix m t
  assume "valid_frame m"
  then show "parse (serialize m @ t) = Inr (Some (m, length (serialize m)))"
    by (rule parse_serialize_gen)
qed

section \<open>Properties of the binary protocol\<close>

lemmas valid_frame_eval = valid_frame_def frame_defs size_defs is_signed_cmd_def command_of_byte_def

text \<open>
  (C12) Round trip: parsing the bytes of a frame, followed by any other bytes, gives back exactly that
  frame and consumes exactly its bytes, for every frame within the protocol's limits.
\<close>

theorem parse_serialize:
  "valid_frame f \<Longrightarrow> parse (serialize f @ rest) = Inr (Some (f, length (serialize f)))"
  by (rule binary_codec.roundtrip)

theorem parse_serialize_witness:
  "parse (serialize (publish_frame ''temp'' ''22.5'' 7) @ ''x'') =
     Inr (Some (publish_frame ''temp'' ''22.5'' 7, length (serialize (publish_frame ''temp'' ''22.5'' 7))))"
  by (rule parse_serialize) (simp add: valid_frame_eval)

text \<open>
  (C13) The parser accepts nothing else: an accepted buffer starts with the serialization of the frame
  it returns, the byte count is that of the serialization, and the frame respects every limit
  (version, topic and payload length, signature present exactly for the signed commands).
\<close>

theorem parse_accepts_only_serializations:
  "parse b = Inr (Some (f, n)) \<Longrightarrow> valid_frame f \<and> take n b = serialize f \<and> n = length (serialize f)"
  by (rule parse_inverse_gen)

theorem parse_accepts_only_serializations_witness:
  "valid_frame (ack_frame 3) \<and> take 16 (serialize (ack_frame 3) @ ''zz'') = serialize (ack_frame 3) \<and>
   16 = length (serialize (ack_frame 3))"
proof (rule parse_accepts_only_serializations)
  have "valid_frame (ack_frame 3)" by (simp add: valid_frame_eval)
  from parse_serialize_gen [OF this, of "''zz''"] length_serialize [OF this]
  show "parse (serialize (ack_frame 3) @ ''zz'') = Inr (Some (ack_frame 3, 16))"
    by (simp add: calculateFrameSize_def frame_defs size_defs is_signed_cmd_def)
qed

text \<open>
  A frame of which only a strict prefix has arrived is never accepted: the parser asks for more
  bytes.
\<close>

theorem parse_incomplete:
  "valid_frame f \<Longrightarrow> k < length (serialize f) \<Longrightarrow> parse (take k (serialize f)) = Inr None"
  by (rule binary_codec.strict_prefix_waits)

theorem parse_incomplete_witness: "parse (take 15 (serialize (ack_frame 3))) = Inr None"
proof (rule parse_incomplete)
  show valid: "valid_frame (ack_frame 3)" by (simp add: valid_frame_eval)
  show "15 < length (serialize (ack_frame 3))" by (simp add: serialize_split)
qed



text \<open>
  The receive loop over binary frames always ends, whatever the bytes and the handler: the parser
  never throws and every accepted frame shortens the buffer. When it ends without an exception from
  the handler, what is left is empty or not yet a frame.
\<close>

theorem binary_loop_terminates:
  "\<exists>s' r e. recv_loop parse h s buf = Some (s', r, e) \<and>
     (case e of None \<Rightarrow> r = [] \<or> parse r = Inr None | Some _ \<Rightarrow> True)"
proof -
  obtain s' r e where l: "recv_loop parse h s buf = Some (s', r, e)"
    using binary_codec.loop_returns [of h s buf] by blast
  then show ?thesis
    using binary_codec.loop_rest [of h s buf s' r] by (cases e) auto
qed

lemma parse_bad_header:
  assumes "16 \<le> length b"
    and "byte_of_char (b ! 0) \<noteq> BINARY_PROTOCOL_VERSION \<or>
         (\<exists>tlen. readUint16 b 10 = Inr tlen \<and> MAX_TOPIC_LEN < tlen) \<or>
         (\<exists>plen. readUint32 b 12 = Inr plen \<and> MAX_PAYLOAD_LEN < plen)"
  shows "parse (b @ rest) = Inr None"
proof -
  let ?b = "b @ rest" and ?cmd = "command_of_byte (byte_of_char ((b @ rest) ! 1))"
  have size: "16 \<le> length ?b" using assms(1) by simp
  obtain seq tlen plen where reads: "readUint64 ?b 2 = Inr seq" "readUint16 ?b 10 = Inr tlen" "readUint32 ?b 12 = Inr plen"
    using header_readable [OF size] .
  obtain kid where kid: "is_signed_cmd ?cmd \<Longrightarrow> frame_size ?cmd tlen plen \<le> length ?b \<Longrightarrow>
      readUint32 ?b (16 + unat tlen + unat plen + 64) = Inr kid"
    using key_id_readable [of ?cmd tlen plen ?b] by blast
  have "readUint16 b 10 = Inr tlen" "readUint32 b 12 = Inr plen" "?b ! 0 = b ! 0"
    using reads assms(1) by (auto simp: read_stable nth_append)
  then show "parse ?b = Inr None"
    using parse_decision [OF size reads kid] assms(2) by auto
qed

text \<open>
  (C34) A frame with a wrong version byte or an oversized length field is not dropped: no matter what
  bytes follow, the loop stops in front of it with the buffer unchanged, so nothing behind it on the
  connection is ever handled.
\<close>

theorem bad_header_blocks_connection:
  assumes "16 \<le> length b"
    and "byte_of_char (b ! 0) \<noteq> BINARY_PROTOCOL_VERSION \<or>
         (\<exists>tlen. readUint16 b 10 = Inr tlen \<and> MAX_TOPIC_LEN < tlen) \<or>
         (\<exists>plen. readUint32 b 12 = Inr plen \<and> MAX_PAYLOAD_LEN < plen)"
  shows "recv_loop parse h s (b @ rest) = Some (s, b @ rest, None)"
  by (rule recv_loop_wait) (rule parse_bad_header [OF assms])

theorem bad_header_blocks_connection_witness:
  "recv_loop parse collect [] ((CHR 0x02 # replicate 15 CHR 0x00) @ serialize ping_frame) =
     Some ([], (CHR 0x02 # replicate 15 CHR 0x00) @ serialize ping_frame, None)"
proof (rule bad_header_blocks_connection)
  show "byte_of_char ((CHR 0x02 # replicate 15 CHR 0x00) ! 0) \<noteq> BINARY_PROTOCOL_VERSION \<or>
      (\<exists>tlen. readUint16 (CHR 0x02 # replicate 15 CHR 0x00) 10 = Inr tlen \<and> MAX_TOPIC_LEN < tlen) \<or>
      (\<exists>plen. readUint32 (CHR 0x02 # replicate 15 CHR 0x00) 12 = Inr plen \<and> MAX_PAYLOAD_LEN < plen)"
    by (simp add: byte_of_char_def size_defs)
qed simp

end
