(* ===== verification/Resp_Parser.thy ===== *)
theory Resp_Parser
  imports Framing
begin

text \<open>
  The Redis text protocol (\<^verbatim>\<open>src/resp_parser.hpp\<close>, \<^verbatim>\<open>src/resp_parser.cpp\<close>): RESP values with
  their accessors, \<^verbatim>\<open>RespParser::parse\<close> with its recursion into array elements,
  \<^verbatim>\<open>RespParser::serialize\<close> and \<^verbatim>\<open>RespParser::makeArray\<close>. The lemmas show that the recursion
  ends, that no \<^verbatim>\<open>substr\<close> in it can be out of range, that parsing inverts serialization for
  arbitrarily nested values within the limits, and that more input never changes an answer; the
  parser meets the same framing contract as the binary one.
\<close>

section \<open>Values\<close>

text \<open>The tag \<^verbatim>\<open>RespType\<close> and the variant it selects, as one datatype.\<close>

datatype RespValue =
    SimpleString bytes
  | RError bytes
  | RInteger int
  | BulkString bytes
  | RArray "RespValue list"
  | RNull

fun isArray :: "RespValue \<Rightarrow> bool" where
  "isArray (RArray _) = True"
| "isArray _ = False"

fun asString :: "RespValue \<Rightarrow> bytes" where
  "asString (SimpleString s) = s"
| "asString (RError s) = s"
| "asString (BulkString s) = s"
| "asString _ = []"

fun asInteger :: "RespValue \<Rightarrow> int" where
  "asInteger (RInteger n) = n"
| "asInteger _ = 0"

fun asArray :: "RespValue \<Rightarrow> RespValue list" where
  "asArray (RArray vs) = vs"
| "asArray _ = []"

section \<open>Parser\<close>

abbreviation (input) CR :: char where "CR \<equiv> CHR 0x0D"
abbreviation (input) LF :: char where "LF \<equiv> CHR 0x0A"
abbreviation (input) CRLF :: bytes where "CRLF \<equiv> [CHR 0x0D, CHR 0x0A]"

text \<open>\<^verbatim>\<open>buffer.find\<close> of CR LF from a start position; a start past the end finds nothing.\<close>

fun crlf_in :: "bytes \<Rightarrow> nat option" where
  "crlf_in (c # d # s) = (if c = CR \<and> d = LF then Some 0 else map_option Suc (crlf_in (d # s)))"
| "crlf_in _ = None"

definition findCRLF :: "bytes \<Rightarrow> nat \<Rightarrow> nat option" where
  "findCRLF buffer start = map_option ((+) start) (crlf_in (drop start buffer))"

definition MAX_BULK_LEN :: int where "MAX_BULK_LEN = 16 * 1024 * 1024"
definition MAX_ARRAY_COUNT :: int where "MAX_ARRAY_COUNT = 10000"

function resp_parse :: "bytes \<Rightarrow> exn + (RespValue \<times> nat) option"
  and parse_elems :: "nat \<Rightarrow> bytes \<Rightarrow> nat \<Rightarrow> RespValue list \<Rightarrow> exn + (RespValue \<times> nat) option" where
  "resp_parse buffer =
     (case buffer of
        [] \<Rightarrow> Inr None
      | type_char # _ \<Rightarrow>
          if type_char = CHR ''+'' then
            (case findCRLF buffer 1 of
               None \<Rightarrow> Inr None
             | Some crlf \<Rightarrow> thenE (substr buffer 1 (crlf - 1)) (\<lambda>str.
                 Inr (Some (SimpleString str, crlf + 2))))
          else if type_char = CHR ''-'' then
            (case findCRLF buffer 1 of
               None \<Rightarrow> Inr None
             | Some crlf \<Rightarrow> thenE (substr buffer 1 (crlf - 1)) (\<lambda>err.
                 Inr (Some (RError err, crlf + 2))))
          else if type_char = CHR '':'' then
            (case findCRLF buffer 1 of
               None \<Rightarrow> Inr None
             | Some crlf \<Rightarrow> thenE (substr buffer 1 (crlf - 1)) (\<lambda>num_str.
                 (case stoll num_str of
                    Inl _ \<Rightarrow> Inr None
                  | Inr num \<Rightarrow> Inr (Some (RInteger num, crlf + 2)))))
          else if type_char = CHR ''$'' then
            (case findCRLF buffer 1 of
               None \<Rightarrow> Inr None
             | Some crlf \<Rightarrow> thenE (substr buffer 1 (crlf - 1)) (\<lambda>len_str.
                 (case stoll len_str of
                    Inl _ \<Rightarrow> Inr None
                  | Inr len \<Rightarrow>
                      if len = -1 then Inr (Some (RNull, crlf + 2))
                      else if len < 0 \<or> MAX_BULK_LEN < len then Inr None
                      else if length buffer < (crlf + 2) + nat len + 2 then Inr None
                      else thenE (substr buffer (crlf + 2) (nat len)) (\<lambda>str.
                        Inr (Some (BulkString str, (crlf + 2) + nat len + 2))))))
          else if type_char = CHR ''*'' then
            (case findCRLF buffer 1 of
               None \<Rightarrow> Inr None
             | Some crlf \<Rightarrow> thenE (substr buffer 1 (crlf - 1)) (\<lambda>count_str.
                 (case stoll count_str of
                    Inl _ \<Rightarrow> Inr None
                  | Inr count \<Rightarrow>
                      if count = -1 then Inr (Some (RNull, crlf + 2))
                      else if count < 0 \<or> MAX_ARRAY_COUNT < count then Inr None
                      else parse_elems (nat count) buffer (crlf + 2) [])))
          else Inr None)"
| "parse_elems 0 buffer offset arr = Inr (Some (RArray arr, offset))"
| "parse_elems (Suc n) buffer offset arr =
     thenE (substr_from buffer offset) (\<lambda>sub.
     thenE (resp_parse sub) (\<lambda>elem.
       (case elem of
          None \<Rightarrow> Inr None
        | Some (v, used) \<Rightarrow> parse_elems n buffer (offset + used) (arr @ [v]))))"
  by pat_completeness auto
termination
  by (relation "measures
      [\<lambda>x. case x of Inl b \<Rightarrow> length b | Inr (n, b, off, arr) \<Rightarrow> length b - off,
       \<lambda>x. case x of Inl b \<Rightarrow> 0 | Inr (n, b, off, arr) \<Rightarrow> 1,
       \<lambda>x. case x of Inl b \<Rightarrow> 0 | Inr (n, b, off, arr) \<Rightarrow> n]")
    (auto simp: substr_from_def split: if_splits)

declare resp_parse.simps [simp del]

section \<open>Serializer\<close>

fun resp_serialize :: "RespValue \<Rightarrow> bytes" where
  "resp_serialize (SimpleString s) = ''+'' @ s @ CRLF"
| "resp_serialize (RError s) = ''-'' @ s @ CRLF"
| "resp_serialize (RInteger n) = '':'' @ show_int n @ CRLF"
| "resp_serialize (BulkString s) = ''$'' @ to_string (length s) @ CRLF @ s @ CRLF"
| "resp_serialize (RArray vs) = ''*'' @ to_string (length vs) @ CRLF @ concat (map resp_serialize vs)"
| "resp_serialize RNull = ''$-1'' @ CRLF"

definition makeArray :: "bytes list \<Rightarrow> RespValue" where
  "makeArray strings = RArray (map BulkString strings)"

text \<open>
  The values the protocol carries without loss: one-line strings and errors, 64-bit integers, bulk
  strings and arrays within the parser's limits.
\<close>

fun valid_resp :: "RespValue \<Rightarrow> bool" where
  "valid_resp (SimpleString s) = (crlf_in s = None)"
| "valid_resp (RError s) = (crlf_in s = None)"
| "valid_resp (RInteger n) = (- (2 ^ 63) \<le> n \<and> n < 2 ^ 63)"
| "valid_resp (BulkString s) = (int (length s) \<le> MAX_BULK_LEN)"
| "valid_resp (RArray vs) = (int (length vs) \<le> MAX_ARRAY_COUNT \<and> list_all valid_resp vs)"
| "valid_resp RNull = True"

section \<open>Lines\<close>

lemma crlf_in_append: "crlf_in s = Some i \<Longrightarrow> crlf_in (s @ t) = Some i"
proof (induction s arbitrary: i rule: crlf_in.induct)
  case (1 c d s)
  then show ?case by (auto split: if_splits)
qed auto

lemma crlf_in_bound: "crlf_in s = Some i \<Longrightarrow> i + 2 \<le> length s"
proof (induction s arbitrary: i rule: crlf_in.induct)
  case (1 c d s)
  then show ?case by (auto split: if_splits)
qed auto

lemma crlf_in_mid [simp]: "crlf_in s = None \<Longrightarrow> crlf_in (s @ CR # LF # t) = Some (length s)"
proof (induction s rule: crlf_in.induct)
  case (1 c d s)
  then show ?case by (auto split: if_splits)
qed auto

lemma crlf_in_None [simp]: "CR \<notin> set s \<Longrightarrow> crlf_in s = None"
  by (induction s rule: crlf_in.induct) auto

lemma findCRLF_append: "findCRLF b 1 = Some i \<Longrightarrow> findCRLF (b @ t) 1 = Some i"
  by (cases b) (auto simp: findCRLF_def crlf_in_append)

lemma findCRLF_bound: "findCRLF b 1 = Some i \<Longrightarrow> 1 \<le> i \<and> i + 2 \<le> length b"
  by (cases b) (auto simp: findCRLF_def dest: crlf_in_bound)

lemma findCRLF_line [simp]:
  "crlf_in s = None \<Longrightarrow> findCRLF (c # s @ CR # LF # t) (Suc 0) = Some (Suc (length s))"
  by (simp add: findCRLF_def)

lemma substr_line [simp]: "substr (c # s @ CR # LF # t) (Suc 0) (length s) = Inr s"
  by (simp add: substr_def)

lemma substr_append:
  "pos + n \<le> length b \<Longrightarrow> substr (b @ t) pos n = substr b pos n"
  by (simp add: substr_def)

text \<open>
  The line after the type byte: its text and the position behind its CR LF. The parser reads it the
  same way in every branch.
\<close>

definition first_line :: "bytes \<Rightarrow> (bytes \<times> nat) option" where
  "first_line b = map_option (\<lambda>i. (take (i - 1) (drop 1 b), i + 2)) (findCRLF b 1)"

lemma first_line_append: "first_line b = Some (l, p) \<Longrightarrow> first_line (b @ t) = Some (l, p)"
  using findCRLF_append findCRLF_bound by (fastforce simp: first_line_def)

lemma first_line_bound: "first_line b = Some (l, p) \<Longrightarrow> 3 \<le> p \<and> p \<le> length b"
  using findCRLF_bound by (fastforce simp: first_line_def)

lemma first_line_mid [simp]:
  "crlf_in s = None \<Longrightarrow> first_line (c # s @ CR # LF # t) = Some (s, length s + 3)"
  by (simp add: first_line_def)

text \<open>One step of the parser over the first line.\<close>

definition line_value :: "bytes \<Rightarrow> bytes \<Rightarrow> nat \<Rightarrow> exn + (RespValue \<times> nat) option" where
  "line_value b l p =
     (if hd b = CHR ''+'' then Inr (Some (SimpleString l, p))
      else if hd b = CHR ''-'' then Inr (Some (RError l, p))
      else if hd b = CHR '':'' then
        (case stoll l of Inl _ \<Rightarrow> Inr None | Inr num \<Rightarrow> Inr (Some (RInteger num, p)))
      else if hd b = CHR ''$'' then
        (case stoll l of
           Inl _ \<Rightarrow> Inr None
         | Inr len \<Rightarrow>
             if len = -1 then Inr (Some (RNull, p))
             else if len < 0 \<or> MAX_BULK_LEN < len then Inr None
             else if length b < p + nat len + 2 then Inr None
             else Inr (Some (BulkString (take (nat len) (drop p b)), p + nat len + 2)))
      else if hd b = CHR ''*'' then
        (case stoll l of
           Inl _ \<Rightarrow> Inr None
         | Inr count \<Rightarrow>
             if count = -1 then Inr (Some (RNull, p))
             else if count < 0 \<or> MAX_ARRAY_COUNT < count then Inr None
             else parse_elems (nat count) b p [])
      else Inr None)"

lemma resp_parse_line:
  "resp_parse b = (case first_line b of None \<Rightarrow> Inr None | Some (l, p) \<Rightarrow> line_value b l p)"
proof (cases "b = []")
  case False
  show ?thesis
  proof (cases "findCRLF b 1")
    case None
    with False show ?thesis
      by (simp add: resp_parse.simps [of b] first_line_def list.case_eq_if)
  next
    case (Some i)
    with findCRLF_bound have i: "1 \<le> i" "i + 2 \<le> length b" by blast+
    then have "substr b 1 (i - 1) = Inr (take (i - 1) (drop 1 b))"
      by (auto simp: substr_def)
    moreover have "substr b (i + 2) n = Inr (take n (drop (i + 2) b))" for n
      using i by (simp add: substr_def)
    ultimately show ?thesis
      using Some False
      by (simp add: resp_parse.simps [of b] first_line_def line_value_def list.case_eq_if
          split: sum.split)
  qed
qed (simp add: resp_parse.simps first_line_def findCRLF_def)

section \<open>The framing contract\<close>

text \<open>
  Each law is proved by induction on the length of the buffer: an array's elements are parsed from a
  position behind its first line, hence from a shorter buffer.
\<close>

lemma parse_elems_progress:
  assumes "\<And>b' v n. length b' < length b \<Longrightarrow> resp_parse b' = Inr (Some (v, n)) \<Longrightarrow> 0 < n \<and> n \<le> length b'"
    and "parse_elems k b off arr = Inr (Some (v, n))" and "0 < off" and "off \<le> length b"
  shows "off \<le> n \<and> n \<le> length b"
  using assms(2-4)
proof (induction k arbitrary: off arr)
  case (Suc k)
  then obtain w used where w: "resp_parse (drop off b) = Inr (Some (w, used))"
      and rest: "parse_elems k b (off + used) (arr @ [w]) = Inr (Some (v, n))"
    by (auto simp: substr_from_def thenE_Inr_iff split: option.splits)
  have "length (drop off b) < length b" using Suc.prems by simp
  from assms(1) [OF this w] have "0 < used" "off + used \<le> length b" using Suc.prems by auto
  with Suc.IH [OF rest] show ?case by simp
qed simp

lemma resp_parse_progress: "resp_parse b = Inr (Some (v, n)) \<Longrightarrow> 0 < n \<and> n \<le> length b"
proof (induction "length b" arbitrary: b v n rule: less_induct)
  case less
  then obtain l p where lp: "first_line b = Some (l, p)" and v: "line_value b l p = Inr (Some (v, n))"
    by (auto simp: resp_parse_line split: option.splits)
  note p = first_line_bound [OF lp]
  have "0 < n \<and> n \<le> length b"
    if "parse_elems k b p [] = Inr (Some (v, n))" for k
    using parse_elems_progress [OF less.hyps that] p by fastforce
  then show ?case
    using v p by (auto simp: line_value_def split: if_splits sum.splits)
qed

lemma parse_elems_not_Inl:
  assumes "\<And>b'. length b' < length b \<Longrightarrow> resp_parse b' \<noteq> Inl e" and "0 < off" and "off \<le> length b"
  shows "parse_elems k b off arr \<noteq> Inl e"
  using assms(2,3)
proof (induction k arbitrary: off arr)
  case (Suc k)
  have "length (drop off b) < length b" using Suc.prems by simp
  with assms(1) have noexn: "resp_parse (drop off b) \<noteq> Inl e" .
  have "parse_elems k b (off + used) (arr @ [v]) \<noteq> Inl e"
    if "resp_parse (drop off b) = Inr (Some (v, used))" for v used
  proof -
    have "off + used \<le> length b" using resp_parse_progress [OF that] Suc.prems by auto
    with Suc.IH [of "off + used"] Suc.prems show ?thesis by simp
  qed
  then show ?case
    using noexn Suc.prems by (auto simp: substr_from_def thenE_def split: sum.splits option.splits)
qed simp

lemma resp_parse_not_Inl: "resp_parse b \<noteq> Inl e"
proof (induction "length b" arbitrary: b rule: less_induct)
  case less
  have "parse_elems k b p [] \<noteq> Inl e" if "first_line b = Some (l, p)" for k l p
    using parse_elems_not_Inl [OF less.hyps] first_line_bound [OF that] by auto
  then show ?case
    by (auto simp: resp_parse_line line_value_def split: option.splits sum.splits)
qed

lemma parse_elems_stable:
  assumes "\<And>b' v n. length b' < length b \<Longrightarrow> resp_parse b' = Inr (Some (v, n)) \<Longrightarrow>
             resp_parse (b' @ t) = Inr (Some (v, n))"
    and "parse_elems k b off arr = Inr (Some x)" and "0 < off" and "off \<le> length b"
  shows "parse_elems k (b @ t) off arr = Inr (Some x)"
  using assms(2-4)
proof (induction k arbitrary: off arr)
  case (Suc k)
  then obtain w used where w: "resp_parse (drop off b) = Inr (Some (w, used))"
      and rest: "parse_elems k b (off + used) (arr @ [w]) = Inr (Some x)"
    by (auto simp: substr_from_def thenE_Inr_iff split: option.splits)
  have "length (drop off b) < length b" using Suc.prems by simp
  with assms(1) w have "resp_parse (drop off b @ t) = Inr (Some (w, used))" by blast
  moreover have "off + used \<le> length b" using resp_parse_progress [OF w] Suc.prems by auto
  ultimately show ?case
    using Suc.IH [OF rest] Suc.prems by (simp add: substr_from_def)
qed simp

lemma resp_parse_stable:
  "resp_parse b = Inr (Some (v, n)) \<Longrightarrow> resp_parse (b @ t) = Inr (Some (v, n))"
proof (induction "length b" arbitrary: b v n rule: less_induct)
  case less
  then obtain l p where lp: "first_line b = Some (l, p)" and v: "line_value b l p = Inr (Some (v, n))"
    by (auto simp: resp_parse_line split: option.splits)
  note p = first_line_bound [OF lp]
  then have "hd (b @ t) = hd b" by (cases b) auto
  moreover have "parse_elems k (b @ t) p [] = Inr (Some (v, n))"
    if "parse_elems k b p [] = Inr (Some (v, n))" for k
    using parse_elems_stable [OF less.hyps that] p by auto
  ultimately have "line_value (b @ t) l p = Inr (Some (v, n))"
    using v p by (auto simp: line_value_def split: if_splits sum.splits)
  then show ?case
    using first_line_append [OF lp] by (simp add: resp_parse_line)
qed

section \<open>Parsing inverts serialization\<close>

lemma parse_elems_serialized:
  assumes "\<And>v t. v \<in> set vs \<Longrightarrow> resp_parse (resp_serialize v @ t) = Inr (Some (v, length (resp_serialize v)))"
  shows "parse_elems (length vs) (pre @ concat (map resp_serialize vs) @ t) (length pre) arr =
     Inr (Some (RArray (arr @ vs), length pre + length (concat (map resp_serialize vs))))"
  using assms
proof (induction vs arbitrary: pre arr)
  case (Cons v vs)
  from Cons.prems [of v] have v: "resp_parse (resp_serialize v @ s) = Inr (Some (v, length (resp_serialize v)))" for s
    by simp
  from Cons.IH [of "pre @ resp_serialize v" "arr @ [v]"] Cons.prems show ?case
    by (simp add: substr_from_def v add.assoc)
qed simp

lemma crlf_in_to_string [simp]: "crlf_in (to_string n) = None"
  by simp

lemma crlf_in_show_int [simp]: "crlf_in (show_int i) = None"
  by (rule crlf_in_None) (simp add: show_int_def)

lemma show_int_nat [simp]: "show_int (int n) = to_string n"
  by (simp add: show_int_def)

lemma stoll_length: "int n < 2 ^ 63 \<Longrightarrow> stoll (to_string n) = Inr (int n)"
  using stoll_show_int [of "int n"] by simp

lemma resp_parse_serialize_gen:
  "valid_resp v \<Longrightarrow> resp_parse (resp_serialize v @ t) = Inr (Some (v, length (resp_serialize v)))"
proof (induction v arbitrary: t)
  case (SimpleString s)
  then show ?case by (simp add: resp_parse_line line_value_def)
next
  case (RError s)
  then show ?case by (simp add: resp_parse_line line_value_def)
next
  case (RInteger n)
  then show ?case by (simp add: resp_parse_line line_value_def)
next
  case (BulkString s)
  let ?n = "length (to_string (length s))"
  have "drop (?n + 3) (CHR ''$'' # to_string (length s) @ CR # LF # s @ CR # LF # t) = s @ CR # LF # t"
    by (simp add: numeral_3_eq_3)
  with BulkString show ?case
    by (simp add: resp_parse_line line_value_def stoll_length MAX_BULK_LEN_def)
next
  case (RArray vs)
  let ?pre = "CHR ''*'' # to_string (length vs) @ CRLF"
  have "parse_elems (length vs) (?pre @ concat (map resp_serialize vs) @ t) (length ?pre) [] =
      Inr (Some (RArray ([] @ vs), length ?pre + length (concat (map resp_serialize vs))))"
    using RArray by (intro parse_elems_serialized) (auto simp: list_all_iff)
  with RArray.prems show ?case
    by (simp add: resp_parse_line line_value_def stoll_length MAX_ARRAY_COUNT_def numeral_3_eq_3)
next
  case RNull
  have "crlf_in ''-1'' = None" by simp
  from first_line_mid [OF this, of "CHR ''$''" t] have "first_line (''$-1'' @ CRLF @ t) = Some (''-1'', 5)"
    by simp
  moreover have "stoll ''-1'' = Inr (-1)"
    by (simp add: stoll_def split_sign_def is_space_def is_digit_def dec_val_def)
  ultimately show ?case
    by (simp add: resp_parse_line line_value_def)
qed

interpretation resp_codec: frame_codec resp_parse resp_serialize valid_resp
  by unfold_locales
    (auto intro: resp_parse_serialize_gen resp_parse_stable simp: resp_parse_not_Inl dest: resp_parse_progress)

section \<open>Properties of the RESP protocol\<close>

text \<open>
  (C18) Round trip: parsing the text of a RESP value, followed by any other bytes, gives back the value
  and consumes exactly its text, for arbitrarily nested values within the parser's limits.
\<close>

theorem resp_parse_serialize:
  "valid_resp v \<Longrightarrow>
   resp_parse (resp_serialize v @ rest) = Inr (Some (v, length (resp_serialize v)))"
  by (rule resp_codec.roundtrip)

theorem resp_parse_serialize_witness:
  "resp_parse (resp_serialize (RArray [BulkString ''PUBLISH'', RInteger (-5), RArray [RNull]]) @ ''+'') =
     Inr (Some (RArray [BulkString ''PUBLISH'', RInteger (-5), RArray [RNull]],
       length (resp_serialize (RArray [BulkString ''PUBLISH'', RInteger (-5), RArray [RNull]]))))"
  by (rule resp_parse_serialize) (simp add: MAX_BULK_LEN_def MAX_ARRAY_COUNT_def)

text \<open>
  The parser is safe on every input: no \<^verbatim>\<open>substr\<close> of its recursion is out of range and no
  \<^verbatim>\<open>stoll\<close> failure escapes, and a value it accepts consumes at least one byte and no more than
  the buffer holds.
\<close>

theorem resp_parse_safe:
  "\<exists>r. resp_parse b = Inr r \<and> (case r of None \<Rightarrow> True | Some (v, n) \<Rightarrow> 0 < n \<and> n \<le> length b)"
proof (cases "resp_parse b")
  case (Inl e)
  then show ?thesis using resp_codec.never_throws by blast
next
  case (Inr r)
  then show ?thesis using resp_codec.progress [of b] by (cases r) auto
qed

text \<open>
  TCP segmentation does not matter for RESP either: commands sent as bulk-string arrays and cut
  into chunks at arbitrary places are delivered exactly and in order.
\<close>

theorem resp_stream_reassembly:
  "list_all valid_resp vs \<Longrightarrow> concat chunks = concat (map resp_serialize vs) \<Longrightarrow>
   recv_chunks resp_parse collect [] [] chunks = Some (vs, [], None)"
  by (rule resp_codec.chunks_collect)

theorem resp_stream_reassembly_witness:
  "recv_chunks resp_parse collect [] []
     [take 3 (resp_serialize (makeArray [''PING'']) @ resp_serialize (makeArray [''ACK'', ''1''])),
      drop 3 (resp_serialize (makeArray [''PING'']) @ resp_serialize (makeArray [''ACK'', ''1'']))] =
   Some ([makeArray [''PING''], makeArray [''ACK'', ''1'']], [], None)"
proof (rule resp_stream_reassembly)
  show "list_all valid_resp [makeArray [''PING''], makeArray [''ACK'', ''1'']]"
    by (simp add: makeArray_def MAX_BULK_LEN_def MAX_ARRAY_COUNT_def)
qed (simp del: take_append drop_append)

fun nested :: "nat \<Rightarrow> RespValue" where
  "nested 0 = RArray []"
| "nested (Suc n) = RArray [nested n]"

lemma to_string_digit: "to_string 0 = ''0''" "to_string (Suc 0) = ''1''"
  by (simp_all add: to_string.simps)

text \<open>
  There is no bound on nesting: for every depth \<open>n\<close> a text of \<open>4 n + 4\<close> bytes parses to arrays
  nested \<open>n\<close> deep, so the C++ recursion goes as deep as the receive buffer allows.
\<close>

theorem resp_nesting_unbounded:
  "resp_parse (resp_serialize (nested n)) = Inr (Some (nested n, 4 * n + 4))"
proof -
  have "valid_resp (nested n)" "length (resp_serialize (nested n)) = 4 * n + 4"
    by (induction n) (simp_all add: MAX_ARRAY_COUNT_def to_string_digit)
  then show ?thesis
    using resp_codec.roundtrip [of "nested n" "[]"] by simp
qed

end
