(* ===== verification/Signing.thy ===== *)
theory Signing
  imports Prelude
begin

text \<open>
  \<^verbatim>\<open>src/crypto/signing.cpp\<close>: the wrappers around libsodium and the hexadecimal form of keys and
  signatures. libsodium is a parameter, a record of the functions the source calls; the one law the
  broker needs, that a signature made with a key pair verifies under its public key, is a locale. The
  lemmas show that the hexadecimal coders are inverse and that decoding accepts exactly the
  hexadecimal strings of the right length, in either letter case.
\<close>

type_synonym PublicKey = "uint8 list"
type_synonym SecretKey = "uint8 list"
type_synonym Signature = "uint8 list"
type_synonym Seed = "uint8 list"

definition PUBLIC_KEY_SIZE :: nat where "PUBLIC_KEY_SIZE = 32"
definition SECRET_KEY_SIZE :: nat where "SECRET_KEY_SIZE = 64"
definition SIGNATURE_BYTES :: nat where "SIGNATURE_BYTES = 64"

record KeyPair =
  public_key :: PublicKey
  secret_key :: SecretKey
  key_id :: uint32

section \<open>libsodium\<close>

text \<open>
  The functions the source calls. \<^verbatim>\<open>crypto_sign_keypair\<close> draws from the system's randomness, an
  argument here.
\<close>

record 'r sodium =
  crypto_sign_keypair :: "'r \<Rightarrow> PublicKey \<times> SecretKey"
  crypto_sign_seed_keypair :: "Seed \<Rightarrow> PublicKey \<times> SecretKey"
  crypto_sign_detached :: "uint8 list \<Rightarrow> SecretKey \<Rightarrow> Signature"
  crypto_sign_verify_detached :: "Signature \<Rightarrow> uint8 list \<Rightarrow> PublicKey \<Rightarrow> int"

locale sodium_correct =
  fixes S :: "'r sodium"
  assumes random_pair:
      "crypto_sign_keypair S r = (pk, sk) \<Longrightarrow> crypto_sign_verify_detached S (crypto_sign_detached S m sk) m pk = 0"
    and seed_pair:
      "crypto_sign_seed_keypair S seed = (pk, sk) \<Longrightarrow> crypto_sign_verify_detached S (crypto_sign_detached S m sk) m pk = 0"

text \<open>\<^verbatim>\<open>init\<close>: the flag \<^verbatim>\<open>g_initialized\<close> and the return code of \<^verbatim>\<open>sodium_init\<close>.\<close>

definition crypto_init :: "int \<Rightarrow> bool \<Rightarrow> bool \<times> bool" where
  "crypto_init sodium_init_rc g_initialized =
     (if g_initialized then (True, g_initialized)
      else if sodium_init_rc < 0 then (False, g_initialized)
      else (True, True))"

definition generate_keypair :: "'r sodium \<Rightarrow> 'r \<Rightarrow> KeyPair" where
  "generate_keypair S r =
     (let (pk, sk) = crypto_sign_keypair S r in \<lparr>public_key = pk, secret_key = sk, key_id = 0\<rparr>)"

definition generate_keypair_from_seed :: "'r sodium \<Rightarrow> Seed \<Rightarrow> KeyPair" where
  "generate_keypair_from_seed S seed =
     (let (pk, sk) = crypto_sign_seed_keypair S seed in \<lparr>public_key = pk, secret_key = sk, key_id = 0\<rparr>)"

definition sign :: "'r sodium \<Rightarrow> uint8 list \<Rightarrow> SecretKey \<Rightarrow> Signature" where
  "sign S message secret = crypto_sign_detached S message secret"

definition sign_string :: "'r sodium \<Rightarrow> bytes \<Rightarrow> SecretKey \<Rightarrow> Signature" where
  "sign_string S message secret = sign S (map byte_of_char message) secret"

definition verify :: "'r sodium \<Rightarrow> uint8 list \<Rightarrow> Signature \<Rightarrow> PublicKey \<Rightarrow> bool" where
  "verify S message signature public \<longleftrightarrow> crypto_sign_verify_detached S signature message public = 0"

definition verify_string :: "'r sodium \<Rightarrow> bytes \<Rightarrow> Signature \<Rightarrow> PublicKey \<Rightarrow> bool" where
  "verify_string S message signature public = verify S (map byte_of_char message) signature public"

text \<open>
  \<^verbatim>\<open>secure_zero\<close> is libsodium's \<^verbatim>\<open>sodium_memzero\<close> on the first \<open>n\<close> bytes of a memory area; the template passes
  the data and size of a container.
\<close>

definition secure_zero :: "(uint8 list \<Rightarrow> nat \<Rightarrow> uint8 list) \<Rightarrow> uint8 list \<Rightarrow> nat \<Rightarrow> uint8 list" where
  "secure_zero sodium_memzero mem n = sodium_memzero mem n"

definition secure_zero_container :: "(uint8 list \<Rightarrow> nat \<Rightarrow> uint8 list) \<Rightarrow> uint8 list \<Rightarrow> uint8 list" where
  "secure_zero_container sodium_memzero container = secure_zero sodium_memzero container (length container)"

section \<open>Hexadecimal\<close>

definition hex_digit :: "nat \<Rightarrow> char" where
  "hex_digit d = (if d < 10 then char_of (48 + d) else char_of (87 + d))"

text \<open>\<^verbatim>\<open>to_hex\<close>: each byte with \<^verbatim>\<open>std::hex\<close>, \<^verbatim>\<open>setw(2)\<close> and \<^verbatim>\<open>setfill('0')\<close>, for keys and signatures alike.\<close>

definition to_hex :: "uint8 list \<Rightarrow> bytes" where
  "to_hex key = concat (map (\<lambda>b. [hex_digit (unat b div 16), hex_digit (unat b mod 16)]) key)"

definition hex_char_to_nibble :: "char \<Rightarrow> uint8 option" where
  "hex_char_to_nibble c =
     (if CHR ''0'' \<le> c \<and> c \<le> CHR ''9'' then Some (byte_of_char c - byte_of_char CHR ''0'')
      else if CHR ''a'' \<le> c \<and> c \<le> CHR ''f'' then Some (byte_of_char c - byte_of_char CHR ''a'' + 10)
      else if CHR ''A'' \<le> c \<and> c \<le> CHR ''F'' then Some (byte_of_char c - byte_of_char CHR ''A'' + 10)
      else None)"

text \<open>
  The decoding loop shared by \<^verbatim>\<open>public_key_from_hex\<close> and \<^verbatim>\<open>signature_from_hex\<close>, over the byte index;
  the first bad character ends it with \<open>None\<close>.
\<close>

definition hex_byte :: "bytes \<Rightarrow> nat \<Rightarrow> uint8 option" where
  "hex_byte hex i =
     (case (hex_char_to_nibble (hex ! (i * 2)), hex_char_to_nibble (hex ! (i * 2 + 1))) of
        (Some high, Some low) \<Rightarrow> Some (push_bit 4 high OR low)
      | _ \<Rightarrow> None)"

definition from_hex :: "nat \<Rightarrow> bytes \<Rightarrow> uint8 list option" where
  "from_hex n hex =
     (if length hex \<noteq> n * 2 then None else those (map (hex_byte hex) [0..<n]))"

definition public_key_from_hex :: "bytes \<Rightarrow> PublicKey option" where
  "public_key_from_hex hex = from_hex PUBLIC_KEY_SIZE hex"

definition signature_from_hex :: "bytes \<Rightarrow> Signature option" where
  "signature_from_hex hex = from_hex SIGNATURE_BYTES hex"

text \<open>The lower-case form of a hexadecimal character.\<close>

definition hex_lower :: "char \<Rightarrow> char" where
  "hex_lower c = (if CHR ''A'' \<le> c \<and> c \<le> CHR ''F'' then char_of (of_char c + 32 :: nat) else c)"

lemma nibble_eval:
  assumes "d < 16"
  shows "hex_char_to_nibble (hex_digit d) = Some (word_of_nat d)"
proof -
  have "d \<in> {0, 1, 2, 3, 4, 5, 6, 7, 8, 9, 10, 11, 12, 13, 14, 15}" using assms by (simp only: insert_iff empty_iff) presburger
  then show ?thesis
    by (auto simp: hex_char_to_nibble_def hex_digit_def byte_of_char_def less_eq_char_def of_char_of)
qed

lemma length_to_hex [simp]: "length (to_hex k) = length k * 2"
  by (induction k) (simp_all add: to_hex_def)

lemma to_hex_nth:
  "i < length k \<Longrightarrow> to_hex k ! (i * 2) = hex_digit (unat (k ! i) div 16) \<and>
     to_hex k ! (i * 2 + 1) = hex_digit (unat (k ! i) mod 16)"
proof (induction k arbitrary: i)
  case (Cons b k)
  have "to_hex (b # k) = hex_digit (unat b div 16) # hex_digit (unat b mod 16) # to_hex k"
    by (simp add: to_hex_def)
  with Cons show ?case by (cases i) simp_all
qed simp

lemma unat_nibbles: "unat (b :: uint8) div 16 = unat (drop_bit 4 b)" "unat b mod 16 = unat (take_bit 4 b)"
proof -
  show "unat b div 16 = unat (drop_bit 4 b)" by (simp add: drop_bit_eq_div unat_div)
  show "unat b mod 16 = unat (take_bit 4 b)" by (simp add: take_bit_eq_mod unat_mod)
qed

lemma byte_of_nibbles: "push_bit 4 (word_of_nat (unat b div 16)) OR word_of_nat (unat b mod 16) = (b :: uint8)"
  unfolding unat_nibbles by (rule bit_eqI) (auto simp: bit_simps)

lemma nibbles_of_byte:
  fixes h l :: uint8
  assumes "unat h < 16" "unat l < 16"
  shows "unat (push_bit 4 h OR l) div 16 = unat h" "unat (push_bit 4 h OR l) mod 16 = unat l"
proof -
  have small: "take_bit 4 h = h" "take_bit 4 l = l"
    using assms by (simp_all add: word_unat_eq_iff take_bit_eq_mod unat_mod)
  have "\<not> bit h n" if "4 \<le> n" for n
    using small(1) that by (metis bit_take_bit_iff not_less)
  moreover have "\<not> bit l n" if "4 \<le> n" for n
    using small(2) that by (metis bit_take_bit_iff not_less)
  ultimately have "drop_bit 4 (push_bit 4 h OR l) = h" "take_bit 4 (push_bit 4 h OR l) = l"
    by (auto simp: bit_eq_iff bit_simps not_less) (meson not_less)+
  then show "unat (push_bit 4 h OR l) div 16 = unat h" "unat (push_bit 4 h OR l) mod 16 = unat l"
    by (simp_all add: unat_nibbles)
qed

lemma those_Some_map: "those (map f xs) = Some ys \<longleftrightarrow> map f xs = map Some ys"
proof (induction xs arbitrary: ys)
  case (Cons x xs)
  then show ?case by (cases ys) (auto split: option.splits)
qed auto

lemma from_hex_to_hex: "from_hex (length k) (to_hex k) = Some k"
proof -
  have "hex_byte (to_hex k) i = Some (k ! i)" if "i < length k" for i
  proof -
    have "unat (k ! i) < 256" using unsigned_less [of "k ! i", where 'a = nat] by simp
    then show ?thesis
      using to_hex_nth [OF that] by (simp add: hex_byte_def nibble_eval byte_of_nibbles)
  qed
  then have "map (hex_byte (to_hex k)) [0..<length k] = map Some k"
    by (auto intro!: nth_equalityI)
  then show ?thesis by (simp add: from_hex_def those_Some_map)
qed


lemma nibble_inverse:
  assumes "hex_char_to_nibble c = Some x"
  shows "unat x < 16" "hex_digit (unat x) = hex_lower c"
proof -
  define n :: nat where "n = of_char c"
  have c: "c = char_of n" by (simp add: n_def)
  have "n \<in> {48..57} \<or> n \<in> {97..102} \<or> n \<in> {65..70}"
    using assms by (auto simp: hex_char_to_nibble_def less_eq_char_def n_def split: if_splits)
  then have "n \<in> {48, 49, 50, 51, 52, 53, 54, 55, 56, 57, 97, 98, 99, 100, 101, 102, 65, 66, 67, 68, 69, 70}"
    by (simp only: insert_iff empty_iff atLeastAtMost_iff) presburger
  then have "unat x < 16 \<and> hex_digit (unat x) = hex_lower c"
    using assms unfolding c
    by (auto simp: hex_char_to_nibble_def less_eq_char_def of_char_of byte_of_char_def hex_digit_def hex_lower_def)
  then show "unat x < 16" "hex_digit (unat x) = hex_lower c" by simp_all
qed

lemma hex_byte_inverse:
  assumes "hex_byte h i = Some b"
  shows "hex_digit (unat b div 16) = hex_lower (h ! (i * 2))" "hex_digit (unat b mod 16) = hex_lower (h ! (i * 2 + 1))"
  using assms nibble_inverse
  by (auto simp: hex_byte_def nibbles_of_byte split: option.splits prod.splits)

lemma from_hex_SomeD:
  assumes "from_hex n h = Some k"
  shows "length k = n" "to_hex k = map hex_lower h"
proof -
  have len: "length h = n * 2" and bs: "map (hex_byte h) [0..<n] = map Some k"
    using assms by (auto simp: from_hex_def those_Some_map split: if_splits)
  show k: "length k = n" using arg_cong [OF bs, of length] by simp
  have b: "hex_byte h i = Some (k ! i)" if "i < n" for i
    using arg_cong [OF bs, of "\<lambda>xs. xs ! i"] that k by simp
  show "to_hex k = map hex_lower h"
  proof (rule nth_equalityI)
    fix j assume "j < length (to_hex k)"
    then have j: "j < n * 2" "j div 2 < n" by (simp_all add: k)
    then show "to_hex k ! j = map hex_lower h ! j"
      using to_hex_nth [of "j div 2" k] hex_byte_inverse [OF b [OF j(2)]] k len
      by (cases "even j") (auto elim!: evenE oddE simp: mult.commute)
  qed (simp add: k len)
qed

section \<open>Properties\<close>

text \<open>
  Public keys and signatures survive the round trip through their hexadecimal text, and decoding
  accepts a text only if it is the encoding of the value it returns, up to the case of the letters.
\<close>

theorem hex_roundtrip:
  "(length k = PUBLIC_KEY_SIZE \<longrightarrow> public_key_from_hex (to_hex k) = Some k) \<and>
   (length g = SIGNATURE_BYTES \<longrightarrow> signature_from_hex (to_hex g) = Some g) \<and>
   (public_key_from_hex h = Some k \<longrightarrow> length k = PUBLIC_KEY_SIZE \<and> to_hex k = map hex_lower h) \<and>
   (signature_from_hex h = Some g \<longrightarrow> length g = SIGNATURE_BYTES \<and> to_hex g = map hex_lower h)"
  unfolding public_key_from_hex_def signature_from_hex_def
  using from_hex_SomeD [of PUBLIC_KEY_SIZE h k] from_hex_SomeD [of SIGNATURE_BYTES h g]
  by (metis from_hex_to_hex)

theorem hex_roundtrip_witness:
  "public_key_from_hex (to_hex (replicate 32 0xAB)) = Some (replicate 32 0xAB)"
  using hex_roundtrip [of "replicate 32 0xAB"] by (simp add: PUBLIC_KEY_SIZE_def)

end
