(* ===== verification/Keystore.thy ===== *)
theory Keystore
  imports Signing
begin

text \<open>
  \<^verbatim>\<open>TrustedKeyStore\<close> of \<^verbatim>\<open>include/metricmq/crypto.hpp\<close> and \<^verbatim>\<open>src/crypto/keystore.cpp\<close>: the registry of
  public keys the broker verifies signed publishes against. The hash map is an association list with
  distinct keys, the clock an argument. The lemmas give the registry's invariant, the exact condition
  of a successful verification, that a revoked key stays revoked through any operations that do not
  enable or register its number, that automatic numbers are fresh, and where the 32-bit counter wraps.
\<close>

record TrustedKey =
  tk_public_key :: PublicKey
  tk_key_id :: uint32
  tk_device_name :: bytes
  tk_allowed_topics :: bytes
  tk_enabled :: bool
  tk_registered_at :: uint64
  tk_last_used :: uint64

record TrustedKeyStore =
  ks_keys :: "(uint32 \<times> TrustedKey) list"
  ks_next_key_id :: uint32

definition ks_new :: TrustedKeyStore where
  "ks_new = \<lparr>ks_keys = [], ks_next_key_id = 1\<rparr>"

section \<open>Operations\<close>

definition new_key :: "uint64 \<Rightarrow> PublicKey \<Rightarrow> uint32 \<Rightarrow> bytes \<Rightarrow> bytes \<Rightarrow> TrustedKey" where
  "new_key now pk i device_name allowed_topics =
     \<lparr>tk_public_key = pk, tk_key_id = i, tk_device_name = device_name,
      tk_allowed_topics = allowed_topics, tk_enabled = True, tk_registered_at = now, tk_last_used = 0\<rparr>"

definition register_key :: "uint64 \<Rightarrow> TrustedKeyStore \<Rightarrow> PublicKey \<Rightarrow> bytes \<Rightarrow> bytes \<Rightarrow> TrustedKeyStore \<times> uint32" where
  "register_key now ks pk device_name allowed_topics =
     (let i = ks_next_key_id ks;
          ks1 = ks\<lparr>ks_next_key_id := ks_next_key_id ks + 1\<rparr>
      in (ks1\<lparr>ks_keys := AList.update i (new_key now pk i device_name allowed_topics) (ks_keys ks1)\<rparr>, i))"

definition register_key_id ::
    "uint64 \<Rightarrow> TrustedKeyStore \<Rightarrow> uint32 \<Rightarrow> PublicKey \<Rightarrow> bytes \<Rightarrow> bytes \<Rightarrow> TrustedKeyStore \<times> bool" where
  "register_key_id now ks i pk device_name allowed_topics =
     (if map_of (ks_keys ks) i \<noteq> None then (ks, False)
      else
        let ks1 = ks\<lparr>ks_keys := AList.update i (new_key now pk i device_name allowed_topics) (ks_keys ks)\<rparr>
        in (if ks_next_key_id ks1 \<le> i then ks1\<lparr>ks_next_key_id := i + 1\<rparr> else ks1, True))"

definition get_key :: "TrustedKeyStore \<Rightarrow> uint32 \<Rightarrow> PublicKey option" where
  "get_key ks i =
     (case map_of (ks_keys ks) i of
        None \<Rightarrow> None
      | Some tk \<Rightarrow> if \<not> tk_enabled tk then None else Some (tk_public_key tk))"

definition get_key_info :: "TrustedKeyStore \<Rightarrow> uint32 \<Rightarrow> TrustedKey option" where
  "get_key_info ks i = map_of (ks_keys ks) i"

definition is_trusted :: "TrustedKeyStore \<Rightarrow> uint32 \<Rightarrow> bool" where
  "is_trusted ks i = (case map_of (ks_keys ks) i of None \<Rightarrow> False | Some tk \<Rightarrow> tk_enabled tk)"

definition touch :: "uint64 \<Rightarrow> TrustedKeyStore \<Rightarrow> uint32 \<Rightarrow> TrustedKeyStore" where
  "touch now ks i =
     (case map_of (ks_keys ks) i of
        None \<Rightarrow> ks
      | Some tk \<Rightarrow> ks\<lparr>ks_keys := AList.update i (tk\<lparr>tk_last_used := now\<rparr>) (ks_keys ks)\<rparr>)"

definition verify_with_key ::
    "'r sodium \<Rightarrow> uint64 \<Rightarrow> TrustedKeyStore \<Rightarrow> uint32 \<Rightarrow> uint8 list \<Rightarrow> Signature \<Rightarrow> TrustedKeyStore \<times> bool" where
  "verify_with_key S now ks i message signature =
     (case map_of (ks_keys ks) i of
        None \<Rightarrow> (ks, False)
      | Some tk \<Rightarrow>
          if \<not> tk_enabled tk then (ks, False)
          else
            let valid = verify S message signature (tk_public_key tk)
            in (if valid then touch now ks i else ks, valid))"

definition set_enabled :: "TrustedKeyStore \<Rightarrow> uint32 \<Rightarrow> bool \<Rightarrow> TrustedKeyStore \<times> bool" where
  "set_enabled ks i enabled =
     (case map_of (ks_keys ks) i of
        None \<Rightarrow> (ks, False)
      | Some tk \<Rightarrow> (ks\<lparr>ks_keys := AList.update i (tk\<lparr>tk_enabled := enabled\<rparr>) (ks_keys ks)\<rparr>, True))"

definition remove_key :: "TrustedKeyStore \<Rightarrow> uint32 \<Rightarrow> TrustedKeyStore \<times> bool" where
  "remove_key ks i =
     (ks\<lparr>ks_keys := AList.delete i (ks_keys ks)\<rparr>, map_of (ks_keys ks) i \<noteq> None)"

definition get_all_key_ids :: "TrustedKeyStore \<Rightarrow> uint32 list" where
  "get_all_key_ids ks = map fst (ks_keys ks)"

definition ks_count :: "TrustedKeyStore \<Rightarrow> nat" where
  "ks_count ks = length (ks_keys ks)"

definition ks_clear :: "TrustedKeyStore \<Rightarrow> TrustedKeyStore" where
  "ks_clear ks = ks\<lparr>ks_keys := [], ks_next_key_id := 1\<rparr>"

section \<open>Invariant\<close>

text \<open>
  Keys are distinct and every entry is stored under its own number. \<open>ks_fresh\<close> says that the counter
  is above every number in use, which holds until it wraps.
\<close>

definition ks_inv :: "TrustedKeyStore \<Rightarrow> bool" where
  "ks_inv ks \<longleftrightarrow> distinct (map fst (ks_keys ks)) \<and> (\<forall>i tk. map_of (ks_keys ks) i = Some tk \<longrightarrow> tk_key_id tk = i)"

definition ks_fresh :: "TrustedKeyStore \<Rightarrow> bool" where
  "ks_fresh ks \<longleftrightarrow> (\<forall>i. map_of (ks_keys ks) i \<noteq> None \<longrightarrow> i < ks_next_key_id ks)"

text \<open>The operations as steps, with the observer calls that change nothing left out.\<close>

datatype ks_op =
  Register uint64 PublicKey bytes bytes
| Register_id uint64 uint32 PublicKey bytes bytes
| Verify uint64 uint32 "uint8 list" Signature
| Set_enabled uint32 bool
| Remove uint32
| Touch uint64 uint32
| Clear

fun ks_step :: "'r sodium \<Rightarrow> TrustedKeyStore \<Rightarrow> ks_op \<Rightarrow> TrustedKeyStore" where
  "ks_step S ks (Register now pk d a) = fst (register_key now ks pk d a)"
| "ks_step S ks (Register_id now i pk d a) = fst (register_key_id now ks i pk d a)"
| "ks_step S ks (Verify now i m g) = fst (verify_with_key S now ks i m g)"
| "ks_step S ks (Set_enabled i b) = fst (set_enabled ks i b)"
| "ks_step S ks (Remove i) = fst (remove_key ks i)"
| "ks_step S ks (Touch now i) = touch now ks i"
| "ks_step S ks Clear = ks_clear ks"

lemmas ks_op_defs =
  register_key_def register_key_id_def verify_with_key_def set_enabled_def remove_key_def touch_def
  ks_clear_def

lemma ks_step_inv: "ks_inv ks \<Longrightarrow> ks_inv (ks_step S ks op)"
  by (cases op)
    (auto simp: ks_inv_def ks_op_defs alist_simps new_key_def Let_def simp del: map_of_eq_Some_iff
      split: option.splits if_splits)

lemma ks_steps_inv: "ks_inv ks \<Longrightarrow> ks_inv (foldl (ks_step S) ks ops)"
  by (induction ops arbitrary: ks) (simp_all add: ks_step_inv)

lemma ks_inv_new [simp]: "ks_inv ks_new"
  by (simp add: ks_inv_def ks_new_def)

lemma verify_with_key_iff:
  "snd (verify_with_key S now ks i m g) \<longleftrightarrow>
     (\<exists>tk. map_of (ks_keys ks) i = Some tk \<and> tk_enabled tk \<and> verify S m g (tk_public_key tk))"
  by (auto simp: verify_with_key_def Let_def split: option.splits)

lemma verify_with_key_frame:
  "map_of (ks_keys (fst (verify_with_key S now ks i m g))) j =
     (if snd (verify_with_key S now ks i m g) \<and> j = i
      then map_option (\<lambda>tk. tk\<lparr>tk_last_used := now\<rparr>) (map_of (ks_keys ks) i)
      else map_of (ks_keys ks) j)"
  by (auto simp: verify_with_key_def touch_def alist_simps Let_def split: option.splits)

text \<open>The operations that can make number \<open>i\<close> usable.\<close>

fun ks_admits :: "TrustedKeyStore \<Rightarrow> uint32 \<Rightarrow> ks_op \<Rightarrow> bool" where
  "ks_admits ks i (Register now pk d a) = (ks_next_key_id ks = i)"
| "ks_admits ks i (Register_id now j pk d a) = (i = j)"
| "ks_admits ks i (Set_enabled j b) = (i = j \<and> b)"
| "ks_admits ks i op = False"

fun ks_run_without :: "'r sodium \<Rightarrow> uint32 \<Rightarrow> TrustedKeyStore \<Rightarrow> ks_op list \<Rightarrow> bool" where
  "ks_run_without S i ks [] = True"
| "ks_run_without S i ks (op # ops) \<longleftrightarrow> \<not> ks_admits ks i op \<and> ks_run_without S i (ks_step S ks op) ops"

lemma ks_step_not_trusted:
  "\<not> is_trusted ks i \<Longrightarrow> \<not> ks_admits ks i op \<Longrightarrow> \<not> is_trusted (ks_step S ks op) i"
  by (cases op)
    (auto simp: is_trusted_def ks_op_defs alist_simps Let_def split: option.splits if_splits)

lemma ks_run_not_trusted:
  "\<not> is_trusted ks i \<Longrightarrow> ks_run_without S i ks ops \<Longrightarrow> \<not> is_trusted (foldl (ks_step S) ks ops) i"
  by (induction ops arbitrary: ks) (simp_all add: ks_step_not_trusted)

section \<open>What the session relies on\<close>

text \<open>
  The session asks two things of the registry: a positive answer of \<open>vrfy\<close> implies that the number is
  trusted at that moment and the signature valid for its key, and a call of \<open>vrfy\<close> changes no decision
  about any number.
\<close>

locale key_registry =
  fixes vrfy :: "'k \<Rightarrow> uint32 \<Rightarrow> uint8 list \<Rightarrow> Signature \<Rightarrow> 'k \<times> bool"
    and trusted :: "'k \<Rightarrow> uint32 \<Rightarrow> bool" and key_of :: "'k \<Rightarrow> uint32 \<Rightarrow> PublicKey option"
    and valid :: "uint8 list \<Rightarrow> Signature \<Rightarrow> PublicKey \<Rightarrow> bool"
  assumes vrfy_iff: "snd (vrfy k i m g) \<longleftrightarrow> (\<exists>pk. key_of k i = Some pk \<and> valid m g pk)"
    and key_trusted: "(key_of k i \<noteq> None) = trusted k i"
    and vrfy_keeps: "key_of (fst (vrfy k i m g)) j = key_of k j"
begin

lemma vrfy_trusted: "snd (vrfy k i m g) \<Longrightarrow> trusted k i"
  using vrfy_iff [of k i m g] key_trusted [of k i] by auto

lemma vrfy_untrusted: "\<not> trusted k i \<Longrightarrow> \<not> snd (vrfy k i m g)"
  using vrfy_trusted by blast

lemma vrfy_again: "snd (vrfy (fst (vrfy k i m g)) j m' g') = snd (vrfy k j m' g')"
  by (simp add: vrfy_iff vrfy_keeps)

end

interpretation registry: key_registry "verify_with_key S now" is_trusted get_key "verify S" for S now
proof
  show "snd (verify_with_key S now k i m g) = (\<exists>pk. get_key k i = Some pk \<and> verify S m g pk)" for k i m g
    by (auto simp: verify_with_key_iff get_key_def split: option.splits)
  show "(get_key k i \<noteq> None) = is_trusted k i" for k i
    by (auto simp: get_key_def is_trusted_def split: option.splits)
  show "get_key (fst (verify_with_key S now k i m g)) j = get_key k j" for k i m g j
    by (auto simp: get_key_def verify_with_key_frame split: option.splits)
qed

section \<open>Properties\<close>

text \<open>
  A signature is accepted exactly when the number is registered and enabled and libsodium verifies
  the signature under the registered key; verification changes nothing but the time stamp of that key,
  and only when it succeeds.
\<close>

theorem verify_with_key_exact:
  "(snd (verify_with_key S now ks i m g) \<longleftrightarrow>
     (\<exists>tk. get_key_info ks i = Some tk \<and> tk_enabled tk \<and> verify S m g (tk_public_key tk))) \<and>
   get_key_info (fst (verify_with_key S now ks i m g)) j =
     (if snd (verify_with_key S now ks i m g) \<and> j = i
      then map_option (\<lambda>tk. tk\<lparr>tk_last_used := now\<rparr>) (get_key_info ks i) else get_key_info ks j) \<and>
   ks_next_key_id (fst (verify_with_key S now ks i m g)) = ks_next_key_id ks"
  unfolding get_key_info_def verify_with_key_iff
  by (auto simp: verify_with_key_frame verify_with_key_iff)
    (auto simp: verify_with_key_def touch_def Let_def split: option.splits)

text \<open>
  (C20) Revocation is lasting: once a number is disabled, removed or was never registered, no signature
  is accepted for it after any sequence of registry operations in which the number is neither enabled
  nor registered nor handed out by automatic registration.
\<close>

theorem revoked_stays_revoked:
  assumes "\<not> is_trusted ks i" and "ks_run_without S i ks ops"
  shows "\<not> snd (verify_with_key S now (foldl (ks_step S) ks ops) i m g)"
  by (rule registry.vrfy_untrusted [OF ks_run_not_trusted [OF assms]])

definition demo_sodium :: "unit sodium" where
  "demo_sodium =
     \<lparr>crypto_sign_keypair = (\<lambda>_. ([1], [1])),
      crypto_sign_seed_keypair = (\<lambda>s. (s, s)),
      crypto_sign_detached = (\<lambda>m sk. sk @ m),
      crypto_sign_verify_detached = (\<lambda>g m pk. if g = pk @ m then 0 else -1)\<rparr>"

interpretation demo: sodium_correct demo_sodium
  by unfold_locales (auto simp: demo_sodium_def)

text \<open>The same with signatures of the size that libsodium documents.\<close>

definition sized_sodium :: "unit sodium" where
  "sized_sodium =
     \<lparr>crypto_sign_keypair = (\<lambda>_. ([1], [1])), crypto_sign_seed_keypair = (\<lambda>s. (s, s)),
      crypto_sign_detached = (\<lambda>m sk. take 64 (sk @ m @ replicate 64 0)),
      crypto_sign_verify_detached = (\<lambda>g m pk. if g = take 64 (pk @ m @ replicate 64 0) then 0 else -1)\<rparr>"

interpretation sized: sodium_correct sized_sodium
  by unfold_locales (auto simp: sized_sodium_def)

theorem revoked_stays_revoked_witness:
  "\<not> snd (verify_with_key demo_sodium 9
     (foldl (ks_step demo_sodium) (fst (set_enabled (fst (register_key 0 ks_new [1] ''d'' [])) 1 False))
        [Register 5 [2] [] [], Touch 6 1, Set_enabled 2 False]) 1 [7] [1, 7])"
  by (rule revoked_stays_revoked)
    (simp_all add: is_trusted_def ks_op_defs ks_new_def new_key_def Let_def)

text \<open>
  End to end: a device that signs with its generated key pair is accepted by a registry in which its
  public key was registered, until some later operation touches that number.
\<close>

theorem registered_device_verifies:
  assumes "sodium_correct S" and "register_key now ks (public_key (generate_keypair S r)) d a = (ks', i)"
  shows "snd (verify_with_key S t ks' i m (sign S m (secret_key (generate_keypair S r))))"
proof -
  obtain pk sk where "crypto_sign_keypair S r = (pk, sk)" by fastforce
  with assms sodium_correct.random_pair [OF assms(1) this, of m] show ?thesis
    by (auto simp: verify_with_key_iff register_key_def alist_simps new_key_def verify_def sign_def
        generate_keypair_def Let_def)
qed

theorem registered_device_verifies_witness:
  "snd (verify_with_key demo_sodium 4
     (fst (register_key 3 ks_new (public_key (generate_keypair demo_sodium ())) [] [])) 1 [7]
     (sign demo_sodium [7] (secret_key (generate_keypair demo_sodium ()))))"
  by (rule registered_device_verifies [OF demo.sodium_correct_axioms, where now = 3 and ks = ks_new and d = "[]" and a = "[]"])
    (simp add: register_key_def ks_new_def Let_def)

text \<open>
  Automatic registration uses a fresh number and disturbs no other key as long as the counter is
  above every number in use and has not reached its maximum; the counter then stays above.
\<close>

theorem auto_register_fresh:
  assumes "ks_fresh ks" and "ks_next_key_id ks \<noteq> - 1" and "register_key now ks pk d a = (ks', i)"
  shows "get_key_info ks i = None \<and> get_key_info ks' i = Some (new_key now pk i d a) \<and>
    (\<forall>j. j \<noteq> i \<longrightarrow> get_key_info ks' j = get_key_info ks j) \<and> ks_fresh ks'"
proof -
  have i: "i = ks_next_key_id ks" using assms(3) by (simp add: register_key_def Let_def)
  have step: "ks_next_key_id ks < ks_next_key_id ks + 1"
    using assms(2) by (rule word_less_succ)
  show ?thesis
    using assms(1,3) i step
    by (auto simp: get_key_info_def register_key_def ks_fresh_def alist_simps Let_def
        simp del: not_None_eq split: if_splits) (metis less_trans option.distinct(1))
qed

theorem auto_register_fresh_witness:
  "get_key_info (fst (register_key 0 ks_new [1] ''d'' ''t'')) 1 = Some (new_key 0 [1] 1 ''d'' ''t'')"
  using auto_register_fresh [of ks_new 0 "[1]" "''d''" "''t''" "fst (register_key 0 ks_new [1] ''d'' ''t'')" 1]
  by (simp add: ks_fresh_def ks_new_def register_key_def Let_def)

text \<open>
  Where the counter wraps: registering the largest 32-bit number explicitly makes the next automatic
  numbers 0 and then 1, so the second automatic registration silently replaces key 1.
\<close>

theorem auto_register_overwrites_after_wrap:
  assumes "get_key_info ks (- 1) = None" and "get_key_info ks 1 = Some tk"
  shows "\<exists>ks1 ks2 ks3. register_key_id now ks (- 1) pk0 d a = (ks1, True) \<and>
    register_key now ks1 pk1 d a = (ks2, 0) \<and> register_key now ks2 pk2 d a = (ks3, 1) \<and>
    get_key_info ks3 1 = Some (new_key now pk2 1 d a)"
  using assms
  by (simp add: get_key_info_def register_key_id_def register_key_def Let_def alist_simps)

theorem auto_register_overwrites_after_wrap_witness:
  "\<exists>ks1 ks2 ks3. register_key_id 0 (fst (register_key 0 ks_new [1] [] [])) (- 1) [5] [] [] = (ks1, True) \<and>
    register_key 0 ks1 [6] [] [] = (ks2, 0) \<and> register_key 0 ks2 [7] [] [] = (ks3, 1) \<and>
    get_key_info ks3 1 = Some (new_key 0 [7] 1 [] [])"
  by (rule auto_register_overwrites_after_wrap)
    (simp_all add: get_key_info_def register_key_def ks_new_def Let_def)

end
