(* ===== verification/Ack_Set.thy ===== *)
theory Ack_Set
  imports Prelude
begin

text \<open>
  \<^verbatim>\<open>BoundedAckSet\<close> of \<^verbatim>\<open>src/broker.hpp\<close>: the acknowledgements of one client, a deque in insertion
  order and a hash set over the same elements, capped at \<^verbatim>\<open>MAX\<close> entries with first-in first-out
  eviction. The lemmas show that the two containers always agree, that the cap holds, that the pair
  refines a bounded queue of distinct numbers, and what the set answers after any history of
  insertions. The locale states what the broker relies on.
\<close>

definition ACK_MAX :: nat where "ACK_MAX = 10000"

record BoundedAckSet =
  ack_order :: "uint64 list"
  ack_lookup :: "uint64 set"
  ack_top :: uint64

definition ack_new :: BoundedAckSet where
  "ack_new = \<lparr>ack_order = [], ack_lookup = {}, ack_top = 0\<rparr>"

definition ack_insert :: "BoundedAckSet \<Rightarrow> uint64 \<Rightarrow> BoundedAckSet" where
  "ack_insert a seq =
     (if seq \<in> ack_lookup a then a
      else
        let a1 = (if ACK_MAX \<le> length (ack_order a)
                  then a\<lparr>ack_lookup := ack_lookup a - {hd (ack_order a)}, ack_order := tl (ack_order a)\<rparr>
                  else a);
            a2 = a1\<lparr>ack_order := ack_order a1 @ [seq]\<rparr>;
            a3 = a2\<lparr>ack_lookup := insert seq (ack_lookup a2)\<rparr>
        in if ack_top a3 < seq then a3\<lparr>ack_top := seq\<rparr> else a3)"

definition ack_contains :: "BoundedAckSet \<Rightarrow> uint64 \<Rightarrow> bool" where
  "ack_contains a seq \<longleftrightarrow> seq \<in> ack_lookup a"

definition ack_max_seq :: "BoundedAckSet \<Rightarrow> uint64" where
  "ack_max_seq a = ack_top a"

definition ack_empty :: "BoundedAckSet \<Rightarrow> bool" where
  "ack_empty a \<longleftrightarrow> ack_lookup a = {}"

section \<open>Invariant and refinement\<close>

text \<open>The deque and the hash set hold the same distinct elements, within the cap and below the maximum.\<close>

definition ack_inv :: "BoundedAckSet \<Rightarrow> bool" where
  "ack_inv a \<longleftrightarrow>
     ack_lookup a = set (ack_order a) \<and> distinct (ack_order a) \<and> length (ack_order a) \<le> ACK_MAX \<and>
     (\<forall>s \<in> set (ack_order a). s \<le> ack_top a)"

text \<open>The abstract bounded queue: a new element enters at the back and the oldest leaves when full.\<close>

definition fifo_insert :: "uint64 list \<Rightarrow> uint64 \<Rightarrow> uint64 list" where
  "fifo_insert q s = (if s \<in> set q then q else drop (Suc (length q) - ACK_MAX) (q @ [s]))"

lemma ack_inv_new [simp]: "ack_inv ack_new"
  by (simp add: ack_inv_def ack_new_def)

lemma order_ack_insert:
  assumes "ack_inv a"
  shows "ack_order (ack_insert a s) = fifo_insert (ack_order a) s"
proof (cases "ACK_MAX \<le> length (ack_order a)")
  case True
  with assms have "length (ack_order a) = ACK_MAX" "ack_order a \<noteq> []"
    by (auto simp: ack_inv_def ACK_MAX_def)
  then have "drop (Suc (length (ack_order a)) - ACK_MAX) (ack_order a @ [s]) = tl (ack_order a) @ [s]"
    by (cases "ack_order a") auto
  with True assms show ?thesis
    by (simp add: ack_insert_def fifo_insert_def ack_inv_def Let_def)
next
  case False
  with assms show ?thesis
    by (simp add: ack_insert_def fifo_insert_def ack_inv_def Let_def)
qed

lemma max_seq_ack_insert:
  "ack_inv a \<Longrightarrow> ack_top (ack_insert a s) = max (ack_top a) s"
  by (auto simp: ack_insert_def ack_inv_def Let_def max_def)

lemma lookup_ack_insert:
  assumes "ack_inv a"
  shows "ack_lookup (ack_insert a s) = set (fifo_insert (ack_order a) s)"
proof (cases "ACK_MAX \<le> length (ack_order a)")
  case True
  with assms obtain x q where q: "ack_order a = x # q" "length (ack_order a) = ACK_MAX"
    by (cases "ack_order a") (auto simp: ack_inv_def ACK_MAX_def)
  with assms True show ?thesis
    by (auto simp: ack_insert_def fifo_insert_def ack_inv_def Let_def)
next
  case False
  with assms show ?thesis
    by (simp add: ack_insert_def fifo_insert_def ack_inv_def Let_def)
qed

lemma fifo_insert_distinct: "distinct q \<Longrightarrow> distinct (fifo_insert q s)"
  unfolding fifo_insert_def by (simp add: distinct_drop del: drop_append)

lemma fifo_insert_length: "length q \<le> ACK_MAX \<Longrightarrow> length (fifo_insert q s) \<le> ACK_MAX"
  unfolding fifo_insert_def by (auto simp del: drop_append)

lemma fifo_insert_subset: "set (fifo_insert q s) \<subseteq> insert s (set q)"
  using set_drop_subset [of "Suc (length q) - ACK_MAX" "q @ [s]"] by (auto simp: fifo_insert_def)

lemma fifo_insert_self [simp]: "length q \<le> ACK_MAX \<Longrightarrow> s \<in> set (fifo_insert q s)"
  by (simp add: fifo_insert_def ACK_MAX_def)

lemma ack_inv_insert [simp]:
  assumes "ack_inv a"
  shows "ack_inv (ack_insert a s)"
proof -
  have "\<forall>x \<in> set (fifo_insert (ack_order a) s). x \<le> max (ack_top a) s"
    using assms fifo_insert_subset [of "ack_order a" s] by (auto simp: ack_inv_def le_max_iff_disj)
  with assms show ?thesis
    unfolding ack_inv_def [of "ack_insert a s"]
    by (simp add: order_ack_insert lookup_ack_insert max_seq_ack_insert)
      (auto simp: ack_inv_def fifo_insert_distinct fifo_insert_length)
qed

section \<open>What the broker relies on\<close>

locale ack_tracker =
  fixes inv :: "'a \<Rightarrow> bool" and new :: 'a and ins :: "'a \<Rightarrow> uint64 \<Rightarrow> 'a"
    and has :: "'a \<Rightarrow> uint64 \<Rightarrow> bool" and top :: "'a \<Rightarrow> uint64"
  assumes inv_new: "inv new"
    and inv_ins: "inv a \<Longrightarrow> inv (ins a s)"
    and has_new: "\<not> has new s"
    and has_ins: "inv a \<Longrightarrow> has (ins a s) s"
    and no_phantom: "inv a \<Longrightarrow> has (ins a s) x \<Longrightarrow> x = s \<or> has a x"
    and top_new: "top new = 0"
    and top_ins: "inv a \<Longrightarrow> top (ins a s) = max (top a) s"
    and has_le_top: "inv a \<Longrightarrow> has a s \<Longrightarrow> s \<le> top a"
begin

lemma inv_foldl: "inv a \<Longrightarrow> inv (foldl ins a ss)"
  by (induction ss arbitrary: a) (simp_all add: inv_ins)

lemma has_foldl: "inv a \<Longrightarrow> has (foldl ins a ss) x \<Longrightarrow> x \<in> set ss \<or> has a x"
proof (induction ss arbitrary: a)
  case (Cons s ss)
  then have "x \<in> set ss \<or> has (ins a s) x" by (simp add: inv_ins)
  then show ?case using no_phantom [of a s x] Cons.prems by auto
qed simp

lemma top_foldl: "inv a \<Longrightarrow> top (foldl ins a ss) = Max (insert (top a) (set ss))"
proof (induction ss arbitrary: a)
  case (Cons s ss)
  then have "top (foldl ins a (s # ss)) = Max (insert (max (top a) s) (set ss))"
    by (simp add: inv_ins top_ins)
  also have "\<dots> = Max (insert (top a) (set (s # ss)))"
    by (cases "set ss = {}") (simp_all add: max.assoc Max_insert2 hom_Max_commute)
  finally show ?case .
qed simp

lemma no_phantom_history: "has (foldl ins new ss) x \<Longrightarrow> x \<in> set ss"
  using has_foldl [OF inv_new] has_new by blast

lemma last_acked: "inv a \<Longrightarrow> has (foldl ins a (ss @ [s])) s"
  by (simp add: inv_foldl has_ins)

end

interpretation bounded: ack_tracker ack_inv ack_new ack_insert ack_contains ack_max_seq
proof
  fix a s
  assume inv: "ack_inv a"
  then show "ack_contains (ack_insert a s) s"
    by (simp add: ack_contains_def lookup_ack_insert) (simp add: ack_inv_def)
  show "ack_max_seq (ack_insert a s) = max (ack_max_seq a) s"
    using inv by (simp add: ack_max_seq_def max_seq_ack_insert)
  show "x = s \<or> ack_contains a x" if "ack_contains (ack_insert a s) x" for x
    using that inv fifo_insert_subset [of "ack_order a" s]
    by (auto simp: ack_contains_def lookup_ack_insert) (auto simp: ack_inv_def)
  show "s \<le> ack_max_seq a" if "ack_contains a s"
    using that inv by (simp add: ack_contains_def ack_max_seq_def ack_inv_def)
qed (simp_all, simp_all add: ack_contains_def ack_new_def ack_max_seq_def)

section \<open>Histories of acknowledgements\<close>

lemma fifo_history_order:
  "ack_inv a \<Longrightarrow> ack_order (foldl ack_insert a ss) = foldl fifo_insert (ack_order a) ss"
  by (induction ss arbitrary: a) (simp_all add: order_ack_insert)

lemma fifo_history_distinct:
  "distinct ss \<Longrightarrow> foldl fifo_insert [] ss = drop (length ss - ACK_MAX) ss"
proof (induction ss rule: rev_induct)
  case (snoc s ss)
  have "s \<notin> set (drop (length ss - ACK_MAX) ss)"
    using snoc.prems set_drop_subset [of "length ss - ACK_MAX" ss] by auto
  moreover have "drop (Suc (length (drop (length ss - ACK_MAX) ss)) - ACK_MAX)
      (drop (length ss - ACK_MAX) ss @ [s]) = drop (Suc (length ss) - ACK_MAX) (ss @ [s])"
  proof (cases "length ss < ACK_MAX")
    case False
    then have "Suc (length ss) - ACK_MAX = Suc (length ss - ACK_MAX)" by simp
    with False show ?thesis by (simp add: ACK_MAX_def)
  qed simp
  ultimately show ?case
    using snoc by (simp add: fifo_insert_def)
qed simp

text \<open>
  (C21) Refinement: after any sequence of insertions the deque is the abstract bounded queue, the hash
  set answers membership exactly as that queue does, at most \<^const>\<open>ACK_MAX\<close> entries are held, and the
  maximum is the largest number ever inserted, evicted or not.
\<close>

theorem ack_set_refines_bounded_queue:
  "ack_order (foldl ack_insert ack_new ss) = foldl fifo_insert [] ss \<and>
   (\<forall>s. ack_contains (foldl ack_insert ack_new ss) s = (s \<in> set (foldl fifo_insert [] ss))) \<and>
   length (ack_order (foldl ack_insert ack_new ss)) \<le> ACK_MAX \<and>
   ack_max_seq (foldl ack_insert ack_new ss) = Max (insert 0 (set ss))"
proof -
  have inv: "ack_inv (foldl ack_insert ack_new ss)"
    by (rule bounded.inv_foldl) simp
  have order: "ack_order (foldl ack_insert ack_new ss) = foldl fifo_insert [] ss"
    using fifo_history_order [OF ack_inv_new, of ss] by (simp add: ack_new_def)
  show ?thesis
    using inv order bounded.top_foldl [OF ack_inv_new, of ss] bounded.top_new
    by (auto simp: ack_inv_def ack_contains_def)
qed

text \<open>
  A client that acknowledges each sequence number once is remembered exactly for its most recent
  \<^const>\<open>ACK_MAX\<close> acknowledgements: those and no others are reported as acknowledged.
\<close>

theorem ack_set_keeps_latest:
  assumes "distinct ss"
  shows "ack_contains (foldl ack_insert ack_new ss) s \<longleftrightarrow> s \<in> set (drop (length ss - ACK_MAX) ss)"
  using bounded.inv_foldl [OF ack_inv_new, of ss] fifo_history_order [OF ack_inv_new, of ss]
    fifo_history_distinct [OF assms]
  by (simp add: ack_inv_def ack_contains_def ack_new_def)

theorem ack_set_keeps_latest_witness:
  "ack_contains (foldl ack_insert ack_new [3, 1, 2]) 1 \<longleftrightarrow> 1 \<in> set (drop (length [3, 1, 2 :: uint64] - ACK_MAX) [3, 1, 2 :: uint64])"
  by (rule ack_set_keeps_latest) simp

end
