(* ===== verification/Lmdb.thy ===== *)
theory Lmdb
  imports Prelude "HOL-Library.RBT"
begin

text \<open>
  The part of the LMDB library that \<^verbatim>\<open>src/storage/LmdbStorage.cpp\<close> calls, as a parameter. LMDB is
  third-party code: the storage model takes its operations as the fields of a record, and what the
  code relies on are the documented laws of the API, stated as two locales. \<open>lmdb_engine\<close> allows every
  documented failure (a transaction that cannot begin, a full map, a failing commit);
  \<open>lmdb_healthy\<close> adds that requests within the documented key-size limits succeed. A red-black tree
  with transactions as snapshots meets both, so the laws are consistent.
\<close>

section \<open>Operations\<close>

text \<open>
  \<open>'e\<close> is the environment (the data file), \<open>'t\<close> a transaction. \<open>None\<close> is a non-zero return code.
  \<^verbatim>\<open>mdb_cursor_get\<close> is used in one pattern only, \<^verbatim>\<open>MDB_SET_RANGE\<close> followed by \<^verbatim>\<open>MDB_NEXT\<close> until it
  fails: \<open>mdb_cursor_range\<close> is the sequence of entries that pattern yields.
  \<open>mdb_txn_commit\<close> maps the environment and the transaction to the environment afterwards.
\<close>

record ('e, 't) lmdb =
  mdb_txn_begin :: "'e \<Rightarrow> bool \<Rightarrow> 't option"
  mdb_get :: "'t \<Rightarrow> bytes \<Rightarrow> bytes option"
  mdb_put :: "'t \<Rightarrow> bytes \<Rightarrow> bytes \<Rightarrow> 't option"
  mdb_del :: "'t \<Rightarrow> bytes \<Rightarrow> 't option"
  mdb_cursor_open :: "'t \<Rightarrow> bool"
  mdb_cursor_range :: "'t \<Rightarrow> bytes \<Rightarrow> (bytes \<times> bytes) list"
  mdb_txn_commit :: "'e \<Rightarrow> 't \<Rightarrow> 'e"

text \<open>The default \<^verbatim>\<open>MDB_MAXKEYSIZE\<close>; keys must not be empty either.\<close>

definition MDB_MAXKEYSIZE :: nat where "MDB_MAXKEYSIZE = 511"

definition key_ok :: "bytes \<Rightarrow> bool" where
  "key_ok k \<longleftrightarrow> k \<noteq> [] \<and> length k \<le> MDB_MAXKEYSIZE"

section \<open>Documented laws\<close>

locale lmdb_engine =
  fixes L :: "('e, 't) lmdb" and eview :: "'e \<Rightarrow> bytes \<rightharpoonup> bytes" and tview :: "'t \<Rightarrow> bytes \<rightharpoonup> bytes"
  assumes begin_view: "mdb_txn_begin L e ro = Some t \<Longrightarrow> tview t = eview e"
    and get_view: "mdb_get L t k = tview t k"
    and put_view: "mdb_put L t k v = Some t' \<Longrightarrow> tview t' = (tview t)(k \<mapsto> v)"
    and del_view: "mdb_del L t k = Some t' \<Longrightarrow> tview t' = (tview t)(k := None)"
    and range_sorted: "om_sorted (mdb_cursor_range L t k)"
    and range_sound: "(x, v) \<in> set (mdb_cursor_range L t k) \<Longrightarrow> k \<le> x \<and> tview t x = Some v"
    and commit_view: "eview (mdb_txn_commit L e t) = tview t \<or> eview (mdb_txn_commit L e t) = eview e"

locale lmdb_healthy = lmdb_engine +
  assumes begin_ok: "mdb_txn_begin L e ro \<noteq> None"
    and put_ok: "key_ok k \<Longrightarrow> mdb_put L t k v \<noteq> None"
    and del_ok: "tview t k \<noteq> None \<Longrightarrow> mdb_del L t k \<noteq> None"
    and cursor_ok: "mdb_cursor_open L t"
    and range_complete: "key_ok k \<Longrightarrow> k \<le> x \<Longrightarrow> tview t x = Some v \<Longrightarrow> (x, v) \<in> set (mdb_cursor_range L t k)"
    and commit_ok: "eview (mdb_txn_commit L e t) = tview t"
begin

lemma begin_some: obtains t where "mdb_txn_begin L e ro = Some t" and "tview t = eview e"
  using begin_ok [of e ro] begin_view by blast

lemma put_some:
  assumes "key_ok k" obtains t' where "mdb_put L t k v = Some t'" and "tview t' = (tview t)(k \<mapsto> v)"
  using put_ok [OF assms, of t v] put_view by blast

lemma range_set:
  "key_ok k \<Longrightarrow> set (mdb_cursor_range L t k) = {(x, v). k \<le> x \<and> tview t x = Some v}"
  using range_sound range_complete by fast

end

section \<open>A reference engine\<close>

text \<open>
  A red-black tree as the key space; a transaction is a copy of the tree and commit installs it.
  \<open>full\<close> says when the map has no room for another entry (\<^verbatim>\<open>MDB_MAP_FULL\<close>).
\<close>

type_synonym tree = "(bytes, bytes) RBT.rbt"

definition rbt_lmdb :: "(tree \<Rightarrow> bool) \<Rightarrow> (tree, tree) lmdb" where
  "rbt_lmdb full =
     \<lparr>mdb_txn_begin = (\<lambda>e ro. Some e),
      mdb_get = (\<lambda>t k. RBT.lookup t k),
      mdb_put = (\<lambda>t k v. if \<not> key_ok k \<or> full t then None else Some (RBT.insert k v t)),
      mdb_del = (\<lambda>t k. if RBT.lookup t k = None then None else Some (RBT.delete k t)),
      mdb_cursor_open = (\<lambda>t. True),
      mdb_cursor_range = (\<lambda>t k. om_from k (RBT.entries t)),
      mdb_txn_commit = (\<lambda>e t. t)\<rparr>"

lemma entries_lookup: "(x, v) \<in> set (RBT.entries t) \<longleftrightarrow> RBT.lookup t x = Some v"
  by (metis RBT.distinct_entries RBT.map_of_entries map_of_eq_Some_iff)

lemma entries_om_sorted: "om_sorted (RBT.entries t)"
  using RBT.sorted_entries [of t] RBT.distinct_entries [of t]
  by (simp add: strict_sorted_iff)

lemma range_entries:
  "(x, v) \<in> set (om_from k (RBT.entries t)) \<longleftrightarrow> k \<le> x \<and> RBT.lookup t x = Some v"
  by (auto simp: om_from_eq_filter [OF entries_om_sorted] entries_lookup)

interpretation rbt_engine: lmdb_engine "rbt_lmdb full" RBT.lookup RBT.lookup for full
  by unfold_locales
    (auto simp: rbt_lmdb_def range_entries entries_om_sorted split: if_splits)

interpretation rbt_healthy: lmdb_healthy "rbt_lmdb (\<lambda>_. False)" RBT.lookup RBT.lookup
  by unfold_locales (auto simp: rbt_lmdb_def range_entries)

lemma rbt_lmdb_healthy: "lmdb_healthy (rbt_lmdb (\<lambda>_. False)) RBT.lookup RBT.lookup"
  by (rule rbt_healthy.lmdb_healthy_axioms)

end
