(* ===== verification/Lmdb_Storage.thy ===== *)
theory Lmdb_Storage
  imports Lmdb
begin

text \<open>
  \<^verbatim>\<open>metricmq::storage::LmdbStorage\<close> (\<^verbatim>\<open>src/storage/LmdbStorage.cpp\<close>): the persistent messages and
  acknowledgements of the broker in one flat ordered key space. Every operation is a function of the
  LMDB engine \<open>L\<close> and the environment; a failing LMDB call takes the source's early return. The lemmas
  give the effect of every operation on the key space for any engine that meets the documented laws,
  the invariant of the key space, and what the readers return.
\<close>

section \<open>Keys and values\<close>

text \<open>
  \<^verbatim>\<open>std::memcpy\<close> of a \<^verbatim>\<open>uint64_t\<close> from and to the value of the \<^verbatim>\<open>last_seq\<close> record: the memory
  image of the integer, least significant byte first.
\<close>

definition uint64_image :: "uint64 \<Rightarrow> bytes" where
  "uint64_image w = map (\<lambda>i. char_of_byte (ucast (drop_bit (8 * i) w AND 0xFF))) [0..<8]"

definition image_uint64 :: "bytes \<Rightarrow> uint64" where
  "image_uint64 bs = foldr (\<lambda>c acc. ucast (byte_of_char c) OR push_bit 8 acc) bs 0"

definition last_key :: bytes where "last_key = ''last_seq''"

definition msg_key :: "uint64 \<Rightarrow> bytes" where
  "msg_key seq = ''msg:'' @ to_string (unat seq)"

definition ack_prefix :: "bytes \<Rightarrow> bytes" where
  "ack_prefix client_id = ''ack:'' @ client_id @ '':''"

definition ack_key :: "bytes \<Rightarrow> uint64 \<Rightarrow> bytes" where
  "ack_key client_id sequence = ack_prefix client_id @ to_string (unat sequence)"

section \<open>Operations\<close>

text \<open>
  The constructor: the return codes of \<^verbatim>\<open>mdb_env_create\<close>, \<^verbatim>\<open>mdb_env_open\<close>, \<^verbatim>\<open>mdb_txn_begin\<close>,
  \<^verbatim>\<open>mdb_dbi_open\<close> and \<^verbatim>\<open>mdb_txn_commit\<close> decide which exception it throws.
\<close>

definition open_storage :: "(int \<Rightarrow> string) \<Rightarrow> int \<Rightarrow> int \<Rightarrow> int \<Rightarrow> int \<Rightarrow> int \<Rightarrow> exn + unit" where
  "open_storage mdb_strerror rc_create rc_open rc_begin rc_dbi rc_commit =
     (if rc_create \<noteq> 0 then Inl (Runtime_error ''Failed to create LMDB environment'')
      else if rc_open \<noteq> 0 then Inl (Runtime_error ''Failed to open LMDB environment'')
      else if rc_begin \<noteq> 0 then Inl (Runtime_error ''Failed to begin transaction'')
      else if rc_dbi \<noteq> 0 then Inl (Runtime_error ''Failed to open database'')
      else if rc_commit \<noteq> 0
        then Inl (Runtime_error (''Failed to commit init transaction: '' @ mdb_strerror rc_commit))
      else Inr ())"

text \<open>
  \<^verbatim>\<open>save\<close> takes the next number from the store and not from its \<^verbatim>\<open>seq\<close> argument. The literal
  \<^verbatim>\<open>"\x00"\<close> converts to the empty string.
\<close>

definition next_seq :: "bytes option \<Rightarrow> uint64" where
  "next_seq r =
     (case r of
        None \<Rightarrow> 1
      | Some val \<Rightarrow> if length val = 8 then image_uint64 val + 1 else 1)"

definition save :: "('e, 't) lmdb \<Rightarrow> 'e \<Rightarrow> uint64 \<Rightarrow> bytes \<Rightarrow> bytes \<Rightarrow> 'e" where
  "save L env seq topic payload =
     (case mdb_txn_begin L env False of
        None \<Rightarrow> env
      | Some txn \<Rightarrow>
          let next = next_seq (mdb_get L txn last_key);
              msg_data = topic @ c_str_literal [CHR 0x00] @ payload
          in case mdb_put L txn (msg_key next) msg_data of
               None \<Rightarrow> env
             | Some txn1 \<Rightarrow>
                 (case mdb_put L txn1 last_key (uint64_image next) of
                    None \<Rightarrow> env
                  | Some txn2 \<Rightarrow> mdb_txn_commit L env txn2))"

text \<open>
  The cursor loop of \<^verbatim>\<open>load_range\<close>: other keys are skipped, the first number above \<open>to_seq\<close> ends the
  scan, and an exception of \<^verbatim>\<open>std::stoull\<close> leaves the function.
\<close>

fun range_scan :: "uint64 \<Rightarrow> (bytes \<times> bytes) list \<Rightarrow> exn + (uint64 \<times> bytes \<times> bytes) list" where
  "range_scan to_seq [] = Inr []"
| "range_scan to_seq ((key, val) # es) =
     (if take 4 key \<noteq> ''msg:'' then range_scan to_seq es
      else thenE (thenE (substr_from key 4) stoull) (\<lambda>seq_id.
        if to_seq < seq_id then Inr []
        else thenE (range_scan to_seq es) (\<lambda>rest.
          case str_find CHR 0x00 val of
            Some sep \<Rightarrow> Inr ((seq_id, take sep val, drop (sep + 1) val) # rest)
          | None \<Rightarrow> Inr rest)))"

definition load_range ::
    "('e, 't) lmdb \<Rightarrow> 'e \<Rightarrow> uint64 \<Rightarrow> uint64 \<Rightarrow> exn + (uint64 \<times> bytes \<times> bytes) list" where
  "load_range L env from to_seq =
     (case mdb_txn_begin L env True of
        None \<Rightarrow> Inr []
      | Some txn \<Rightarrow>
          if \<not> mdb_cursor_open L txn then Inr []
          else range_scan to_seq (mdb_cursor_range L txn (msg_key from)))"

definition get_last_seq :: "('e, 't) lmdb \<Rightarrow> 'e \<Rightarrow> uint64" where
  "get_last_seq L env =
     (case mdb_txn_begin L env True of
        None \<Rightarrow> 0
      | Some txn \<Rightarrow>
          (case mdb_get L txn last_key of
             Some val \<Rightarrow> if length val = 8 then image_uint64 val else 0
           | None \<Rightarrow> 0))"

definition save_ack :: "('e, 't) lmdb \<Rightarrow> 'e \<Rightarrow> bytes \<Rightarrow> uint64 \<Rightarrow> 'e" where
  "save_ack L env client_id sequence =
     (case mdb_txn_begin L env False of
        None \<Rightarrow> env
      | Some txn \<Rightarrow>
          (case mdb_put L txn (ack_key client_id sequence) ''1'' of
             None \<Rightarrow> env
           | Some txn1 \<Rightarrow> mdb_txn_commit L env txn1))"

fun acks_scan :: "bytes \<Rightarrow> (bytes \<times> bytes) list \<Rightarrow> uint64 set" where
  "acks_scan prefix [] = {}"
| "acks_scan prefix ((key, val) # es) =
     (if take (length prefix) key \<noteq> prefix then {}
      else case thenE (substr_from key (length prefix)) stoull of
             Inr seq \<Rightarrow> insert seq (acks_scan prefix es)
           | Inl _ \<Rightarrow> acks_scan prefix es)"

definition load_acks :: "('e, 't) lmdb \<Rightarrow> 'e \<Rightarrow> bytes \<Rightarrow> uint64 set" where
  "load_acks L env client_id =
     (case mdb_txn_begin L env True of
        None \<Rightarrow> {}
      | Some txn \<Rightarrow>
          if \<not> mdb_cursor_open L txn then {}
          else acks_scan (ack_prefix client_id) (mdb_cursor_range L txn (ack_prefix client_id)))"

text \<open>
  \<^verbatim>\<open>compact\<close> and \<^verbatim>\<open>purge_old_acks\<close>: collect the keys to delete with a cursor, then delete them in the
  same transaction. \<open>delete_all\<close> is their common deletion loop, which ignores the return codes.
\<close>

fun compact_scan :: "uint64 \<Rightarrow> (bytes \<times> bytes) list \<Rightarrow> bytes list" where
  "compact_scan max_seq [] = []"
| "compact_scan max_seq ((k, val) # es) =
     (if length k < 4 \<or> take 4 k \<noteq> ''msg:'' then []
      else case thenE (substr_from k 4) stoull of
             Inr seq \<Rightarrow>
               if seq \<le> max_seq then k # compact_scan max_seq es else compact_scan max_seq es
           | Inl _ \<Rightarrow> compact_scan max_seq es)"

fun purge_scan :: "uint64 \<Rightarrow> (bytes \<times> bytes) list \<Rightarrow> bytes list" where
  "purge_scan max_seq [] = []"
| "purge_scan max_seq ((k, val) # es) =
     (if length k < 4 \<or> take 4 k \<noteq> ''ack:'' then []
      else case str_rfind CHR '':'' k of
             None \<Rightarrow> purge_scan max_seq es
           | Some last_colon \<Rightarrow>
               if 3 < last_colon then
                 (case thenE (substr_from k (last_colon + 1)) stoull of
                    Inr seq \<Rightarrow>
                      if seq \<le> max_seq then k # purge_scan max_seq es else purge_scan max_seq es
                  | Inl _ \<Rightarrow> purge_scan max_seq es)
               else purge_scan max_seq es)"

definition delete_all :: "('e, 't) lmdb \<Rightarrow> 't \<Rightarrow> bytes list \<Rightarrow> 't" where
  "delete_all L txn ks = foldl (\<lambda>t k. case mdb_del L t k of Some t' \<Rightarrow> t' | None \<Rightarrow> t) txn ks"

definition compact :: "('e, 't) lmdb \<Rightarrow> 'e \<Rightarrow> uint64 \<Rightarrow> 'e" where
  "compact L env max_seq_to_delete =
     (if max_seq_to_delete = 0 then env
      else case mdb_txn_begin L env False of
             None \<Rightarrow> env
           | Some txn \<Rightarrow>
               if \<not> mdb_cursor_open L txn then env
               else mdb_txn_commit L env
                 (delete_all L txn (compact_scan max_seq_to_delete (mdb_cursor_range L txn ''msg:''))))"

definition purge_old_acks :: "('e, 't) lmdb \<Rightarrow> 'e \<Rightarrow> uint64 \<Rightarrow> 'e" where
  "purge_old_acks L env max_seq_to_delete =
     (if max_seq_to_delete = 0 then env
      else case mdb_txn_begin L env False of
             None \<Rightarrow> env
           | Some txn \<Rightarrow>
               if \<not> mdb_cursor_open L txn then env
               else mdb_txn_commit L env
                 (delete_all L txn (purge_scan max_seq_to_delete (mdb_cursor_range L txn ''ack:''))))"

section \<open>Keys\<close>

lemma length_uint64_image [simp]: "length (uint64_image w) = 8"
  by (simp add: uint64_image_def)

lemma upt_0_8: "[0..<8] = [0, 1, 2, 3, 4, 5, 6, 7 :: nat]"
  by (simp add: upt_rec)

lemma image_uint64_image [simp]: "image_uint64 (uint64_image w) = w"
proof (rule bit_word_eqI)
  fix n assume "n < LENGTH(64)"
  then consider "n < 8" | "8 \<le> n \<and> n < 16" | "16 \<le> n \<and> n < 24" | "24 \<le> n \<and> n < 32"
    | "32 \<le> n \<and> n < 40" | "40 \<le> n \<and> n < 48" | "48 \<le> n \<and> n < 56" | "56 \<le> n \<and> n < 64"
    by fastforce
  then show "bit (image_uint64 (uint64_image w)) n = bit w n"
    unfolding image_uint64_def uint64_image_def upt_0_8 byte_mask
    by cases (simp_all add: bit_or_iff bit_push_bit_iff bit_unsigned_iff bit_and_iff bit_drop_bit_eq
        bit_mask_iff less_diff_conv2 le_diff_conv2 del: unsigned_and_eq push_bit_or unsigned_or_eq)
qed

lemma msg_key_inject [simp]: "msg_key a = msg_key b \<longleftrightarrow> a = b"
  by (simp add: msg_key_def word_unat_eq_iff)

lemma colon_split_unique:
  fixes x :: char
  assumes "a @ [x] @ b = c @ [x] @ d" "x \<notin> set b" "x \<notin> set d"
  shows "a = c \<and> b = d"
proof -
  have "str_rfind x (a @ x # b) = str_rfind x (c @ x # d)" using assms(1) by simp
  then have "length a = length c" using assms(2,3) by (simp add: str_rfind_mid)
  with assms(1) show ?thesis by simp
qed

lemma ack_key_inject [simp]: "ack_key c s = ack_key d t \<longleftrightarrow> c = d \<and> s = t"
  using colon_split_unique [of c "CHR '':''" "to_string (unat s)" d "to_string (unat t)"]
  by (auto simp: ack_key_def ack_prefix_def word_unat_eq_iff)

lemma key_families_disjoint [simp]:
  "msg_key s \<noteq> last_key" "last_key \<noteq> msg_key s" "ack_key c s \<noteq> last_key" "last_key \<noteq> ack_key c s"
  "msg_key s \<noteq> ack_key c t" "ack_key c t \<noteq> msg_key s"
  by (simp_all add: msg_key_def last_key_def ack_key_def ack_prefix_def)

lemma to_string_len_le: "n < 10 ^ Suc k \<Longrightarrow> length (to_string n) \<le> Suc k"
proof (induction k arbitrary: n)
  case (Suc k)
  then show ?case
    by (cases "n < 10") (auto simp: to_string.simps [of n])
qed (simp add: to_string.simps)

lemma length_to_string_unat: "length (to_string (unat (w :: uint64))) \<le> 20"
proof -
  have "unat w < 2 ^ 64" using unsigned_less [of w, where 'a = nat] by simp
  also have "\<dots> \<le> 10 ^ Suc 19" by simp
  finally show ?thesis using to_string_len_le [of "unat w" 19] by simp
qed

lemma key_ok_fixed [simp]: "key_ok (msg_key s)" "key_ok last_key" "key_ok ''msg:''" "key_ok ''ack:''"
  using length_to_string_unat [of s]
  by (simp_all add: key_ok_def MDB_MAXKEYSIZE_def msg_key_def last_key_def)

text \<open>Client ids up to this length always make valid keys.\<close>

lemma key_ok_ack: "length c \<le> 486 \<Longrightarrow> key_ok (ack_key c s) \<and> key_ok (ack_prefix c)"
  using length_to_string_unat [of s]
  by (simp add: key_ok_def MDB_MAXKEYSIZE_def ack_key_def ack_prefix_def)

text \<open>In byte order the keys that start with \<open>p\<close> are contiguous and begin at \<open>p\<close>.\<close>

lemma prefix_le: "p \<le> (p @ t :: bytes)"
  by (induction p) simp_all

lemma prefix_convex: "p \<le> x \<Longrightarrow> x \<le> (p @ t :: bytes) \<Longrightarrow> \<exists>u. x = p @ u"
proof (induction p arbitrary: x)
  case (Cons c p)
  then obtain d y where "x = d # y" by (cases x) auto
  with Cons show ?case by auto
qed simp

lemma takeWhile_prefix_sorted:
  assumes "om_sorted es" and "\<forall>e \<in> set es. p \<le> fst e"
  shows "takeWhile (\<lambda>e. starts_with (fst e) p) es = filter (\<lambda>e. starts_with (fst e) p) es"
  using assms
proof (induction es)
  case (Cons e es)
  show ?case
  proof (cases "starts_with (fst e) p")
    case False
    have "\<not> starts_with (fst x) p" if "x \<in> set es" for x
    proof
      assume "starts_with (fst x) p"
      then obtain t where "fst x = p @ t" by (auto simp: starts_with_iff)
      moreover have "fst e \<le> fst x" "p \<le> fst e" using Cons.prems that by auto
      ultimately show False using prefix_convex False by (auto simp: starts_with_iff)
    qed
    with False show ?thesis by (simp add: filter_empty_conv)
  qed (use Cons in simp)
qed simp


section \<open>What the cursor loops collect\<close>

text \<open>The keys that \<^verbatim>\<open>compact\<close> and \<^verbatim>\<open>purge_old_acks\<close> select.\<close>

definition msg_upto :: "uint64 \<Rightarrow> bytes \<Rightarrow> bool" where
  "msg_upto m k \<longleftrightarrow> starts_with k ''msg:'' \<and> (case stoull (drop 4 k) of Inr s \<Rightarrow> s \<le> m | Inl _ \<Rightarrow> False)"

definition ack_upto :: "uint64 \<Rightarrow> bytes \<Rightarrow> bool" where
  "ack_upto m k \<longleftrightarrow> starts_with k ''ack:'' \<and>
     (case str_rfind CHR '':'' k of
        Some i \<Rightarrow> 3 < i \<and> (case stoull (drop (i + 1) k) of Inr s \<Rightarrow> s \<le> m | Inl _ \<Rightarrow> False)
      | None \<Rightarrow> False)"

lemma str_rfind_less: "str_rfind c s = Some i \<Longrightarrow> i < length s"
  by (induction s arbitrary: i) (auto split: option.splits if_splits)

lemma starts_with_4: "starts_with k [a, b, c, d] \<longleftrightarrow> take 4 k = [a, b, c, d]"
  by (simp add: starts_with_def numeral_eq_Suc)

lemma take_4_length: "take 4 k = [a, b, c, d] \<Longrightarrow> 4 \<le> length k"
  by (drule arg_cong [of _ _ length]) simp

lemma compact_scan_eq:
  "compact_scan m es =
     map fst (filter (\<lambda>e. msg_upto m (fst e)) (takeWhile (\<lambda>e. starts_with (fst e) ''msg:'') es))"
  by (induction m es rule: compact_scan.induct)
    (auto simp: msg_upto_def starts_with_4 substr_from_def dest: take_4_length split: sum.splits)

lemma purge_scan_eq:
  "purge_scan m es =
     map fst (filter (\<lambda>e. ack_upto m (fst e)) (takeWhile (\<lambda>e. starts_with (fst e) ''ack:'') es))"
  by (induction m es rule: purge_scan.induct)
    (auto simp: ack_upto_def starts_with_4 substr_from_def dest: take_4_length str_rfind_less
      split: sum.splits option.splits)

lemma acks_scan_eq:
  "acks_scan p es =
     {s. \<exists>e \<in> set (takeWhile (\<lambda>e. starts_with (fst e) p) es). stoull (drop (length p) (fst e)) = Inr s}"
proof (induction p es rule: acks_scan.induct)
  case (2 p key val es)
  have "length p \<le> length key" if "take (length p) key = p"
    using arg_cong [OF that, of length] by simp
  with 2 show ?case
    by (cases "stoull (drop (length p) key)") (auto simp: starts_with_def substr_from_def Bex_def)
qed simp

lemma msg_upto_msg_key [simp]: "msg_upto m (msg_key s) \<longleftrightarrow> s \<le> m"
  by (simp add: msg_upto_def msg_key_def starts_with_def)

lemma ack_upto_ack_key [simp]: "ack_upto m (ack_key c s) \<longleftrightarrow> s \<le> m"
proof -
  have "str_rfind CHR '':'' (ack_key c s) = Some (4 + length c)"
    using str_rfind_mid [of "CHR '':''" "to_string (unat s)" "''ack:'' @ c"]
    by (simp add: ack_key_def ack_prefix_def)
  moreover have "drop (5 + length c) (ack_key c s) = to_string (unat s)"
    by (simp add: ack_key_def ack_prefix_def numeral_eq_Suc)
  ultimately show ?thesis
    by (simp add: ack_upto_def ack_key_def ack_prefix_def starts_with_def)
qed

lemma msg_upto_prefix: "msg_upto m k \<Longrightarrow> starts_with k ''msg:''"
  by (simp add: msg_upto_def)

lemma ack_upto_prefix: "ack_upto m k \<Longrightarrow> starts_with k ''ack:''"
  by (simp add: ack_upto_def)

lemma upto_families [simp]:
  "\<not> msg_upto m (ack_key c s)" "\<not> ack_upto m (msg_key s)" "\<not> msg_upto m last_key" "\<not> ack_upto m last_key"
  by (simp_all add: msg_upto_def ack_upto_def msg_key_def ack_key_def ack_prefix_def last_key_def
      starts_with_def)


section \<open>The key space\<close>

text \<open>
  Every key has one of the three forms the operations write, and the counter record holds eight bytes.
\<close>

definition store_inv :: "(bytes \<rightharpoonup> bytes) \<Rightarrow> bool" where
  "store_inv v \<longleftrightarrow>
     (\<forall>k x. v k = Some x \<longrightarrow>
        k = last_key \<and> length x = 8 \<or> (\<exists>s. k = msg_key s) \<or> (\<exists>c s. k = ack_key c s))"

definition stored_seq :: "(bytes \<rightharpoonup> bytes) \<Rightarrow> uint64" where
  "stored_seq v = (case v last_key of Some x \<Rightarrow> if length x = 8 then image_uint64 x else 0 | None \<Rightarrow> 0)"

lemma store_invE:
  assumes "store_inv v" "v k = Some x"
  obtains "k = last_key" "length x = 8" | s where "k = msg_key s" | c s where "k = ack_key c s"
  using assms unfolding store_inv_def by blast

lemma store_inv_empty [simp]: "store_inv Map.empty"
  by (simp add: store_inv_def)

lemma store_inv_msg: "store_inv v \<Longrightarrow> store_inv (v(msg_key s \<mapsto> x))"
  by (auto simp: store_inv_def)

lemma store_inv_ack: "store_inv v \<Longrightarrow> store_inv (v(ack_key c s \<mapsto> x))"
  by (auto simp: store_inv_def)

lemma store_inv_last: "store_inv v \<Longrightarrow> length x = 8 \<Longrightarrow> store_inv (v(last_key \<mapsto> x))"
  by (auto simp: store_inv_def)

lemma store_inv_sub: "store_inv v \<Longrightarrow> (\<And>k. w k = v k \<or> w k = None) \<Longrightarrow> store_inv w"
  unfolding store_inv_def by (metis option.distinct(1))

lemma next_seq_stored: "next_seq (v last_key) = stored_seq v + 1"
  by (simp add: next_seq_def stored_seq_def split: option.split)

text \<open>The abstract effect of \<^verbatim>\<open>save\<close> on the key space.\<close>

definition saved :: "(bytes \<rightharpoonup> bytes) \<Rightarrow> bytes \<Rightarrow> bytes \<Rightarrow> (bytes \<rightharpoonup> bytes)" where
  "saved v topic payload =
     v(msg_key (stored_seq v + 1) \<mapsto> topic @ payload, last_key \<mapsto> uint64_image (stored_seq v + 1))"

lemma store_inv_saved: "store_inv v \<Longrightarrow> store_inv (saved v topic payload)"
  by (simp add: saved_def store_inv_last store_inv_msg)

lemma stored_seq_saved [simp]: "stored_seq (saved v topic payload) = stored_seq v + 1"
  by (simp add: saved_def stored_seq_def)

context lmdb_engine
begin

lemma get_last_seq_view: "get_last_seq L e = stored_seq (eview e) \<or> get_last_seq L e = 0"
  using begin_view [of e True]
  by (auto simp: get_last_seq_def stored_seq_def get_view split: option.splits)

lemma save_view:
  "eview (save L e seq topic payload) = eview e \<or> eview (save L e seq topic payload) = saved (eview e) topic payload"
proof (cases "mdb_txn_begin L e False")
  case (Some t)
  have v: "tview t = eview e" by (rule begin_view [OF Some])
  define n where "n = stored_seq (eview e) + 1"
  have "saved (eview e) topic payload = (tview t)(msg_key n \<mapsto> topic @ payload, last_key \<mapsto> uint64_image n)"
    by (simp add: saved_def n_def v)
  moreover have "next_seq (mdb_get L t last_key) = n"
    by (simp add: n_def v get_view next_seq_stored)
  ultimately show ?thesis
    using Some commit_view [of e] put_view by (auto simp: save_def split: option.split) metis+
qed (simp add: save_def)

lemma save_ack_view:
  "eview (save_ack L e c s) = eview e \<or> eview (save_ack L e c s) = (eview e)(ack_key c s \<mapsto> ''1'')"
proof (cases "mdb_txn_begin L e False")
  case (Some t)
  then show ?thesis
    using begin_view [OF Some] commit_view [of e] put_view
    by (auto simp: save_ack_def split: option.split) metis+
qed (simp add: save_ack_def)

lemma delete_all_sub: "tview (delete_all L t ks) k = tview t k \<or> k \<in> set ks \<and> tview (delete_all L t ks) k = None"
proof (induction ks arbitrary: t)
  case (Cons x ks)
  show ?case
  proof (cases "mdb_del L t x")
    case None
    then show ?thesis using Cons [of t] by (auto simp: delete_all_def)
  next
    case (Some t')
    then have "delete_all L t (x # ks) = delete_all L t' ks" by (simp add: delete_all_def)
    with Cons [of t'] del_view [OF Some] show ?thesis by (auto split: if_splits)
  qed
qed (simp add: delete_all_def)

lemma compact_sub:
  "eview (compact L e m) k = eview e k \<or> msg_upto m k \<and> eview (compact L e m) k = None"
proof (cases "mdb_txn_begin L e False")
  case (Some t)
  let ?d = "delete_all L t (compact_scan m (mdb_cursor_range L t ''msg:''))"
  have "tview ?d k = eview e k \<or> msg_upto m k \<and> tview ?d k = None"
    using delete_all_sub [of t "compact_scan m (mdb_cursor_range L t ''msg:'')" k] begin_view [OF Some]
    by (auto simp: compact_scan_eq)
  then show ?thesis
    using Some commit_view [of e ?d] by (auto simp: compact_def)
qed (simp add: compact_def)

lemma purge_sub:
  "eview (purge_old_acks L e m) k = eview e k \<or> ack_upto m k \<and> eview (purge_old_acks L e m) k = None"
proof (cases "mdb_txn_begin L e False")
  case (Some t)
  let ?d = "delete_all L t (purge_scan m (mdb_cursor_range L t ''ack:''))"
  have "tview ?d k = eview e k \<or> ack_upto m k \<and> tview ?d k = None"
    using delete_all_sub [of t "purge_scan m (mdb_cursor_range L t ''ack:'')" k] begin_view [OF Some]
    by (auto simp: purge_scan_eq)
  then show ?thesis
    using Some commit_view [of e ?d] by (auto simp: purge_old_acks_def)
qed (simp add: purge_old_acks_def)

lemma store_inv_ops:
  assumes "store_inv (eview e)"
  shows "store_inv (eview (save L e seq topic payload))" "store_inv (eview (save_ack L e c s))"
    "store_inv (eview (compact L e m))" "store_inv (eview (purge_old_acks L e m))"
proof -
  show "store_inv (eview (save L e seq topic payload))"
    using save_view [of e seq topic payload] assms store_inv_saved by metis
  show "store_inv (eview (save_ack L e c s))"
    using save_ack_view [of e c s] assms store_inv_ack by metis
  show "store_inv (eview (compact L e m))"
    using compact_sub [of e m] store_inv_sub [OF assms] by blast
  show "store_inv (eview (purge_old_acks L e m))"
    using purge_sub [of e m] store_inv_sub [OF assms] by blast
qed

end


section \<open>A healthy store\<close>

lemma msg_prefix_key: "starts_with (msg_key s) ''msg:''"
  by (simp add: msg_key_def starts_with_def)

lemma ack_prefix_key: "starts_with (ack_key c s) (ack_prefix c)"
  by (simp add: ack_key_def)

text \<open>The acknowledgements of a client in the key space: what follows the client's prefix.\<close>

definition stored_acks :: "(bytes \<rightharpoonup> bytes) \<Rightarrow> bytes \<Rightarrow> uint64 set" where
  "stored_acks v c = {s. \<exists>r. v (ack_prefix c @ r) \<noteq> None \<and> stoull r = Inr s}"

context lmdb_healthy
begin

lemma get_last_seq_healthy: "get_last_seq L e = stored_seq (eview e)"
  by (rule begin_some [of e True]) (simp add: get_last_seq_def stored_seq_def get_view)

lemma save_healthy: "eview (save L e seq topic payload) = saved (eview e) topic payload"
proof -
  obtain t where t: "mdb_txn_begin L e False = Some t" "tview t = eview e" by (rule begin_some)
  define n where "n = stored_seq (eview e) + 1"
  have n: "next_seq (mdb_get L t last_key) = n"
    by (simp add: n_def t get_view next_seq_stored)
  obtain t1 where t1: "mdb_put L t (msg_key n) (topic @ payload) = Some t1"
      "tview t1 = (tview t)(msg_key n \<mapsto> topic @ payload)"
    using key_ok_fixed(1) by (rule put_some)
  obtain t2 where t2: "mdb_put L t1 last_key (uint64_image n) = Some t2"
      "tview t2 = (tview t1)(last_key \<mapsto> uint64_image n)"
    using key_ok_fixed(2) by (rule put_some)
  show ?thesis
    using t n t1 t2 commit_ok [of e t2] by (simp add: save_def saved_def n_def [symmetric])
qed

lemma save_ack_healthy:
  assumes "key_ok (ack_key c s)"
  shows "eview (save_ack L e c s) = (eview e)(ack_key c s \<mapsto> ''1'')"
proof -
  obtain t where t: "mdb_txn_begin L e False = Some t" "tview t = eview e" by (rule begin_some)
  obtain t1 where "mdb_put L t (ack_key c s) ''1'' = Some t1" "tview t1 = (tview t)(ack_key c s \<mapsto> ''1'')"
    using assms by (rule put_some)
  then show ?thesis
    using t commit_ok [of e t1] by (simp add: save_ack_def)
qed

lemma delete_all_healthy: "tview (delete_all L t ks) = (\<lambda>k. if k \<in> set ks then None else tview t k)"
proof (induction ks arbitrary: t)
  case (Cons x ks)
  show ?case
  proof (cases "mdb_del L t x")
    case None
    then have "tview t x = None" using del_ok by blast
    with None Cons [of t] show ?thesis by (auto simp: delete_all_def fun_eq_iff)
  next
    case (Some t')
    then have "delete_all L t (x # ks) = delete_all L t' ks" by (simp add: delete_all_def)
    with Cons [of t'] del_view [OF Some] show ?thesis by (auto simp: fun_eq_iff)
  qed
qed (simp add: delete_all_def)

lemma takeWhile_range:
  assumes "key_ok p"
  shows "set (takeWhile (\<lambda>e. starts_with (fst e) p) (mdb_cursor_range L t p)) =
    {(x, v). starts_with x p \<and> tview t x = Some v}"
proof -
  have "\<forall>e \<in> set (mdb_cursor_range L t p). p \<le> fst e"
    using range_sound by (metis prod.collapse)
  then have "takeWhile (\<lambda>e. starts_with (fst e) p) (mdb_cursor_range L t p) =
      filter (\<lambda>e. starts_with (fst e) p) (mdb_cursor_range L t p)"
    by (rule takeWhile_prefix_sorted [OF range_sorted])
  then show ?thesis
    using range_set [OF assms, of t] by (auto simp: starts_with_iff prefix_le)
qed

lemma compact_healthy:
  "m \<noteq> 0 \<Longrightarrow> eview (compact L e m) = (\<lambda>k. if msg_upto m k then None else eview e k)"
proof -
  assume m: "m \<noteq> 0"
  obtain t where t: "mdb_txn_begin L e False = Some t" "tview t = eview e" by (rule begin_some)
  have ks: "set (compact_scan m (mdb_cursor_range L t ''msg:'')) = {k. msg_upto m k \<and> tview t k \<noteq> None}"
    using takeWhile_range [of "''msg:''" t] msg_upto_prefix
    by (fastforce simp: compact_scan_eq image_iff)
  show ?thesis
    using m t by (auto simp: compact_def cursor_ok commit_ok delete_all_healthy ks fun_eq_iff)
qed

lemma purge_healthy:
  "m \<noteq> 0 \<Longrightarrow> eview (purge_old_acks L e m) = (\<lambda>k. if ack_upto m k then None else eview e k)"
proof -
  assume m: "m \<noteq> 0"
  obtain t where t: "mdb_txn_begin L e False = Some t" "tview t = eview e" by (rule begin_some)
  have ks: "set (purge_scan m (mdb_cursor_range L t ''ack:'')) = {k. ack_upto m k \<and> tview t k \<noteq> None}"
    using takeWhile_range [of "''ack:''" t] ack_upto_prefix
    by (fastforce simp: purge_scan_eq image_iff)
  show ?thesis
    using m t by (auto simp: purge_old_acks_def cursor_ok commit_ok delete_all_healthy ks fun_eq_iff)
qed

lemma load_acks_healthy:
  assumes "key_ok (ack_prefix c)"
  shows "load_acks L e c = stored_acks (eview e) c"
proof -
  obtain t where t: "mdb_txn_begin L e True = Some t" "tview t = eview e" by (rule begin_some)
  have "load_acks L e c = acks_scan (ack_prefix c) (mdb_cursor_range L t (ack_prefix c))"
    by (simp add: load_acks_def t cursor_ok)
  also have "\<dots> = stored_acks (eview e) c"
    unfolding acks_scan_eq takeWhile_range [OF assms] stored_acks_def t(2)
    by (auto simp: starts_with_iff)
  finally show ?thesis .
qed

end

text \<open>With client ids free of colons, the stored keys separate the clients.\<close>

lemma ack_key_under_prefix:
  assumes "CHR '':'' \<notin> set d"
  shows "ack_key d s = ack_prefix c @ r \<longleftrightarrow> c = d \<and> r = to_string (unat s)"
proof
  assume eq: "ack_key d s = ack_prefix c @ r"
  then have "str_find CHR '':'' (d @ [CHR '':''] @ to_string (unat s)) = str_find CHR '':'' (c @ [CHR '':''] @ r)"
    by (simp add: ack_key_def ack_prefix_def)
  moreover have "CHR '':'' \<notin> set c"
  proof
    assume "CHR '':'' \<in> set c"
    then have "2 \<le> count_list (c @ [CHR '':''] @ r) CHR '':''"
      using count_list_0_iff [of c "CHR '':''"] by simp
    moreover have "c @ [CHR '':''] @ r = d @ [CHR '':''] @ to_string (unat s)"
      using eq by (simp add: ack_key_def ack_prefix_def)
    moreover have "count_list (d @ [CHR '':''] @ to_string (unat s)) CHR '':'' = 1"
      using assms by simp
    ultimately have "2 \<le> (1 :: nat)" by metis
    then show False by simp
  qed
  ultimately have "length d = length c" using assms by (simp add: str_find_mid)
  with eq show "c = d \<and> r = to_string (unat s)" by (simp add: ack_key_def ack_prefix_def)
qed (simp add: ack_key_def)

lemma stored_acks_save_ack:
  assumes "CHR '':'' \<notin> set d"
  shows "stored_acks (v(ack_key d s \<mapsto> x)) c = (if c = d then insert s (stored_acks v c) else stored_acks v c)"
proof -
  have "(v(ack_key d s \<mapsto> x)) (ack_prefix c @ r) \<noteq> None \<longleftrightarrow>
      c = d \<and> r = to_string (unat s) \<or> v (ack_prefix c @ r) \<noteq> None" for r
    using ack_key_under_prefix [OF assms, of s c r] by auto
  then show ?thesis by (auto simp: stored_acks_def)
qed


section \<open>Reading a range of messages\<close>

lemma nul_split:
  assumes "str_find CHR 0x00 v = Some i"
  shows "v = take i v @ CHR 0x00 # drop (i + 1) v" "CHR 0x00 \<notin> set (take i v)"
  using str_find_SomeD [OF assms] id_take_nth_drop [of i v] by auto

definition msg_entries_ok :: "(bytes \<times> bytes) list \<Rightarrow> bool" where
  "msg_entries_ok es \<longleftrightarrow> (\<forall>e \<in> set es. starts_with (fst e) ''msg:'' \<longrightarrow> (\<exists>s. fst e = msg_key s))"

lemma range_scan_msg:
  "range_scan m ((msg_key s, v) # es) =
     (if m < s then Inr []
      else thenE (range_scan m es) (\<lambda>rest.
        case str_find CHR 0x00 v of
          Some sep \<Rightarrow> Inr ((s, take sep v, drop (sep + 1) v) # rest)
        | None \<Rightarrow> Inr rest))"
  by (simp add: msg_key_def substr_from_def)

lemma range_scan_sound:
  assumes "msg_entries_ok es"
  shows "\<exists>r. range_scan m es = Inr r \<and>
    (\<forall>(s, t, p) \<in> set r. s \<le> m \<and> CHR 0x00 \<notin> set t \<and> (msg_key s, t @ CHR 0x00 # p) \<in> set es)"
  using assms
proof (induction es)
  case (Cons e es)
  then obtain r where r: "range_scan m es = Inr r"
      "\<forall>(s, t, p) \<in> set r. s \<le> m \<and> CHR 0x00 \<notin> set t \<and> (msg_key s, t @ CHR 0x00 # p) \<in> set es"
    by (auto simp: msg_entries_ok_def)
  show ?case
  proof (cases "starts_with (fst e) ''msg:''")
    case True
    with Cons.prems obtain s v where e: "e = (msg_key s, v)"
      by (metis list.set_intros(1) msg_entries_ok_def prod.collapse)
    show ?thesis
      using r nul_split [of v] unfolding e range_scan_msg
      by (cases "str_find CHR 0x00 v") (fastforce simp: not_less)+
  next
    case False
    with r show ?thesis by (cases e) (fastforce simp: starts_with_4)
  qed
qed simp

lemma range_scan_complete:
  assumes "msg_entries_ok es" and "\<And>s v. (msg_key s, v) \<in> set es \<Longrightarrow> s \<le> m"
    and "range_scan m es = Inr r" and "(msg_key s, t @ CHR 0x00 # p) \<in> set es" and "CHR 0x00 \<notin> set t"
  shows "(s, t, p) \<in> set r"
  using assms
proof (induction es arbitrary: r)
  case (Cons e es)
  have ok: "msg_entries_ok es" using Cons.prems(1) by (simp add: msg_entries_ok_def)
  obtain r' where r': "range_scan m es = Inr r'" using range_scan_sound [OF ok] by blast
  have IH: "(s, t, p) \<in> set r'" if "(msg_key s, t @ CHR 0x00 # p) \<in> set es"
    using that Cons.prems(2,5) by (intro Cons.IH [OF ok _ r']) auto
  show ?case
  proof (cases "starts_with (fst e) ''msg:''")
    case True
    with Cons.prems(1) obtain s' v where e: "e = (msg_key s', v)"
      by (metis list.set_intros(1) msg_entries_ok_def prod.collapse)
    have "\<not> m < s'" using Cons.prems(2) [of s' v] by (simp add: e not_less)
    then have r: "r = (case str_find CHR 0x00 v of
        Some sep \<Rightarrow> (s', take sep v, drop (sep + 1) v) # r' | None \<Rightarrow> r')"
      using Cons.prems(3) r' unfolding e range_scan_msg by (auto split: option.splits)
    show ?thesis
    proof (cases "e = (msg_key s, t @ CHR 0x00 # p)")
      case True
      with e have "s' = s" "v = t @ CHR 0x00 # p" by simp_all
      with r Cons.prems(5) show ?thesis by (simp add: str_find_mid)
    next
      case False
      with Cons.prems(4) IH r show ?thesis by (auto split: option.split)
    qed
  next
    case False
    then have "e \<noteq> (msg_key s, t @ CHR 0x00 # p)"
      using msg_prefix_key [of s] by force
    moreover have "range_scan m (e # es) = range_scan m es"
      using False by (cases e) (simp add: starts_with_4)
    ultimately show ?thesis using Cons.prems(3,4) r' IH by simp
  qed
qed simp

lemma msg_key_0_le: "msg_key 0 \<le> msg_key s"
proof -
  obtain c ds where "to_string (unat s) = c # ds" "is_digit c" by (rule to_string_Cons)
  moreover from this(2) have "CHR ''0'' \<le> c"
    by (simp add: is_digit_def less_eq_char_def)
  ultimately show ?thesis
    by (auto simp: msg_key_def to_string.simps [of 0])
qed

context lmdb_engine
begin

lemma range_entries_ok:
  "store_inv (tview t) \<Longrightarrow> msg_entries_ok (mdb_cursor_range L t k)"
  unfolding msg_entries_ok_def
  by (auto dest!: range_sound elim!: store_invE
      simp: starts_with_def last_key_def ack_key_def ack_prefix_def)

lemma load_range_sound:
  assumes "store_inv (eview e)"
  shows "\<exists>r. load_range L e from m = Inr r \<and>
    (\<forall>(s, t, p) \<in> set r. s \<le> m \<and> CHR 0x00 \<notin> set t \<and> eview e (msg_key s) = Some (t @ CHR 0x00 # p))"
proof (cases "mdb_txn_begin L e True")
  case (Some t)
  have v: "tview t = eview e" by (rule begin_view [OF Some])
  have "msg_entries_ok (mdb_cursor_range L t (msg_key from))"
    using assms v by (simp add: range_entries_ok)
  from range_scan_sound [OF this, of m] show ?thesis
    using Some range_sound [of _ _ t "msg_key from"] v by (fastforce simp: load_range_def)
qed (simp add: load_range_def)

end

context lmdb_healthy
begin

lemma load_range_complete:
  assumes "store_inv (eview e)" and "\<And>s. eview e (msg_key s) \<noteq> None \<Longrightarrow> s \<le> m"
    and "load_range L e 0 m = Inr r" and "eview e (msg_key s) = Some (t @ CHR 0x00 # p)" "CHR 0x00 \<notin> set t"
  shows "(s, t, p) \<in> set r"
proof -
  obtain x where x: "mdb_txn_begin L e True = Some x" "tview x = eview e" by (rule begin_some)
  have "range_scan m (mdb_cursor_range L x (msg_key 0)) = Inr r"
    using assms(3) by (simp add: load_range_def x cursor_ok)
  moreover have "(msg_key s, t @ CHR 0x00 # p) \<in> set (mdb_cursor_range L x (msg_key 0))"
    using assms(4) x(2) msg_key_0_le by (simp add: range_set)
  moreover have "s' \<le> m" if "(msg_key s', v) \<in> set (mdb_cursor_range L x (msg_key 0))" for s' v
    using that assms(2) [of s'] x(2) by (simp add: range_set)
  moreover have "msg_entries_ok (mdb_cursor_range L x (msg_key 0))"
    using assms(1) x(2) by (simp add: range_entries_ok)
  ultimately show ?thesis
    using assms(5) by (intro range_scan_complete)
qed

end


lemma range_scan_stops:
  assumes "om_sorted es" and "msg_entries_ok es" and "(msg_key b, v) \<in> set es" and "m < b"
    and "range_scan m es = Inr r" and "(s, t, p) \<in> set r"
  shows "msg_key s < msg_key b"
  using assms
proof (induction es arbitrary: r)
  case (Cons e es)
  have ok: "msg_entries_ok es" and sorted: "om_sorted es"
    using Cons.prems(1,2) by (auto simp: msg_entries_ok_def)
  obtain r' where r': "range_scan m es = Inr r'" using range_scan_sound [OF ok] by blast
  show ?case
  proof (cases "starts_with (fst e) ''msg:''")
    case True
    with Cons.prems(2) obtain s' x where e: "e = (msg_key s', x)"
      by (metis list.set_intros(1) msg_entries_ok_def prod.collapse)
    have "\<not> m < s'"
      using Cons.prems(5,6) by (auto simp: e range_scan_msg simp del: range_scan.simps)
    with Cons.prems(4) have "s' \<noteq> b" by blast
    with Cons.prems(1,3) have b: "(msg_key b, v) \<in> set es" "msg_key s' < msg_key b" by (auto simp: e)
    have "s = s' \<or> (s, t, p) \<in> set r'"
      using Cons.prems(5,6) r' \<open>\<not> m < s'\<close>
      by (auto simp: e range_scan_msg simp del: range_scan.simps split: option.splits)
    with Cons.IH [OF sorted ok b(1) Cons.prems(4) r'] b(2) show ?thesis by blast
  next
    case False
    then have "range_scan m (e # es) = range_scan m es"
      by (cases e) (simp add: starts_with_4)
    moreover have "(msg_key b, v) \<in> set es" using False Cons.prems(3) msg_prefix_key [of b] by force
    ultimately show ?thesis using Cons.IH [OF sorted ok _ Cons.prems(4)] Cons.prems(5,6) by metis
  qed
qed simp

context lmdb_healthy
begin

lemma load_range_stops:
  assumes "store_inv (eview e)" and "eview e (msg_key b) \<noteq> None" and "m < b"
    and "msg_key from \<le> msg_key b" and "load_range L e from m = Inr r"
  shows "\<forall>(s, t, p) \<in> set r. msg_key s < msg_key b"
proof -
  obtain x where x: "mdb_txn_begin L e True = Some x" "tview x = eview e" by (rule begin_some)
  have "range_scan m (mdb_cursor_range L x (msg_key from)) = Inr r"
    using assms(5) by (simp add: load_range_def x cursor_ok)
  moreover obtain v where "(msg_key b, v) \<in> set (mdb_cursor_range L x (msg_key from))"
    using assms(2,4) x(2) by (auto simp: range_set)
  moreover have "msg_entries_ok (mdb_cursor_range L x (msg_key from))"
    using assms(1) x(2) by (simp add: range_entries_ok)
  ultimately show ?thesis
    using range_scan_stops [OF range_sorted _ _ assms(3)] by blast
qed

end

section \<open>Properties\<close>

text \<open>A sequence of published messages written to the store.\<close>

definition save_all :: "('e, 't) lmdb \<Rightarrow> 'e \<Rightarrow> (uint64 \<times> bytes \<times> bytes) list \<Rightarrow> 'e" where
  "save_all L = foldl (\<lambda>e (seq, topic, payload). save L e seq topic payload)"

context lmdb_engine
begin

lemma save_all_inv: "store_inv (eview e) \<Longrightarrow> store_inv (eview (save_all L e ms))"
  by (induction ms arbitrary: e) (auto simp: save_all_def store_inv_ops)

lemma save_all_values:
  assumes "eview (save_all L e ms) (msg_key s) = Some x"
  shows "eview e (msg_key s) = Some x \<or> (\<exists>(n, topic, payload) \<in> set ms. x = topic @ payload)"
  using assms
proof (induction ms arbitrary: e)
  case (Cons m ms)
  obtain n topic payload where m: "m = (n, topic, payload)" by (cases m)
  have "eview (save L e n topic payload) (msg_key s) = Some x \<or> (\<exists>(n, topic, payload) \<in> set ms. x = topic @ payload)"
    using Cons.IH [of "save L e n topic payload"] Cons.prems by (simp add: save_all_def m)
  with save_view [of e n topic payload] show ?case
    by (auto simp: m saved_def split: if_splits)
qed (simp add: save_all_def)

end

text \<open>
  (C26) Every operation of the store keeps the key space well formed, whatever LMDB calls fail: all keys
  are the counter, \<^verbatim>\<open>msg:<seq>\<close> or \<^verbatim>\<open>ack:<client>:<seq>\<close>, and the counter record holds eight bytes.
\<close>

theorem store_wellformed:
  assumes "lmdb_engine L eview tview" and "store_inv (eview e)"
  shows "store_inv (eview (save L e seq topic payload)) \<and> store_inv (eview (save_ack L e c s)) \<and>
    store_inv (eview (compact L e m)) \<and> store_inv (eview (purge_old_acks L e m))"
  using lmdb_engine.store_inv_ops [OF assms] by blast

theorem store_wellformed_witness:
  "store_inv (RBT.lookup (save (rbt_lmdb (\<lambda>_. True)) RBT.empty 1 ''t'' ''x'')) \<and>
   store_inv (RBT.lookup (save_ack (rbt_lmdb (\<lambda>_. True)) RBT.empty ''c'' 1)) \<and>
   store_inv (RBT.lookup (compact (rbt_lmdb (\<lambda>_. True)) RBT.empty 3)) \<and>
   store_inv (RBT.lookup (purge_old_acks (rbt_lmdb (\<lambda>_. True)) RBT.empty 3))"
  by (rule store_wellformed [OF rbt_engine.lmdb_engine_axioms]) simp

text \<open>
  Writing is atomic: \<^verbatim>\<open>save\<close> either leaves the key space as it was, or adds the message under the
  number after the stored counter and advances the counter, in one step. On a healthy engine it does
  the latter, and \<^verbatim>\<open>get_last_seq\<close> then returns the new number, independently of the \<^verbatim>\<open>seq\<close> argument.
\<close>

theorem save_atomic:
  assumes "lmdb_engine L eview tview"
  shows "(eview (save L e seq topic payload) = eview e \<or>
     eview (save L e seq topic payload) =
       (eview e)(msg_key (stored_seq (eview e) + 1) \<mapsto> topic @ payload,
                 last_key \<mapsto> uint64_image (stored_seq (eview e) + 1))) \<and>
    (lmdb_healthy L eview tview \<longrightarrow>
       get_last_seq L (save L e seq topic payload) = get_last_seq L e + 1 \<and>
       eview (save L e seq topic payload) (msg_key (get_last_seq L e + 1)) = Some (topic @ payload))"
proof (intro conjI impI)
  assume H: "lmdb_healthy L eview tview"
  show "get_last_seq L (save L e seq topic payload) = get_last_seq L e + 1"
    by (simp add: lmdb_healthy.get_last_seq_healthy [OF H] lmdb_healthy.save_healthy [OF H])
  show "eview (save L e seq topic payload) (msg_key (get_last_seq L e + 1)) = Some (topic @ payload)"
    by (simp add: lmdb_healthy.get_last_seq_healthy [OF H] lmdb_healthy.save_healthy [OF H] saved_def)
qed (use lmdb_engine.save_view [OF assms, of e seq topic payload] in \<open>simp add: saved_def\<close>)

theorem save_atomic_witness:
  "get_last_seq (rbt_lmdb (\<lambda>_. False)) (save (rbt_lmdb (\<lambda>_. False)) RBT.empty 7 ''t'' ''x'') = 1"
  using save_atomic [OF rbt_engine.lmdb_engine_axioms, of "\<lambda>_. False" RBT.empty 7 "''t''" "''x''"]
    rbt_lmdb_healthy rbt_healthy.get_last_seq_healthy [of RBT.empty]
  by (simp add: stored_seq_def)

text \<open>
  Reading a range is safe on a well-formed key space: \<^verbatim>\<open>std::stoull\<close> never throws, and every entry
  returned is a stored message within the bound, split at its first NUL byte.
\<close>

theorem load_range_safe:
  assumes "lmdb_engine L eview tview" and "store_inv (eview e)"
  shows "\<exists>r. load_range L e from to_seq = Inr r \<and>
    (\<forall>(s, t, p) \<in> set r.
       s \<le> to_seq \<and> CHR 0x00 \<notin> set t \<and> eview e (msg_key s) = Some (t @ CHR 0x00 # p))"
  by (rule lmdb_engine.load_range_sound [OF assms])

theorem load_range_safe_witness:
  "\<exists>r. load_range (rbt_lmdb (\<lambda>_. False)) (save (rbt_lmdb (\<lambda>_. False)) RBT.empty 1 ''t'' [CHR 0x00]) 0 9 = Inr r \<and>
    (\<forall>(s, t, p) \<in> set r. s \<le> 9 \<and> CHR 0x00 \<notin> set t \<and>
       RBT.lookup (save (rbt_lmdb (\<lambda>_. False)) RBT.empty 1 ''t'' [CHR 0x00]) (msg_key s) = Some (t @ CHR 0x00 # p))"
  by (rule load_range_safe [OF rbt_engine.lmdb_engine_axioms])
    (simp add: rbt_healthy.save_healthy store_inv_saved)

text \<open>
  Replay from the beginning is complete while every stored number is within the bound: a stored
  value with a NUL separator is returned, split at the first NUL.
\<close>

theorem load_range_from_start_complete:
  assumes "lmdb_healthy L eview tview" and "store_inv (eview e)"
    and "\<forall>s. eview e (msg_key s) \<noteq> None \<longrightarrow> s \<le> to_seq"
    and "eview e (msg_key s) = Some (t @ CHR 0x00 # p)" and "CHR 0x00 \<notin> set t"
  shows "\<exists>r. load_range L e 0 to_seq = Inr r \<and> (s, t, p) \<in> set r"
  using lmdb_engine.load_range_sound [OF lmdb_healthy.axioms(1) [OF assms(1)] assms(2), of 0 to_seq]
    lmdb_healthy.load_range_complete [OF assms(1,2)] assms(3-5) by blast

theorem load_range_from_start_complete_witness:
  "\<exists>r. load_range (rbt_lmdb (\<lambda>_. False)) (save (rbt_lmdb (\<lambda>_. False)) RBT.empty 1 ''t'' [CHR 0x00, CHR ''x'']) 0 9 = Inr r \<and>
    (1, ''t'', ''x'') \<in> set r"
  by (rule load_range_from_start_complete [OF rbt_lmdb_healthy])
    (simp_all add: rbt_healthy.save_healthy store_inv_saved, simp_all add: saved_def stored_seq_def)

text \<open>
  What replay loses: \<^verbatim>\<open>save\<close> writes topic and payload without a separator, so messages whose topic
  and payload hold no NUL byte are stored but never returned by any later \<^verbatim>\<open>load_range\<close>.
\<close>

theorem text_messages_never_replayed:
  assumes "lmdb_engine L eview tview" and "eview e = Map.empty"
    and "\<forall>(n, topic, payload) \<in> set ms. CHR 0x00 \<notin> set topic \<and> CHR 0x00 \<notin> set payload"
  shows "load_range L (save_all L e ms) from to_seq = Inr []"
proof -
  have inv: "store_inv (eview (save_all L e ms))"
    by (rule lmdb_engine.save_all_inv [OF assms(1)]) (simp add: assms(2))
  obtain r where r: "load_range L (save_all L e ms) from to_seq = Inr r"
      "\<forall>(s, t, p) \<in> set r. eview (save_all L e ms) (msg_key s) = Some (t @ CHR 0x00 # p)"
    using lmdb_engine.load_range_sound [OF assms(1) inv] by fast
  have "CHR 0x00 \<notin> set x" if "eview (save_all L e ms) (msg_key s) = Some x" for s x
    using lmdb_engine.save_all_values [OF assms(1) that] assms(2,3) by fastforce
  with r(2) have "m \<notin> set r" for m
    by (cases m) fastforce
  then have "set r = {}" by (metis ex_in_conv)
  with r(1) show ?thesis by simp
qed

theorem text_messages_never_replayed_witness:
  "load_range (rbt_lmdb (\<lambda>_. False)) (save_all (rbt_lmdb (\<lambda>_. False)) RBT.empty [(1, ''t'', ''hello'')]) 0 100 = Inr []"
  by (rule text_messages_never_replayed [OF rbt_engine.lmdb_engine_axioms]) simp_all

text \<open>
  The cursor follows byte order, not numeric order: a stored number above the bound ends the scan,
  so no message whose key is textually after it is returned, whatever its number. With the messages 2
  and 10 stored, the range from 1 to 9 returns nothing: \<^verbatim>\<open>msg:10\<close> comes before \<^verbatim>\<open>msg:2\<close>.
\<close>

theorem load_range_stops_at_larger_number:
  assumes "lmdb_healthy L eview tview" and "store_inv (eview e)"
    and "eview e (msg_key b) \<noteq> None" and "to_seq < b" and "msg_key from \<le> msg_key b"
    and "load_range L e from to_seq = Inr r"
  shows "\<forall>(s, t, p) \<in> set r. msg_key s < msg_key b"
  by (rule lmdb_healthy.load_range_stops [OF assms])

theorem load_range_stops_at_larger_number_witness:
  "\<exists>r. load_range (rbt_lmdb (\<lambda>_. False))
     (RBT.insert (msg_key 2) [CHR ''t'', CHR 0x00] (RBT.insert (msg_key 10) [] RBT.empty)) 1 9 = Inr r \<and>
     (\<forall>(s, t, p) \<in> set r. msg_key s < msg_key 10) \<and> \<not> msg_key 2 < msg_key 10"
proof -
  let ?e = "RBT.insert (msg_key 2) [CHR ''t'', CHR 0x00] (RBT.insert (msg_key 10) [] RBT.empty)"
  have inv: "store_inv (RBT.lookup ?e)" by (simp add: store_inv_msg)
  then obtain r where r: "load_range (rbt_lmdb (\<lambda>_. False)) ?e 1 9 = Inr r"
    using rbt_engine.load_range_sound by blast
  have keys: "msg_key 1 \<le> msg_key 10" "\<not> msg_key 2 < msg_key 10"
    by (simp_all add: msg_key_def to_string.simps)
  have "\<forall>(s, t, p) \<in> set r. msg_key s < msg_key 10"
    by (rule load_range_stops_at_larger_number [OF rbt_lmdb_healthy inv _ _ keys(1) r]) simp_all
  with r keys(2) show ?thesis by blast
qed

text \<open>
  On a healthy engine \<^verbatim>\<open>compact\<close> removes exactly the messages numbered up to its argument and
  \<^verbatim>\<open>purge_old_acks\<close> exactly the acknowledgements numbered up to it, for every client id; the counter,
  the newer messages and the newer acknowledgements stay.
\<close>

theorem compaction_exact:
  assumes "lmdb_healthy L eview tview" and "m \<noteq> 0"
  shows "eview (compact L e m) (msg_key s) = (if s \<le> m then None else eview e (msg_key s)) \<and>
    eview (compact L e m) (ack_key c s) = eview e (ack_key c s) \<and>
    eview (purge_old_acks L e m) (ack_key c s) = (if s \<le> m then None else eview e (ack_key c s)) \<and>
    eview (purge_old_acks L e m) (msg_key s) = eview e (msg_key s) \<and>
    get_last_seq L (compact L e m) = get_last_seq L e \<and>
    get_last_seq L (purge_old_acks L e m) = get_last_seq L e"
  using assms
  by (simp add: lmdb_healthy.compact_healthy lmdb_healthy.purge_healthy
      lmdb_healthy.get_last_seq_healthy [OF assms(1)] stored_seq_def)

theorem compaction_exact_witness:
  "RBT.lookup (compact (rbt_lmdb (\<lambda>_. False)) (save (rbt_lmdb (\<lambda>_. False)) RBT.empty 1 ''t'' ''x'') 5) (msg_key 1) = None"
  using compaction_exact [OF rbt_lmdb_healthy, of 5 "save (rbt_lmdb (\<lambda>_. False)) RBT.empty 1 ''t'' ''x''" 1 "''c''"]
  by simp

text \<open>
  Acknowledgements round trip: after \<^verbatim>\<open>save_ack\<close> for a client id without colons that fits a key,
  \<^verbatim>\<open>load_acks\<close> returns the number for that client in addition to the earlier ones, and the
  acknowledgements of every other client are unchanged.
\<close>

theorem ack_store_roundtrip:
  assumes "lmdb_healthy L eview tview" and "CHR '':'' \<notin> set d" and "length d \<le> 486" and "length c \<le> 486"
  shows "load_acks L (save_ack L e d s) c =
    (if c = d then insert s (load_acks L e c) else load_acks L e c)"
  using key_ok_ack [OF assms(3), of s] key_ok_ack [OF assms(4), of s]
  by (simp add: lmdb_healthy.load_acks_healthy [OF assms(1)] lmdb_healthy.save_ack_healthy [OF assms(1)]
      stored_acks_save_ack [OF assms(2)])

theorem ack_store_roundtrip_witness:
  "load_acks (rbt_lmdb (\<lambda>_. False)) (save_ack (rbt_lmdb (\<lambda>_. False)) RBT.empty ''dev'' 4) ''dev'' =
   insert 4 (load_acks (rbt_lmdb (\<lambda>_. False)) RBT.empty ''dev'')"
  using ack_store_roundtrip [OF rbt_lmdb_healthy, of "''dev''" "''dev''" RBT.empty 4] by simp

text \<open>
  Client ids with a colon are not separated: an acknowledgement stored for client \<^verbatim>\<open>a:5\<close> is
  read back as acknowledgement 5 of client \<^verbatim>\<open>a\<close>.
\<close>

theorem ack_colon_confusion:
  assumes "lmdb_healthy L eview tview"
  shows "5 \<in> load_acks L (save_ack L e ''a:5'' s) ''a''"
proof -
  have "ack_key ''a:5'' s = ack_prefix ''a'' @ (to_string 5 @ '':'' @ to_string (unat s))"
    by (simp add: ack_key_def ack_prefix_def to_string.simps [of 5])
  moreover have "stoull (to_string 5 @ '':'' @ to_string (unat s)) = Inr 5"
    by (subst stoull_to_string) (simp_all add: is_digit_def)
  ultimately show ?thesis
    using key_ok_ack [of "''a:5''" s] key_ok_ack [of "''a''" s]
    by (simp add: lmdb_healthy.load_acks_healthy [OF assms] lmdb_healthy.save_ack_healthy [OF assms]
        stored_acks_def) (metis fun_upd_same option.distinct(1))
qed

theorem ack_colon_confusion_witness:
  "5 \<in> load_acks (rbt_lmdb (\<lambda>_. False)) (save_ack (rbt_lmdb (\<lambda>_. False)) RBT.empty ''a:5'' 7) ''a''"
  by (rule ack_colon_confusion [OF rbt_lmdb_healthy])

end
