(* ===== verification/Metrics.thy ===== *)
theory Metrics
  imports Prelude
begin

text \<open>
  \<^verbatim>\<open>Metrics\<close> of \<^verbatim>\<open>include/metricmq/metrics.hpp\<close> and \<^verbatim>\<open>src/metrics.cpp\<close>: the process-wide counters,
  gauges, latency histograms and per-topic maps, and their Prometheus text. Counters are 64-bit and
  wrap; gauges are set to sizes far below the 64-bit range and are integers here. The lemmas say what
  the histogram buckets count after any sequence of recordings, that the per-topic gauges stay
  positive, what the export shows of them, and what \<^verbatim>\<open>reset\<close> leaves behind.
\<close>

section \<open>State\<close>

record LatencyHistogram =
  h_count :: uint64
  h_sum_us :: uint64
  bucket_lt_100us :: uint64
  bucket_lt_500us :: uint64
  bucket_lt_1ms :: uint64
  bucket_lt_5ms :: uint64
  bucket_lt_10ms :: uint64
  bucket_lt_50ms :: uint64
  bucket_lt_100ms :: uint64
  bucket_inf :: uint64

definition hist_zero :: LatencyHistogram where
  "hist_zero =
     \<lparr>h_count = 0, h_sum_us = 0, bucket_lt_100us = 0, bucket_lt_500us = 0, bucket_lt_1ms = 0,
      bucket_lt_5ms = 0, bucket_lt_10ms = 0, bucket_lt_50ms = 0, bucket_lt_100ms = 0, bucket_inf = 0\<rparr>"

record Metrics =
  messages_published_total :: uint64
  messages_delivered_total :: uint64
  subscriptions_total :: uint64
  unsubscriptions_total :: uint64
  connections_total :: uint64
  disconnections_total :: uint64
  acks_total :: uint64
  errors_total :: uint64
  m_active_connections :: int
  m_active_subscribers :: int
  m_topic_count :: int
  publish_latency :: LatencyHistogram
  delivery_latency :: LatencyHistogram
  topic_messages :: "(bytes \<times> uint64) list"
  m_topic_subscribers :: "(bytes \<times> int) list"

definition metrics_zero :: Metrics where
  "metrics_zero =
     \<lparr>messages_published_total = 0, messages_delivered_total = 0, subscriptions_total = 0,
      unsubscriptions_total = 0, connections_total = 0, disconnections_total = 0, acks_total = 0,
      errors_total = 0, m_active_connections = 0, m_active_subscribers = 0, m_topic_count = 0,
      publish_latency = hist_zero, delivery_latency = hist_zero, topic_messages = [],
      m_topic_subscribers = []\<rparr>"

section \<open>Counters, gauges, histograms\<close>

definition incrementPublished :: "Metrics \<Rightarrow> Metrics" where
  "incrementPublished m = m\<lparr>messages_published_total := messages_published_total m + 1\<rparr>"

definition incrementDelivered :: "Metrics \<Rightarrow> Metrics" where
  "incrementDelivered m = m\<lparr>messages_delivered_total := messages_delivered_total m + 1\<rparr>"

definition incrementSubscriptions :: "Metrics \<Rightarrow> Metrics" where
  "incrementSubscriptions m = m\<lparr>subscriptions_total := subscriptions_total m + 1\<rparr>"

definition incrementUnsubscriptions :: "Metrics \<Rightarrow> Metrics" where
  "incrementUnsubscriptions m = m\<lparr>unsubscriptions_total := unsubscriptions_total m + 1\<rparr>"

definition incrementConnections :: "Metrics \<Rightarrow> Metrics" where
  "incrementConnections m = m\<lparr>connections_total := connections_total m + 1\<rparr>"

definition incrementDisconnections :: "Metrics \<Rightarrow> Metrics" where
  "incrementDisconnections m = m\<lparr>disconnections_total := disconnections_total m + 1\<rparr>"

definition incrementAcks :: "Metrics \<Rightarrow> Metrics" where
  "incrementAcks m = m\<lparr>acks_total := acks_total m + 1\<rparr>"

definition incrementErrors :: "Metrics \<Rightarrow> Metrics" where
  "incrementErrors m = m\<lparr>errors_total := errors_total m + 1\<rparr>"

definition setActiveConnections :: "int \<Rightarrow> Metrics \<Rightarrow> Metrics" where
  "setActiveConnections count m = m\<lparr>m_active_connections := count\<rparr>"

definition setActiveSubscribers :: "int \<Rightarrow> Metrics \<Rightarrow> Metrics" where
  "setActiveSubscribers count m = m\<lparr>m_active_subscribers := count\<rparr>"

definition setTopicCount :: "int \<Rightarrow> Metrics \<Rightarrow> Metrics" where
  "setTopicCount count m = m\<lparr>m_topic_count := count\<rparr>"

definition recordLatency :: "LatencyHistogram \<Rightarrow> int \<Rightarrow> LatencyHistogram" where
  "recordLatency hist latency_us =
     (let h = hist\<lparr>h_count := h_count hist + 1, h_sum_us := h_sum_us hist + word_of_int latency_us\<rparr>
      in if latency_us < 100 then h\<lparr>bucket_lt_100us := bucket_lt_100us h + 1\<rparr>
         else if latency_us < 500 then h\<lparr>bucket_lt_500us := bucket_lt_500us h + 1\<rparr>
         else if latency_us < 1000 then h\<lparr>bucket_lt_1ms := bucket_lt_1ms h + 1\<rparr>
         else if latency_us < 5000 then h\<lparr>bucket_lt_5ms := bucket_lt_5ms h + 1\<rparr>
         else if latency_us < 10000 then h\<lparr>bucket_lt_10ms := bucket_lt_10ms h + 1\<rparr>
         else if latency_us < 50000 then h\<lparr>bucket_lt_50ms := bucket_lt_50ms h + 1\<rparr>
         else if latency_us < 100000 then h\<lparr>bucket_lt_100ms := bucket_lt_100ms h + 1\<rparr>
         else h\<lparr>bucket_inf := bucket_inf h + 1\<rparr>)"

definition recordPublishLatency :: "int \<Rightarrow> Metrics \<Rightarrow> Metrics" where
  "recordPublishLatency latency_us m = m\<lparr>publish_latency := recordLatency (publish_latency m) latency_us\<rparr>"

definition recordDeliveryLatency :: "int \<Rightarrow> Metrics \<Rightarrow> Metrics" where
  "recordDeliveryLatency latency_us m = m\<lparr>delivery_latency := recordLatency (delivery_latency m) latency_us\<rparr>"

text \<open>\<^verbatim>\<open>std::map::operator[]\<close> inserts zero for a new key.\<close>

definition om_get :: "'k \<Rightarrow> 'v::zero \<Rightarrow> ('k \<times> 'v) list \<Rightarrow> 'v" where
  "om_get k d m = (case map_of m k of Some v \<Rightarrow> v | None \<Rightarrow> d)"

definition incrementTopicMessages :: "bytes \<Rightarrow> Metrics \<Rightarrow> Metrics" where
  "incrementTopicMessages topic m =
     m\<lparr>topic_messages := om_put topic (om_get topic 0 (topic_messages m) + 1) (topic_messages m)\<rparr>"

definition incrementTopicSubscribers :: "bytes \<Rightarrow> Metrics \<Rightarrow> Metrics" where
  "incrementTopicSubscribers topic m =
     m\<lparr>m_topic_subscribers :=
         om_put topic (om_get topic 0 (m_topic_subscribers m) + 1) (m_topic_subscribers m)\<rparr>"

definition decrementTopicSubscribers :: "bytes \<Rightarrow> Metrics \<Rightarrow> Metrics" where
  "decrementTopicSubscribers topic m =
     (case map_of (m_topic_subscribers m) topic of
        None \<Rightarrow> m
      | Some n \<Rightarrow>
          let m1 = m\<lparr>m_topic_subscribers := om_put topic (n - 1) (m_topic_subscribers m)\<rparr>
          in if n - 1 \<le> 0 then m1\<lparr>m_topic_subscribers := om_del topic (m_topic_subscribers m1)\<rparr> else m1)"

definition metrics_reset :: "Metrics \<Rightarrow> Metrics" where
  "metrics_reset m =
     m\<lparr>messages_published_total := 0, messages_delivered_total := 0, subscriptions_total := 0,
       unsubscriptions_total := 0, connections_total := 0, disconnections_total := 0, acks_total := 0,
       errors_total := 0, m_active_connections := 0, m_active_subscribers := 0, m_topic_count := 0,
       topic_messages := [], m_topic_subscribers := []\<rparr>"

section \<open>Prometheus text\<close>

text \<open>
  \<^verbatim>\<open>sum / 1000000.0\<close> printed with \<^verbatim>\<open>std::fixed\<close> and \<^verbatim>\<open>setprecision(6)\<close>, in IEEE double arithmetic with
  rounding to nearest even: the conversion of the integer, the division and the decimal output each
  round. A double is a pair of an integer significand and a binary exponent.
\<close>

definition div_rne :: "nat \<Rightarrow> nat \<Rightarrow> nat" where
  "div_rne a b =
     (let q = a div b; r = a mod b
      in if 2 * r < b \<or> 2 * r = b \<and> even q then q else q + 1)"

fun bit_len :: "nat \<Rightarrow> nat" where
  "bit_len n = (if n = 0 then 0 else Suc (bit_len (n div 2)))"

declare bit_len.simps [simp del]

definition double_of_nat :: "nat \<Rightarrow> nat" where
  "double_of_nat n = (let k = bit_len n - 53 in div_rne n (2 ^ k) * 2 ^ k)"

text \<open>The quotient rounded to a significand of 53 bits, as \<open>m\<close> and \<open>k\<close> with value \<open>m / 2 ^ k\<close>.\<close>

definition double_div :: "nat \<Rightarrow> nat \<Rightarrow> nat \<times> nat" where
  "double_div a b =
     (if a = 0 then (0, 0)
      else
        let k = 53 + bit_len b - bit_len a;
            q = a * 2 ^ k div b;
            j = (if bit_len q = 54 then k - 1 else k)
        in (div_rne (a * 2 ^ j) b, j))"

definition pad6 :: "nat \<Rightarrow> bytes" where
  "pad6 n = replicate (6 - length (to_string n)) CHR ''0'' @ to_string n"

definition show_fixed6 :: "nat \<times> nat \<Rightarrow> bytes" where
  "show_fixed6 d = (let t = div_rne (fst d * 10 ^ 6) (2 ^ snd d) in to_string (t div 10 ^ 6) @ ''.'' @ pad6 (t mod 10 ^ 6))"

definition show_seconds :: "uint64 \<Rightarrow> bytes" where
  "show_seconds sum_us = show_fixed6 (double_div (double_of_nat (unat sum_us)) (10 ^ 6))"

definition nl :: bytes where "nl = [CHR 0x0A]"
definition quoted :: "bytes \<Rightarrow> bytes" where "quoted s = CHR 0x22 # s @ [CHR 0x22]"
definition show_u64 :: "uint64 \<Rightarrow> bytes" where "show_u64 w = to_string (unat w)"

text \<open>The running totals that \<^verbatim>\<open>exportHistogram\<close> prints, with the text of each bound.\<close>

definition hist_buckets :: "LatencyHistogram \<Rightarrow> (bytes \<times> uint64) list" where
  "hist_buckets h =
     [(''0.0001'', bucket_lt_100us h), (''0.0005'', bucket_lt_500us h), (''0.001'', bucket_lt_1ms h),
      (''0.005'', bucket_lt_5ms h), (''0.01'', bucket_lt_10ms h), (''0.05'', bucket_lt_50ms h),
      (''0.1'', bucket_lt_100ms h), (''+Inf'', bucket_inf h)]"

fun cumulate :: "uint64 \<Rightarrow> (bytes \<times> uint64) list \<Rightarrow> (bytes \<times> uint64) list" where
  "cumulate acc [] = []"
| "cumulate acc ((le, n) # bs) = (le, acc + n) # cumulate (acc + n) bs"

definition exportHistogram :: "bytes \<Rightarrow> bytes \<Rightarrow> LatencyHistogram \<Rightarrow> bytes" where
  "exportHistogram name help hist =
     ''# HELP '' @ name @ '' '' @ help @ nl @
     ''# TYPE '' @ name @ '' histogram'' @ nl @
     concat (map (\<lambda>(le, n). name @ ''_bucket{le='' @ quoted le @ ''} '' @ show_u64 n @ nl)
       (cumulate 0 (hist_buckets hist))) @
     name @ ''_sum '' @ show_seconds (h_sum_us hist) @ nl @
     name @ ''_count '' @ show_u64 (h_count hist) @ nl"

definition metric_block :: "bytes \<Rightarrow> bytes \<Rightarrow> bytes \<Rightarrow> bytes \<Rightarrow> bytes" where
  "metric_block name help kind val =
     ''# HELP '' @ name @ '' '' @ help @ nl @ ''# TYPE '' @ name @ '' '' @ kind @ nl @
     name @ '' '' @ val @ nl @ nl"

definition topic_block :: "bytes \<Rightarrow> bytes \<Rightarrow> bytes \<Rightarrow> ('a \<Rightarrow> bytes) \<Rightarrow> (bytes \<times> 'a) list \<Rightarrow> bytes" where
  "topic_block name help kind sh entries =
     (if entries = [] then []
      else ''# HELP '' @ name @ '' '' @ help @ nl @ ''# TYPE '' @ name @ '' '' @ kind @ nl @
        concat (map (\<lambda>(topic, count). name @ ''{topic='' @ quoted topic @ ''} '' @ sh count @ nl) entries) @ nl)"

text \<open>The process-wide part of the export, then the per-topic part under the topic mutex.\<close>

definition export_global :: "Metrics \<Rightarrow> bytes" where
  "export_global m =
     metric_block ''metricmq_messages_published_total'' ''Total number of messages published'' ''counter''
       (show_u64 (messages_published_total m)) @
     metric_block ''metricmq_messages_delivered_total'' ''Total number of messages delivered to subscribers''
       ''counter'' (show_u64 (messages_delivered_total m)) @
     metric_block ''metricmq_subscriptions_total'' ''Total number of subscriptions'' ''counter''
       (show_u64 (subscriptions_total m)) @
     metric_block ''metricmq_unsubscriptions_total'' ''Total number of unsubscriptions'' ''counter''
       (show_u64 (unsubscriptions_total m)) @
     metric_block ''metricmq_connections_total'' ''Total number of client connections'' ''counter''
       (show_u64 (connections_total m)) @
     metric_block ''metricmq_disconnections_total'' ''Total number of client disconnections'' ''counter''
       (show_u64 (disconnections_total m)) @
     metric_block ''metricmq_acks_total'' ''Total number of message acknowledgements'' ''counter''
       (show_u64 (acks_total m)) @
     metric_block ''metricmq_errors_total'' ''Total number of errors'' ''counter''
       (show_u64 (errors_total m)) @
     metric_block ''metricmq_active_connections'' ''Current number of active connections'' ''gauge''
       (show_int (m_active_connections m)) @
     metric_block ''metricmq_active_subscribers'' ''Current number of active subscribers'' ''gauge''
       (show_int (m_active_subscribers m)) @
     metric_block ''metricmq_topics'' ''Current number of topics with subscribers'' ''gauge''
       (show_int (m_topic_count m)) @
     exportHistogram ''metricmq_publish_latency_seconds'' ''Publish operation latency in seconds''
       (publish_latency m) @ nl @
     exportHistogram ''metricmq_delivery_latency_seconds'' ''Message delivery latency in seconds''
       (delivery_latency m) @ nl"

definition exportPrometheus :: "Metrics \<Rightarrow> bytes" where
  "exportPrometheus m =
     export_global m @
     topic_block ''metricmq_topic_messages_total'' ''Messages published per topic'' ''counter'' show_u64
       (topic_messages m) @
     topic_block ''metricmq_topic_subscribers'' ''Current subscribers per topic'' ''gauge'' show_int
       (m_topic_subscribers m)"

section \<open>Rounding\<close>

lemma div_rne_error:
  assumes "0 < b"
  shows "2 * (div_rne a b * b) \<le> 2 * a + b" "2 * a \<le> 2 * (div_rne a b * b) + b"
proof -
  define q where "q = a div b"
  define r where "r = a mod b"
  have a: "a = q * b + r" by (simp add: q_def r_def)
  have r: "r < b" using assms by (simp add: r_def)
  have "div_rne a b = (if 2 * r < b \<or> 2 * r = b \<and> even q then q else q + 1)"
    by (simp add: div_rne_def q_def r_def Let_def)
  then show "2 * (div_rne a b * b) \<le> 2 * a + b" "2 * a \<le> 2 * (div_rne a b * b) + b"
    using r by (auto simp: a distrib_right distrib_left split: if_splits)
qed

lemma div_rne_unique:
  assumes "2 * a < 2 * n * b + b" and "2 * n * b < 2 * a + b"
  shows "div_rne a b = n"
proof -
  have b: "0 < b" using assms by (cases b) auto
  define q where "q = div_rne a b"
  have "2 * (q * b) \<le> 2 * a + b" "2 * a \<le> 2 * (q * b) + b"
    unfolding q_def using div_rne_error [OF b] by auto
  then have "q * b < (n + 1) * b" "n * b < (q + 1) * b"
    using assms by (simp_all add: algebra_simps)
  then have "q < n + 1" "n < q + 1" by (meson mult_less_cancel2)+
  then show ?thesis by (simp add: q_def)
qed

lemma div_rne_1 [simp]: "div_rne n (Suc 0) = n"
  by (simp add: div_rne_def)

lemma bit_len_le: "n < 2 ^ k \<Longrightarrow> bit_len n \<le> k"
proof (induction k arbitrary: n)
  case (Suc k)
  then show ?case using Suc.IH [of "n div 2"] by (simp add: bit_len.simps [of n])
qed (simp add: bit_len.simps)

lemma bit_len_million: "bit_len 1000000 = 20"
  by (simp add: bit_len.simps)

section \<open>What the histogram counts\<close>

lemma cumulate_record:
  "cumulate 0 (hist_buckets (recordLatency h l)) =
     map2 (\<lambda>b (le, n). (le, n + (if l < b then 1 else 0)))
       [100, 500, 1000, 5000, 10000, 50000, 100000, max (l + 1) 100001] (cumulate 0 (hist_buckets h))"
  by (auto simp: recordLatency_def hist_buckets_def Let_def)

definition count_below :: "int list \<Rightarrow> int \<Rightarrow> uint64" where
  "count_below ls b = word_of_nat (length (filter (\<lambda>l. l < b) ls))"

lemma count_below_snoc: "count_below (ls @ [l]) b = count_below ls b + (if l < b then 1 else 0)"
  by (simp add: count_below_def)

lemma record_totals:
  "h_count (recordLatency h l) = h_count h + 1" "h_sum_us (recordLatency h l) = h_sum_us h + word_of_int l"
  by (simp_all add: recordLatency_def Let_def)

section \<open>Properties\<close>

text \<open>
  (C40) The histogram is exact: after any sequence of recordings the cumulative value printed for a bound
  is the number of latencies strictly below the bound (modulo \<open>2 ^ 64\<close>), the \<^verbatim>\<open>+Inf\<close> bucket and the count are
  the number of recordings, and the sum is the sum of the latencies.
\<close>

theorem histogram_exact:
  "cumulate 0 (hist_buckets (foldl recordLatency hist_zero ls)) =
     [(''0.0001'', count_below ls 100), (''0.0005'', count_below ls 500), (''0.001'', count_below ls 1000),
      (''0.005'', count_below ls 5000), (''0.01'', count_below ls 10000), (''0.05'', count_below ls 50000),
      (''0.1'', count_below ls 100000), (''+Inf'', word_of_nat (length ls))] \<and>
   h_count (foldl recordLatency hist_zero ls) = word_of_nat (length ls) \<and>
   h_sum_us (foldl recordLatency hist_zero ls) = word_of_int (sum_list ls)"
proof (induction ls rule: rev_induct)
  case Nil
  show ?case by (simp add: hist_zero_def hist_buckets_def count_below_def)
next
  case (snoc l ls)
  then show ?case
    by (simp add: cumulate_record record_totals count_below_snoc)
qed

text \<open>
  The printed sum is exact while it is below \<open>2 ^ 52\<close> microseconds (about 142 years of latency): the
  double arithmetic and the six decimals lose nothing.
\<close>

theorem show_seconds_exact:
  assumes "unat s < 2 ^ 52"
  shows "show_seconds s = to_string (unat s div 10 ^ 6) @ ''.'' @ pad6 (unat s mod 10 ^ 6)"
proof -
  define n where "n = unat s"
  have len: "bit_len n \<le> 52" using assms bit_len_le by (simp add: n_def)
  then have dbl: "double_of_nat n = n" by (simp add: double_of_nat_def)
  obtain m j where d: "double_div n (10 ^ 6) = (m, j)" by fastforce
  have "div_rne (m * 10 ^ 6) (2 ^ j) = n"
  proof (cases "n = 0")
    case True
    with d show ?thesis by (auto simp: double_div_def div_rne_def)
  next
    case False
    with d len have j: "20 \<le> j" and m: "m = div_rne (n * 2 ^ j) (10 ^ 6)"
      by (auto simp: double_div_def Let_def bit_len_million split: if_splits)
    have "(10 ^ 6 :: nat) < 2 ^ 20" by simp
    also have "(2 :: nat) ^ 20 \<le> 2 ^ j" using j by (rule power_increasing) simp
    finally have big: "(10 ^ 6 :: nat) < 2 ^ j" .
    have "2 * (m * 10 ^ 6) \<le> 2 * (n * 2 ^ j) + 10 ^ 6" "2 * (n * 2 ^ j) \<le> 2 * (m * 10 ^ 6) + 10 ^ 6"
      unfolding m using div_rne_error [of "10 ^ 6" "n * 2 ^ j"] by simp_all
    with big show ?thesis by (intro div_rne_unique) linarith+
  qed
  with d dbl show ?thesis
    by (simp add: show_seconds_def show_fixed6_def n_def Let_def)
qed

theorem show_seconds_exact_witness:
  "show_seconds 1500000 = to_string (unat (1500000 :: uint64) div 10 ^ 6) @ ''.'' @ pad6 (unat (1500000 :: uint64) mod 10 ^ 6)"
  by (rule show_seconds_exact) simp

text \<open>The per-topic maps are sorted and every subscriber gauge is positive.\<close>

definition metrics_inv :: "Metrics \<Rightarrow> bool" where
  "metrics_inv m \<longleftrightarrow> om_sorted (topic_messages m) \<and> om_sorted (m_topic_subscribers m) \<and>
     (\<forall>t n. map_of (m_topic_subscribers m) t = Some n \<longrightarrow> 0 < n)"

lemma metrics_inv_zero [simp]: "metrics_inv metrics_zero"
  by (simp add: metrics_inv_def metrics_zero_def)

text \<open>
  The per-topic subscriber gauge is a counter that disappears at zero: counting up and down change the
  value of that topic by one and no other, an entry whose value would reach zero is removed, and no
  entry is ever zero or negative.
\<close>

theorem topic_gauge_behaviour:
  assumes "metrics_inv m"
  shows "metrics_inv (incrementTopicSubscribers t m) \<and> metrics_inv (decrementTopicSubscribers t m) \<and>
    om_get u 0 (m_topic_subscribers (incrementTopicSubscribers t m)) =
      om_get u 0 (m_topic_subscribers m) + (if u = t then 1 else 0) \<and>
    om_get u 0 (m_topic_subscribers (decrementTopicSubscribers t m)) =
      om_get u 0 (m_topic_subscribers m) - (if u = t \<and> 0 < om_get t 0 (m_topic_subscribers m) then 1 else 0)"
proof -
  have sorted: "om_sorted (m_topic_subscribers m)" using assms by (simp add: metrics_inv_def)
  have pos: "0 < n" if "map_of (m_topic_subscribers m) v = Some n" for v n
    using that assms by (simp add: metrics_inv_def)
  have up: "metrics_inv (incrementTopicSubscribers t m)"
    using assms pos unfolding metrics_inv_def incrementTopicSubscribers_def om_get_def
    by (auto simp del: map_of_eq_Some_iff split: option.splits if_splits) (smt (verit) pos)+
  have down: "metrics_inv (decrementTopicSubscribers t m)"
    using assms unfolding metrics_inv_def decrementTopicSubscribers_def
    by (auto simp: Let_def simp del: map_of_eq_Some_iff split: option.splits if_splits)
  show ?thesis
    using up down sorted pos [of t]
    by (auto simp: om_get_def incrementTopicSubscribers_def decrementTopicSubscribers_def Let_def
        simp del: map_of_eq_Some_iff split: option.splits) 
qed

theorem topic_gauge_behaviour_witness:
  "metrics_inv (decrementTopicSubscribers ''a'' (incrementTopicSubscribers ''a'' metrics_zero))"
  using topic_gauge_behaviour [of "incrementTopicSubscribers ''a'' metrics_zero" "''a''"]
    topic_gauge_behaviour [of metrics_zero "''a''"] by simp

text \<open>
  \<^verbatim>\<open>reset\<close> returns every counter, gauge and per-topic map to its initial value but keeps both latency
  histograms, which its documentation says it clears.
\<close>

theorem reset_keeps_histograms:
  "metrics_reset m = metrics_zero\<lparr>publish_latency := publish_latency m, delivery_latency := delivery_latency m\<rparr>"
  by (simp add: metrics_reset_def metrics_zero_def)

text \<open>
  Topic names enter the export verbatim, between quotes and without escaping, whatever bytes they
  hold: a quote or a line feed in a topic ends the label or the line.
\<close>

theorem topic_label_unescaped:
  "\<exists>pre n post. exportPrometheus (incrementTopicMessages topic m) =
     pre @ ''metricmq_topic_messages_total{topic='' @ quoted topic @ ''} '' @ show_u64 n @ nl @ post"
proof -
  let ?m = "incrementTopicMessages topic m"
  have "topic \<in> fst ` set (topic_messages ?m)"
    using keys_om_put [of topic _ "topic_messages m"] by (simp add: incrementTopicMessages_def)
  then obtain n xs ys where es: "topic_messages ?m = xs @ (topic, n) # ys"
    by (metis (no_types, lifting) imageE prod.collapse split_list)
  define line where "line = (\<lambda>(topic, count). ''metricmq_topic_messages_total{topic='' @ quoted topic @ ''} '' @ show_u64 count @ nl)"
  have "topic_block ''metricmq_topic_messages_total'' hlp kind show_u64 (topic_messages ?m) =
      (''# HELP '' @ ''metricmq_topic_messages_total'' @ '' '' @ hlp @ nl @
       ''# TYPE '' @ ''metricmq_topic_messages_total'' @ '' '' @ kind @ nl @ concat (map line xs)) @
      line (topic, n) @ concat (map line ys) @ nl" for hlp kind
    by (simp add: topic_block_def es line_def)
  then obtain p q where tb: "topic_block ''metricmq_topic_messages_total'' ''Messages published per topic''
      ''counter'' show_u64 (topic_messages ?m) = p @ line (topic, n) @ q"
    by blast
  have ln: "line (topic, n) = ''metricmq_topic_messages_total{topic='' @ quoted topic @ ''} '' @ show_u64 n @ nl"
    by (simp add: line_def)
  let ?q = "q @ topic_block ''metricmq_topic_subscribers'' ''Current subscribers per topic'' ''gauge'' show_int
    (m_topic_subscribers ?m)"
  have "exportPrometheus ?m = (export_global ?m @ p) @ ''metricmq_topic_messages_total{topic='' @
      quoted topic @ ''} '' @ show_u64 n @ nl @ ?q"
    by (simp only: exportPrometheus_def tb ln append_assoc)
  then show ?thesis by blast
qed

end
