(* ===== verification/Broker.thy ===== *)
theory Broker
  imports Ack_Set Lmdb_Storage Metrics
begin

text \<open>
  \<^verbatim>\<open>Broker\<close> of \<^verbatim>\<open>src/broker.hpp\<close> and \<^verbatim>\<open>src/broker.cpp\<close>: topic subscriptions, fan-out, sequence numbers,
  persistence, acknowledgements and the connection table. A session pointer is a number. Every method
  runs under the broker mutex and is one atomic function of the state; \<^verbatim>\<open>subscribe\<close> and
  \<^verbatim>\<open>replayMessagesForClient\<close> read the store after releasing it and are treated as one step as well. The
  calls of \<^verbatim>\<open>Session::send\<close> are recorded in order in \<open>sent\<close>; the process-wide \<^verbatim>\<open>Metrics\<close> object is a
  component of the state. A method that lets an exception escape returns it beside the state.
\<close>

section \<open>State\<close>

type_synonym session_id = nat

definition MAX_STORED_MESSAGES :: uint64 where "MAX_STORED_MESSAGES = 100000"
definition COMPACT_EVERY :: uint64 where "COMPACT_EVERY = 1000"
definition MAX_CONNECTIONS :: nat where "MAX_CONNECTIONS = 1000"

record 'e Broker =
  b_sessions :: "session_id list"
  topic_subscribers :: "(bytes \<times> session_id list) list"
  persistence :: "'e option"
  client_acks :: "(bytes \<times> BoundedAckSet) list"
  last_ack_seq :: "(bytes \<times> uint64) list"
  client_sessions :: "(bytes \<times> session_id) list"
  current_sequence :: uint64
  publish_count :: uint64
  active_connections :: uint64
  shutdown_requested :: bool
  server_fd :: int
  b_metrics :: Metrics
  sent :: "(session_id \<times> bytes) list"

text \<open>
  The constructor opens the store, which can throw, and restores the sequence counter from it.
\<close>

definition broker_new :: "('e, 't) lmdb \<Rightarrow> 'e \<Rightarrow> 'e Broker" where
  "broker_new L e =
     \<lparr>b_sessions = [], topic_subscribers = [], persistence = Some e, client_acks = [], last_ack_seq = [],
      client_sessions = [], current_sequence = get_last_seq L e, publish_count = 0,
      active_connections = 0, shutdown_requested = False, server_fd = - 1, b_metrics = metrics_zero,
      sent = []\<rparr>"

definition Broker_ctor ::
    "('e, 't) lmdb \<Rightarrow> (int \<Rightarrow> string) \<Rightarrow> int \<Rightarrow> int \<Rightarrow> int \<Rightarrow> int \<Rightarrow> int \<Rightarrow> 'e \<Rightarrow> exn + 'e Broker" where
  "Broker_ctor L mdb_strerror rc_create rc_open rc_begin rc_dbi rc_commit e =
     thenE (open_storage mdb_strerror rc_create rc_open rc_begin rc_dbi rc_commit) (\<lambda>_. Inr (broker_new L e))"

definition send_to :: "session_id \<Rightarrow> bytes \<Rightarrow> 'e Broker \<Rightarrow> 'e Broker" where
  "send_to s data b = b\<lparr>sent := sent b @ [(s, data)]\<rparr>"

definition subscribers :: "'e Broker \<Rightarrow> bytes \<Rightarrow> session_id list" where
  "subscribers b topic = (case map_of (topic_subscribers b) topic of Some ss \<Rightarrow> ss | None \<Rightarrow> [])"

definition countTotalSubscribers :: "'e Broker \<Rightarrow> nat" where
  "countTotalSubscribers b = foldl (\<lambda>count (topic, ss). count + length ss) 0 (topic_subscribers b)"

definition update_metrics :: "(Metrics \<Rightarrow> Metrics) \<Rightarrow> 'e Broker \<Rightarrow> 'e Broker" where
  "update_metrics f b = b\<lparr>b_metrics := f (b_metrics b)\<rparr>"

section \<open>Subscriptions\<close>

definition set_add :: "'a \<Rightarrow> 'a list \<Rightarrow> 'a list" where
  "set_add x xs = (if x \<in> set xs then xs else xs @ [x])"

definition set_remove :: "'a \<Rightarrow> 'a list \<Rightarrow> 'a list" where
  "set_remove x xs = filter (\<lambda>y. y \<noteq> x) xs"

text \<open>\<^verbatim>\<open>replayMessages\<close>: the bound wraps in 64 bits as in the source.\<close>

definition replayMessages ::
    "('e, 't) lmdb \<Rightarrow> 'e Broker \<Rightarrow> session_id \<Rightarrow> bytes \<Rightarrow> uint64 \<Rightarrow> 'e Broker \<times> exn option" where
  "replayMessages L b s topic from_seq =
     (case persistence b of
        None \<Rightarrow> (b, None)
      | Some e \<Rightarrow>
          (case load_range L e from_seq (from_seq + MAX_STORED_MESSAGES) of
             Inl x \<Rightarrow> (b, Some x)
           | Inr messages \<Rightarrow>
               (foldl (\<lambda>b (seq, msg_topic, msg_payload).
                  if msg_topic = topic then send_to s msg_payload b else b) b messages, None)))"

definition subscribe_locked :: "'e Broker \<Rightarrow> session_id \<Rightarrow> bytes \<Rightarrow> 'e Broker" where
  "subscribe_locked b s topic =
     (let b1 = b\<lparr>topic_subscribers := AList.update topic (set_add s (subscribers b topic)) (topic_subscribers b)\<rparr>;
          b2 = update_metrics incrementSubscriptions b1;
          b3 = update_metrics (incrementTopicSubscribers topic) b2;
          b4 = update_metrics (setActiveSubscribers (int (countTotalSubscribers b3))) b3
      in update_metrics (setTopicCount (int (length (topic_subscribers b4)))) b4)"

definition subscribe ::
    "('e, 't) lmdb \<Rightarrow> 'e Broker \<Rightarrow> session_id \<Rightarrow> bytes \<Rightarrow> 'e Broker \<times> exn option" where
  "subscribe L b s topic = replayMessages L (subscribe_locked b s topic) s topic 0"

definition unsubscribe :: "'e Broker \<Rightarrow> session_id \<Rightarrow> bytes \<Rightarrow> 'e Broker" where
  "unsubscribe b s topic =
     (case map_of (topic_subscribers b) topic of
        None \<Rightarrow> b
      | Some ss \<Rightarrow>
          let rest = set_remove s ss;
              b1 = b\<lparr>topic_subscribers := AList.update topic rest (topic_subscribers b)\<rparr>;
              b2 = update_metrics incrementUnsubscriptions b1;
              b3 = update_metrics (decrementTopicSubscribers topic) b2;
              b4 = update_metrics (setActiveSubscribers (int (countTotalSubscribers b3))) b3
          in if rest = [] then
               (let b5 = b4\<lparr>topic_subscribers := AList.delete topic (topic_subscribers b4)\<rparr>
                in update_metrics (setTopicCount (int (length (topic_subscribers b5)))) b5)
             else b4)"

section \<open>Publishing\<close>

definition runCompactionIfDue :: "('e, 't) lmdb \<Rightarrow> 'e Broker \<Rightarrow> 'e Broker" where
  "runCompactionIfDue L b =
     (case persistence b of
        None \<Rightarrow> b
      | Some e \<Rightarrow>
          if current_sequence b \<le> MAX_STORED_MESSAGES then b
          else
            let threshold = current_sequence b - MAX_STORED_MESSAGES
            in b\<lparr>persistence := Some (purge_old_acks L (compact L e threshold) threshold)\<rparr>)"

definition fan_out :: "bytes \<Rightarrow> 'e Broker \<Rightarrow> session_id list \<Rightarrow> 'e Broker" where
  "fan_out payload b ss = foldl (\<lambda>b s. send_to s payload b) b ss"

text \<open>
  \<^verbatim>\<open>publish\<close>; the measured latency is the value of \<open>lat\<close> at the new sequence number. The \<^verbatim>\<open>delivered\<close>
  total is only logged.
\<close>

definition publish :: "('e, 't) lmdb \<Rightarrow> (uint64 \<Rightarrow> int) \<Rightarrow> 'e Broker \<Rightarrow> bytes \<Rightarrow> bytes \<Rightarrow> 'e Broker \<times> uint64" where
  "publish L lat b topic payload =
     (let seq = current_sequence b + 1;
          b1 = b\<lparr>current_sequence := seq\<rparr>;
          b2 = (case persistence b1 of
                  None \<Rightarrow> b1
                | Some e \<Rightarrow> b1\<lparr>persistence := Some (save L e seq topic payload)\<rparr>);
          b3 = b2\<lparr>publish_count := publish_count b2 + 1\<rparr>;
          b4 = (if publish_count b3 mod COMPACT_EVERY = 0 then runCompactionIfDue L b3 else b3);
          b5 = (case map_of (topic_subscribers b4) topic of
                  None \<Rightarrow> b4 | Some ss \<Rightarrow> fan_out payload b4 ss);
          b6 = (case map_of (topic_subscribers b5) ''#'' of
                  None \<Rightarrow> b5 | Some ss \<Rightarrow> fan_out payload b5 ss);
          b7 = update_metrics incrementPublished b6;
          b8 = update_metrics (incrementTopicMessages topic) b7;
          b9 = update_metrics incrementDelivered b8
      in (update_metrics (recordPublishLatency (lat seq)) b9, seq))"

section \<open>Connections\<close>

definition removeSession :: "'e Broker \<Rightarrow> session_id \<Rightarrow> 'e Broker" where
  "removeSession b s =
     (let b1 = b\<lparr>topic_subscribers := map (\<lambda>(t, ss). (t, set_remove s ss)) (topic_subscribers b)\<rparr>;
          b2 = b1\<lparr>topic_subscribers := filter (\<lambda>(t, ss). ss \<noteq> []) (topic_subscribers b1)\<rparr>;
          b3 = b2\<lparr>b_sessions := filter (\<lambda>x. x \<noteq> s) (b_sessions b2)\<rparr>;
          b4 = b3\<lparr>active_connections := active_connections b3 - 1\<rparr>;
          b5 = update_metrics incrementDisconnections b4;
          b6 = update_metrics (setActiveConnections (int (length (b_sessions b5)))) b5;
          b7 = update_metrics (setActiveSubscribers (int (countTotalSubscribers b6))) b6
      in update_metrics (setTopicCount (int (length (topic_subscribers b7)))) b7)"

text \<open>
  One iteration of the accept loop of \<^verbatim>\<open>run\<close>, by the outcome of \<^verbatim>\<open>select\<close> and \<^verbatim>\<open>accept\<close>. \<open>Accepted s\<close> is
  a new connection whose session object, if one is made, is \<open>s\<close>. The result says whether the loop
  goes on.
\<close>

datatype accept_event = Select_error | Select_timeout | Not_ready | Accept_failed | Accepted session_id

definition accept_step :: "'e Broker \<Rightarrow> accept_event \<Rightarrow> 'e Broker \<times> bool" where
  "accept_step b ev =
     (case ev of
        Select_error \<Rightarrow> (b, False)
      | Select_timeout \<Rightarrow> (b, True)
      | Not_ready \<Rightarrow> (b, True)
      | Accept_failed \<Rightarrow> (b, True)
      | Accepted s \<Rightarrow>
          if of_nat MAX_CONNECTIONS \<le> active_connections b then (b, True)
          else
            let b1 = b\<lparr>b_sessions := b_sessions b @ [s]\<rparr>;
                b2 = b1\<lparr>active_connections := active_connections b1 + 1\<rparr>;
                b3 = update_metrics incrementConnections b2
            in (update_metrics (setActiveConnections (int (length (b_sessions b3)))) b3, True))"

fun accept_loop :: "'e Broker \<Rightarrow> accept_event list \<Rightarrow> 'e Broker" where
  "accept_loop b [] = b"
| "accept_loop b (ev # evs) =
     (if shutdown_requested b then b
      else case accept_step b ev of
             (b', True) \<Rightarrow> accept_loop b' evs
           | (b', False) \<Rightarrow> b')"

text \<open>The start of \<^verbatim>\<open>run\<close>: the results of \<^verbatim>\<open>socket\<close>, \<^verbatim>\<open>bind\<close> and \<^verbatim>\<open>listen\<close> decide whether the loop is entered.\<close>

definition broker_run :: "'e Broker \<Rightarrow> int \<Rightarrow> int \<Rightarrow> int \<Rightarrow> accept_event list \<Rightarrow> 'e Broker" where
  "broker_run b fd bind_rc listen_rc evs =
     (if fd < 0 then b
      else if bind_rc < 0 then b
      else if listen_rc < 0 then b
      else accept_loop (b\<lparr>server_fd := fd\<rparr>) evs)"

definition stop :: "'e Broker \<Rightarrow> 'e Broker" where
  "stop b =
     (let b1 = b\<lparr>shutdown_requested := True\<rparr>;
          b2 = (if server_fd b1 \<noteq> - 1 then b1\<lparr>server_fd := - 1\<rparr> else b1)
      in case persistence b2 of Some e \<Rightarrow> b2\<lparr>persistence := None\<rparr> | None \<Rightarrow> b2)"

section \<open>Acknowledgements\<close>

definition acks_of :: "'e Broker \<Rightarrow> bytes \<Rightarrow> BoundedAckSet" where
  "acks_of b c = (case map_of (client_acks b) c of Some a \<Rightarrow> a | None \<Rightarrow> ack_new)"

text \<open>\<^verbatim>\<open>operator[]\<close> creates the entry in both maps.\<close>

definition handleAck :: "('e, 't) lmdb \<Rightarrow> 'e Broker \<Rightarrow> bytes \<Rightarrow> uint64 \<Rightarrow> 'e Broker" where
  "handleAck L b client_id sequence =
     (let b1 = b\<lparr>client_acks := AList.update client_id (ack_insert (acks_of b client_id) sequence) (client_acks b)\<rparr>;
          last = (case map_of (last_ack_seq b1) client_id of Some n \<Rightarrow> n | None \<Rightarrow> 0);
          b2 = b1\<lparr>last_ack_seq := AList.update client_id (if last < sequence then sequence else last) (last_ack_seq b1)\<rparr>;
          b3 = (case persistence b2 of
                  None \<Rightarrow> b2
                | Some e \<Rightarrow> b2\<lparr>persistence := Some (save_ack L e client_id sequence)\<rparr>)
      in update_metrics incrementAcks b3)"

definition getLastSequence :: "'e Broker \<Rightarrow> uint64" where
  "getLastSequence b = current_sequence b"

definition getLastAck :: "'e Broker \<Rightarrow> bytes \<Rightarrow> uint64" where
  "getLastAck b client_id = (case map_of (last_ack_seq b) client_id of Some n \<Rightarrow> n | None \<Rightarrow> 0)"

definition isAcked :: "'e Broker \<Rightarrow> bytes \<Rightarrow> uint64 \<Rightarrow> bool" where
  "isAcked b client_id sequence =
     (case map_of (client_acks b) client_id of Some a \<Rightarrow> ack_contains a sequence | None \<Rightarrow> False)"

text \<open>
  \<^verbatim>\<open>registerClient\<close>; \<open>ord\<close> is the iteration order of \<^verbatim>\<open>std::unordered_set<uint64_t>\<close>, which the standard
  leaves open.
\<close>

definition registerClient ::
    "('e, 't) lmdb \<Rightarrow> (uint64 set \<Rightarrow> uint64 list) \<Rightarrow> 'e Broker \<Rightarrow> bytes \<Rightarrow> session_id \<Rightarrow> 'e Broker" where
  "registerClient L ord b client_id s =
     (let b1 = b\<lparr>client_sessions := AList.update client_id s (client_sessions b)\<rparr>
      in case persistence b1 of
           None \<Rightarrow> b1
         | Some e \<Rightarrow>
             let bounded = foldl ack_insert (acks_of b1 client_id) (ord (load_acks L e client_id));
                 b2 = b1\<lparr>client_acks := AList.update client_id bounded (client_acks b1)\<rparr>
             in if ack_empty bounded then b2
                else b2\<lparr>last_ack_seq := AList.update client_id (ack_max_seq bounded) (last_ack_seq b2)\<rparr>)"

definition unregisterClient :: "'e Broker \<Rightarrow> bytes \<Rightarrow> 'e Broker" where
  "unregisterClient b client_id = b\<lparr>client_sessions := AList.delete client_id (client_sessions b)\<rparr>"

definition replayMessagesForClient ::
    "('e, 't) lmdb \<Rightarrow> 'e Broker \<Rightarrow> session_id \<Rightarrow> bytes \<Rightarrow> bytes \<Rightarrow> 'e Broker \<times> exn option" where
  "replayMessagesForClient L b s topic client_id =
     (let last_ack = getLastAck b client_id
      in case persistence b of
           None \<Rightarrow> (b, None)
         | Some e \<Rightarrow>
             (case load_range L e (last_ack + 1) (last_ack + MAX_STORED_MESSAGES) of
                Inl x \<Rightarrow> (b, Some x)
              | Inr messages \<Rightarrow>
                  (foldl (\<lambda>b (seq, msg_topic, msg_payload).
                     if msg_topic = topic \<and> \<not> isAcked b client_id seq then send_to s msg_payload b else b)
                     b messages, None)))"

section \<open>Effect of the operations\<close>

lemma set_add_props [simp]:
  "set (set_add x xs) = insert x (set xs)" "set_add x xs \<noteq> []" "distinct (set_add x xs) = distinct xs"
  by (auto simp: set_add_def)

lemma set_remove_props [simp]:
  "set (set_remove x xs) = set xs - {x}" "distinct xs \<Longrightarrow> distinct (set_remove x xs)"
  by (auto simp: set_remove_def)

lemma send_to_eq: "send_to s d b = b\<lparr>sent := sent b @ [(s, d)]\<rparr>"
  by (simp add: send_to_def)

lemma fan_out_eq: "fan_out p b ss = b\<lparr>sent := sent b @ map (\<lambda>s. (s, p)) ss\<rparr>"
  unfolding fan_out_def
  by (induction ss arbitrary: b) (simp_all add: send_to_def)

lemma foldl_sent:
  assumes "\<And>b m. m \<in> set ms \<Longrightarrow> \<exists>out. f b m = b\<lparr>sent := sent b @ out\<rparr> \<and> fst ` set out \<subseteq> {s}"
  shows "\<exists>out. foldl f b ms = b\<lparr>sent := sent b @ out\<rparr> \<and> fst ` set out \<subseteq> {s}"
  using assms
proof (induction ms arbitrary: b)
  case Nil
  then show ?case by (intro exI [of _ "[]"]) simp
next
  case (Cons m ms)
  obtain out1 where 1: "f b m = b\<lparr>sent := sent b @ out1\<rparr>" "fst ` set out1 \<subseteq> {s}"
    using Cons.prems [of m b] by auto
  obtain out2 where 2: "foldl f (f b m) ms = (f b m)\<lparr>sent := sent (f b m) @ out2\<rparr>" "fst ` set out2 \<subseteq> {s}"
    using Cons.IH [of "f b m"] Cons.prems by auto
  have "foldl f b (m # ms) = b\<lparr>sent := sent b @ (out1 @ out2)\<rparr>"
    using 2(1) by (simp add: 1(1))
  with 1(2) 2(2) show ?case by (intro exI [of _ "out1 @ out2"]) (simp add: image_Un)
qed

text \<open>Replaying sends to the one session only and changes nothing else.\<close>

lemma replay_eq:
  obtains out where "fst (replayMessages L b s topic n) = b\<lparr>sent := sent b @ out\<rparr>" "fst ` set out \<subseteq> {s}"
proof (cases "persistence b")
  case None
  then show ?thesis by (intro that [of "[]"]) (simp_all add: replayMessages_def)
next
  case (Some e)
  show ?thesis
  proof (cases "load_range L e n (n + MAX_STORED_MESSAGES)")
    case (Inl x)
    with Some show ?thesis by (intro that [of "[]"]) (simp_all add: replayMessages_def)
  next
    case (Inr ms)
    let ?f = "\<lambda>b (seq, msg_topic, msg_payload). if msg_topic = topic then send_to s msg_payload b else b"
    have step: "\<exists>out. ?f b m = b\<lparr>sent := sent b @ out\<rparr> \<and> fst ` set out \<subseteq> {s}" for b :: "'a Broker" and m
      by (cases m) (auto simp: send_to_eq intro: exI [of _ "[]"])
    have "\<exists>out. foldl ?f b ms = b\<lparr>sent := sent b @ out\<rparr> \<and> fst ` set out \<subseteq> {s}"
      by (rule foldl_sent) (rule step)
    with Some Inr show ?thesis by (auto simp: replayMessages_def intro: that)
  qed
qed

lemma replay_client_eq:
  obtains out where "fst (replayMessagesForClient L b s topic c) = b\<lparr>sent := sent b @ out\<rparr>" "fst ` set out \<subseteq> {s}"
proof (cases "persistence b")
  case None
  then show ?thesis by (intro that [of "[]"]) (simp_all add: replayMessagesForClient_def)
next
  case (Some e)
  show ?thesis
  proof (cases "load_range L e (getLastAck b c + 1) (getLastAck b c + MAX_STORED_MESSAGES)")
    case (Inl x)
    with Some show ?thesis by (intro that [of "[]"]) (simp_all add: replayMessagesForClient_def)
  next
    case (Inr ms)
    let ?f = "\<lambda>b (seq, msg_topic, msg_payload).
      if msg_topic = topic \<and> \<not> isAcked b c seq then send_to s msg_payload b else b"
    have step: "\<exists>out. ?f b m = b\<lparr>sent := sent b @ out\<rparr> \<and> fst ` set out \<subseteq> {s}" for b :: "'a Broker" and m
      by (cases m) (auto simp: send_to_eq intro: exI [of _ "[]"])
    have "\<exists>out. foldl ?f b ms = b\<lparr>sent := sent b @ out\<rparr> \<and> fst ` set out \<subseteq> {s}"
      by (rule foldl_sent) (rule step)
    with Some Inr show ?thesis by (auto simp: replayMessagesForClient_def Let_def intro: that)
  qed
qed

lemma subscribers_frame [simp]:
  "subscribers (b\<lparr>sent := x\<rparr>) t = subscribers b t" "subscribers (b\<lparr>current_sequence := n\<rparr>) t = subscribers b t"
  "subscribers (b\<lparr>persistence := e\<rparr>) t = subscribers b t" "subscribers (b\<lparr>publish_count := n\<rparr>) t = subscribers b t"
  "subscribers (b\<lparr>b_metrics := m\<rparr>) t = subscribers b t"
  by (simp_all add: subscribers_def)

lemma send_stage:
  "(case map_of (topic_subscribers b) t of None \<Rightarrow> b | Some ss \<Rightarrow> fan_out p b ss) =
     b\<lparr>sent := sent b @ map (\<lambda>s. (s, p)) (subscribers b t)\<rparr>"
  by (simp add: fan_out_eq subscribers_def split: option.split)

text \<open>The effect of \<^verbatim>\<open>publish\<close> on the store, and the whole effect in one record update.\<close>

definition publish_store :: "('e, 't) lmdb \<Rightarrow> 'e Broker \<Rightarrow> bytes \<Rightarrow> bytes \<Rightarrow> 'e option" where
  "publish_store L b topic payload =
     (case persistence b of
        None \<Rightarrow> None
      | Some e \<Rightarrow>
          let n = current_sequence b + 1; e1 = save L e n topic payload
          in if (publish_count b + 1) mod COMPACT_EVERY = 0 \<and> MAX_STORED_MESSAGES < n
             then Some (purge_old_acks L (compact L e1 (n - MAX_STORED_MESSAGES)) (n - MAX_STORED_MESSAGES))
             else Some e1)"

lemma publish_eq:
  "publish L lat b topic payload =
     (b\<lparr>current_sequence := current_sequence b + 1,
        persistence := publish_store L b topic payload,
        publish_count := publish_count b + 1,
        sent := sent b @ map (\<lambda>s. (s, payload)) (subscribers b topic @ subscribers b ''#''),
        b_metrics := recordPublishLatency (lat (current_sequence b + 1))
          (incrementDelivered (incrementTopicMessages topic (incrementPublished (b_metrics b))))\<rparr>,
      current_sequence b + 1)"
proof -
  define n where "n = current_sequence b + 1"
  define b2 where "b2 = (case persistence (b\<lparr>current_sequence := n\<rparr>) of
      None \<Rightarrow> b\<lparr>current_sequence := n\<rparr>
    | Some e \<Rightarrow> b\<lparr>current_sequence := n, persistence := Some (save L e n topic payload)\<rparr>)"
  define b3 where "b3 = b2\<lparr>publish_count := publish_count b2 + 1\<rparr>"
  define b4 where "b4 = (if publish_count b3 mod COMPACT_EVERY = 0 then runCompactionIfDue L b3 else b3)"
  have b4: "b4 = b\<lparr>current_sequence := n, persistence := publish_store L b topic payload, publish_count := publish_count b + 1\<rparr>"
    by (cases "persistence b")
      (simp_all add: b4_def b3_def b2_def publish_store_def runCompactionIfDue_def n_def Let_def not_le)
  show ?thesis
    unfolding publish_def Let_def n_def [symmetric] b2_def [symmetric] b3_def [symmetric] b4_def [symmetric]
      send_stage update_metrics_def
    by (simp add: b4)
qed

lemma map_of_removed:
  assumes "distinct (map fst xs)"
  shows "map_of (filter (\<lambda>(t, ss). ss \<noteq> []) (map (\<lambda>(t, ss). (t, set_remove s ss)) xs)) t =
       (case map_of xs t of
          None \<Rightarrow> None
        | Some ss \<Rightarrow> if set_remove s ss = [] then None else Some (set_remove s ss))"
  using assms
proof (induction xs)
  case (Cons x xs)
  obtain k v where x: "x = (k, v)" by fastforce
  show ?case
  proof (cases "k = t")
    case True
    with Cons.prems have "map_of xs t = None" by (simp add: x map_of_eq_None_iff)
    with Cons True show ?thesis by (simp add: x)
  qed (use Cons in \<open>simp add: x\<close>)
qed simp

lemma distinct_removed:
  "distinct (map fst xs) \<Longrightarrow>
     distinct (map fst (filter (\<lambda>(t, ss). ss \<noteq> []) (map (\<lambda>(t, ss). (t, set_remove s ss)) xs)))"
  by (rule distinct_map_filter) (simp add: comp_def case_prod_beta)

section \<open>Invariant\<close>

text \<open>
  The connection table is consistent and capped; topics have distinct live subscribers and no topic
  is empty; the cached last acknowledgement is the maximum of the client's set; the gauges of the
  metrics show the current tables.
\<close>

definition conn_inv :: "'e Broker \<Rightarrow> bool" where
  "conn_inv b \<longleftrightarrow> distinct (b_sessions b) \<and> length (b_sessions b) \<le> MAX_CONNECTIONS \<and>
     active_connections b = word_of_nat (length (b_sessions b))"

definition topics_inv :: "'e Broker \<Rightarrow> bool" where
  "topics_inv b \<longleftrightarrow> distinct (map fst (topic_subscribers b)) \<and>
     (\<forall>t ss. map_of (topic_subscribers b) t = Some ss \<longrightarrow>
        ss \<noteq> [] \<and> distinct ss \<and> set ss \<subseteq> set (b_sessions b))"

definition acks_inv :: "'e Broker \<Rightarrow> bool" where
  "acks_inv b \<longleftrightarrow> (\<forall>c. ack_inv (acks_of b c) \<and> getLastAck b c = ack_max_seq (acks_of b c))"

definition gauges_inv :: "'e Broker \<Rightarrow> bool" where
  "gauges_inv b \<longleftrightarrow>
     m_active_connections (b_metrics b) = int (length (b_sessions b)) \<and>
     m_active_subscribers (b_metrics b) = int (countTotalSubscribers b) \<and>
     m_topic_count (b_metrics b) = int (length (topic_subscribers b))"

definition broker_inv :: "'e Broker \<Rightarrow> bool" where
  "broker_inv b \<longleftrightarrow> conn_inv b \<and> topics_inv b \<and> acks_inv b \<and> gauges_inv b"

lemmas inv_defs = broker_inv_def conn_inv_def topics_inv_def acks_inv_def gauges_inv_def

lemmas metric_op_defs =
  incrementPublished_def incrementDelivered_def incrementSubscriptions_def incrementUnsubscriptions_def
  incrementConnections_def incrementDisconnections_def incrementAcks_def incrementErrors_def
  setActiveConnections_def setActiveSubscribers_def setTopicCount_def recordPublishLatency_def
  incrementTopicMessages_def incrementTopicSubscribers_def

lemma decrement_gauges [simp]:
  "m_active_connections (decrementTopicSubscribers t m) = m_active_connections m"
  "m_active_subscribers (decrementTopicSubscribers t m) = m_active_subscribers m"
  "m_topic_count (decrementTopicSubscribers t m) = m_topic_count m"
  by (simp_all add: decrementTopicSubscribers_def Let_def split: option.split)

lemma subscribers_inv:
  "topics_inv b \<Longrightarrow> distinct (subscribers b t) \<and> set (subscribers b t) \<subseteq> set (b_sessions b)"
  by (cases "map_of (topic_subscribers b) t")
    (auto simp: topics_inv_def subscribers_def simp del: map_of_eq_Some_iff)

text \<open>An update of \<open>sent\<close> alone is invisible to the invariant.\<close>

lemma inv_sent [simp]: "broker_inv (b\<lparr>sent := x\<rparr>) = broker_inv b"
  by (simp add: inv_defs acks_of_def getLastAck_def countTotalSubscribers_def)

lemma total_eq_sum: "countTotalSubscribers b = sum_list (map (\<lambda>e. length (snd e)) (topic_subscribers b))"
proof -
  have "foldl (\<lambda>n (t, ss). n + length ss) k xs = k + sum_list (map (\<lambda>e. length (snd e)) xs)"
    for k and xs :: "(bytes \<times> session_id list) list"
    by (induction xs arbitrary: k) auto
  then show ?thesis by (simp add: countTotalSubscribers_def)
qed

lemma total_delete_empty:
  assumes "distinct (map fst xs)" and "map_of xs t \<noteq> None"
  shows "sum_list (map (\<lambda>e. length (snd e)) (AList.update t [] xs)) =
    sum_list (map (\<lambda>e. length (snd e)) (AList.delete t xs))"
  using assms
proof (induction xs)
  case (Cons x xs)
  then show ?case
    by (cases "fst x = t") (auto simp: map_of_eq_None_iff)
qed simp

lemma length_update_old: "map_of xs k \<noteq> None \<Longrightarrow> length (AList.update k v xs) = length xs"
  using arg_cong [OF update_keys [of k v xs], of length]
  by (auto simp: domIff dom_map_of_conv_image_fst [symmetric])

lemma inv_broker_new [simp]: "broker_inv (broker_new L e)"
  by (simp add: inv_defs broker_new_def metrics_zero_def countTotalSubscribers_def acks_of_def
      getLastAck_def ack_max_seq_def ack_new_def ack_inv_def)

text \<open>The parts of the invariant that an update of the topic table or the metrics does not touch.\<close>

lemma conn_inv_frame [simp]:
  "conn_inv (b\<lparr>topic_subscribers := x\<rparr>) = conn_inv b" "conn_inv (b\<lparr>b_metrics := m\<rparr>) = conn_inv b"
  by (simp_all add: conn_inv_def)

lemma acks_inv_frame [simp]:
  "acks_inv (b\<lparr>topic_subscribers := x\<rparr>) = acks_inv b" "acks_inv (b\<lparr>b_metrics := m\<rparr>) = acks_inv b"
  "acks_inv (b\<lparr>b_sessions := y\<rparr>) = acks_inv b" "acks_inv (b\<lparr>active_connections := n\<rparr>) = acks_inv b"
  "acks_inv (b\<lparr>client_sessions := z\<rparr>) = acks_inv b" "acks_inv (b\<lparr>persistence := p\<rparr>) = acks_inv b"
  "acks_inv (b\<lparr>server_fd := f\<rparr>) = acks_inv b" "acks_inv (b\<lparr>shutdown_requested := q\<rparr>) = acks_inv b"
  by (simp_all add: acks_inv_def acks_of_def getLastAck_def)

lemma inv_topics_update:
  assumes "broker_inv b" and "distinct (map fst ts)"
    and "\<And>t ss. map_of ts t = Some ss \<Longrightarrow> ss \<noteq> [] \<and> distinct ss \<and> set ss \<subseteq> set (b_sessions b)"
    and "m_active_connections m = m_active_connections (b_metrics b)"
    and "m_active_subscribers m = int (sum_list (map (\<lambda>e. length (snd e)) ts))"
    and "m_topic_count m = int (length ts)"
  shows "broker_inv (b\<lparr>topic_subscribers := ts, b_metrics := m\<rparr>)"
proof -
  have "topics_inv (b\<lparr>topic_subscribers := ts, b_metrics := m\<rparr>)"
    using assms(2,3) unfolding topics_inv_def by (simp del: map_of_eq_Some_iff)
  moreover have "gauges_inv (b\<lparr>topic_subscribers := ts, b_metrics := m\<rparr>)"
    using assms(1,4-6) unfolding broker_inv_def gauges_inv_def total_eq_sum by simp
  ultimately show ?thesis using assms(1) by (simp add: broker_inv_def)
qed

lemma topic_entryD:
  "topics_inv b \<Longrightarrow> map_of (topic_subscribers b) t = Some ss \<Longrightarrow>
     ss \<noteq> [] \<and> distinct ss \<and> set ss \<subseteq> set (b_sessions b)"
  by (simp add: topics_inv_def del: map_of_eq_Some_iff)

lemma inv_subscribe_locked:
  assumes "broker_inv b" "s \<in> set (b_sessions b)"
  shows "broker_inv (subscribe_locked b s t)"
proof -
  let ?ts = "AList.update t (set_add s (subscribers b t)) (topic_subscribers b)"
  have T: "topics_inv b" using assms(1) by (simp add: broker_inv_def)
  obtain m where m: "subscribe_locked b s t = b\<lparr>topic_subscribers := ?ts, b_metrics := m\<rparr>"
      "m_active_connections m = m_active_connections (b_metrics b)"
      "m_active_subscribers m = int (sum_list (map (\<lambda>e. length (snd e)) ?ts))" "m_topic_count m = int (length ?ts)"
    by (simp add: subscribe_locked_def update_metrics_def total_eq_sum Let_def setActiveSubscribers_def
        setTopicCount_def incrementSubscriptions_def incrementTopicSubscribers_def)
  show ?thesis
    unfolding m(1)
  proof (rule inv_topics_update [OF assms(1) _ _ m(2-4)])
    show "distinct (map fst ?ts)" using T by (simp add: topics_inv_def distinct_update_iff)
    show "ss \<noteq> [] \<and> distinct ss \<and> set ss \<subseteq> set (b_sessions b)" if "map_of ?ts u = Some ss" for u ss
      using that topic_entryD [OF T, of u ss] subscribers_inv [OF T, of t] assms(2)
      by (auto simp: update_conv' simp del: map_of_eq_Some_iff split: if_splits)
  qed
qed

lemma inv_subscribe:
  assumes "broker_inv b" "s \<in> set (b_sessions b)"
  shows "broker_inv (fst (subscribe L b s t))"
  unfolding subscribe_def
  by (rule replay_eq [of L "subscribe_locked b s t" s t 0]) (simp add: inv_subscribe_locked [OF assms])

lemma inv_unsubscribe:
  assumes "broker_inv b"
  shows "broker_inv (unsubscribe b s t)"
proof (cases "map_of (topic_subscribers b) t")
  case None
  with assms show ?thesis by (simp add: unsubscribe_def)
next
  case (Some ss)
  have dist: "distinct (map fst (topic_subscribers b))" and ss: "distinct ss" "set ss \<subseteq> set (b_sessions b)"
    using assms Some by (simp_all add: broker_inv_def topics_inv_def del: map_of_eq_Some_iff)
  define ts where "ts = (if set_remove s ss = [] then AList.delete t (topic_subscribers b)
    else AList.update t (set_remove s ss) (topic_subscribers b))"
  obtain m where m: "unsubscribe b s t = b\<lparr>topic_subscribers := ts, b_metrics := m\<rparr>"
      "m_active_connections m = m_active_connections (b_metrics b)"
      "m_active_subscribers m = int (sum_list (map (\<lambda>e. length (snd e)) ts))"
      "m_topic_count m = (if set_remove s ss = [] then int (length ts) else m_topic_count (b_metrics b))"
    using Some dist
    by (cases "set_remove s ss = []")
      (simp_all add: unsubscribe_def update_metrics_def ts_def total_eq_sum total_delete_empty delete_update_same Let_def
        setActiveSubscribers_def setTopicCount_def incrementUnsubscriptions_def)
  have old: "m_topic_count (b_metrics b) = int (length (topic_subscribers b))"
    using assms by (simp add: broker_inv_def gauges_inv_def)
  show ?thesis
    unfolding m(1)
  proof (rule inv_topics_update [OF assms _ _ m(2,3)])
    show "distinct (map fst ts)" using dist by (simp add: ts_def distinct_update_iff distinct_delete)
    show "xs \<noteq> [] \<and> distinct xs \<and> set xs \<subseteq> set (b_sessions b)" if "map_of ts u = Some xs" for u xs
      using that assms ss topic_entryD [of b u xs]
      by (auto simp: ts_def alist_simps broker_inv_def simp del: map_of_eq_Some_iff split: if_splits)
    show "m_topic_count m = int (length ts)"
      using m(4) old Some by (simp add: ts_def length_update_old)
  qed
qed

lemma inv_publish: "broker_inv b \<Longrightarrow> broker_inv (fst (publish L lat b t p))"
  by (simp add: publish_eq inv_defs metric_op_defs total_eq_sum acks_of_def getLastAck_def)

lemma length_filter_neq:
  "distinct xs \<Longrightarrow> s \<in> set xs \<Longrightarrow> length (filter (\<lambda>x. x \<noteq> s) xs) = length xs - 1"
  using length_remove1 [of s xs] distinct_remove1_removeAll [of xs s]
  by (simp add: removeAll_filter_not_eq eq_commute)

lemma inv_removeSession:
  assumes "broker_inv b" "s \<in> set (b_sessions b)"
  shows "broker_inv (removeSession b s)"
proof -
  have len: "length (filter (\<lambda>x. x \<noteq> s) (b_sessions b)) = length (b_sessions b) - 1"
    using assms length_filter_neq [of "b_sessions b" s] by (simp add: inv_defs)
  have pos: "0 < length (b_sessions b)" using assms(2) by (cases "b_sessions b") auto
  let ?ts = "filter (\<lambda>(t, ss). ss \<noteq> []) (map (\<lambda>(t, ss). (t, set_remove s ss)) (topic_subscribers b))"
  let ?ss = "filter (\<lambda>x. x \<noteq> s) (b_sessions b)"
  obtain m where m: "removeSession b s =
      b\<lparr>topic_subscribers := ?ts, b_sessions := ?ss, active_connections := active_connections b - 1, b_metrics := m\<rparr>"
      "m_active_connections m = int (length ?ss)"
      "m_active_subscribers m = int (sum_list (map (\<lambda>e. length (snd e)) ?ts))" "m_topic_count m = int (length ?ts)"
    by (simp add: removeSession_def update_metrics_def total_eq_sum Let_def setActiveSubscribers_def
        setActiveConnections_def setTopicCount_def incrementDisconnections_def)
  have T: "topics_inv b" and C: "conn_inv b" and A: "acks_inv b" using assms(1) by (simp_all add: broker_inv_def)
  have "word_of_nat (length (b_sessions b)) - 1 = (word_of_nat (length (b_sessions b) - 1) :: uint64)"
    using pos by (cases "length (b_sessions b)") simp_all
  with C len have "conn_inv (removeSession b s)"
    unfolding m(1) by (auto simp: conn_inv_def)
  moreover have "topics_inv (removeSession b s)"
  proof -
    have dist: "distinct (map fst (topic_subscribers b))" using T by (simp add: topics_inv_def)
    have "xs \<noteq> [] \<and> distinct xs \<and> set xs \<subseteq> set ?ss" if "map_of ?ts u = Some xs" for u xs
    proof (cases "map_of (topic_subscribers b) u")
      case None
      with that dist show ?thesis by (simp add: map_of_removed)
    next
      case (Some ys)
      with that dist show ?thesis
        using topic_entryD [OF T Some] by (auto simp: map_of_removed split: if_splits)
    qed
    moreover have "topic_subscribers (removeSession b s) = ?ts" "b_sessions (removeSession b s) = ?ss"
      by (simp_all add: m(1))
    ultimately show ?thesis
      unfolding topics_inv_def using distinct_removed [OF dist, of s] by metis
  qed
  moreover have "gauges_inv (removeSession b s)"
    using m(2-4) unfolding m(1) gauges_inv_def total_eq_sum by simp
  ultimately show ?thesis using A by (simp add: broker_inv_def m(1))
qed

lemma inv_accept:
  assumes "broker_inv b" "s \<notin> set (b_sessions b)"
  shows "broker_inv (fst (accept_step b (Accepted s)))"
proof (cases "of_nat MAX_CONNECTIONS \<le> active_connections b")
  case True
  with assms show ?thesis by (simp add: accept_step_def)
next
  case False
  with assms have "word_of_nat (length (b_sessions b)) < (1000 :: uint64)"
    by (simp add: inv_defs MAX_CONNECTIONS_def)
  moreover have "length (b_sessions b) \<le> 1000"
    using assms by (simp add: inv_defs MAX_CONNECTIONS_def)
  ultimately have "length (b_sessions b) < 1000"
    by (simp add: word_less_nat_alt unat_of_nat)
  with assms have "conn_inv (fst (accept_step b (Accepted s)))"
    by (simp add: inv_defs accept_step_def update_metrics_def MAX_CONNECTIONS_def Let_def)
  with False assms show ?thesis
    by (simp add: broker_inv_def)
      (auto simp: inv_defs accept_step_def update_metrics_def metric_op_defs total_eq_sum acks_of_def
        getLastAck_def Let_def simp del: map_of_eq_Some_iff)
qed


lemma acks_inv_update:
  assumes "acks_inv b" "ack_inv a" "n = ack_max_seq a"
    and "\<And>d. acks_of b' d = (if d = c then a else acks_of b d)"
    and "\<And>d. getLastAck b' d = (if d = c then n else getLastAck b d)"
  shows "acks_inv b'"
  using assms by (simp add: acks_inv_def)

lemma inv_acks_change:
  assumes "broker_inv b" "acks_inv b'" "b_sessions b' = b_sessions b" "topic_subscribers b' = topic_subscribers b"
    and "active_connections b' = active_connections b"
    and "m_active_connections (b_metrics b') = m_active_connections (b_metrics b)"
    and "m_active_subscribers (b_metrics b') = m_active_subscribers (b_metrics b)"
    and "m_topic_count (b_metrics b') = m_topic_count (b_metrics b)"
  shows "broker_inv b'"
  using assms by (simp add: broker_inv_def conn_inv_def topics_inv_def gauges_inv_def total_eq_sum)

lemma inv_handleAck:
  assumes "broker_inv b"
  shows "broker_inv (handleAck L b c n)"
proof (rule inv_acks_change [OF assms])
  have A: "acks_inv b" using assms by (simp add: broker_inv_def)
  have a: "ack_inv (acks_of b c)" and last: "getLastAck b c = ack_max_seq (acks_of b c)"
    using A by (simp_all add: acks_inv_def)
  show "acks_inv (handleAck L b c n)"
  proof (rule acks_inv_update [OF A bounded.inv_ins [OF a, of n], where c = c])
    show "max (getLastAck b c) n = ack_max_seq (ack_insert (acks_of b c) n)"
      using bounded.top_ins [OF a, of n] last by simp
    show "acks_of (handleAck L b c n) d = (if d = c then ack_insert (acks_of b c) n else acks_of b d)" for d
      by (simp add: handleAck_def acks_of_def update_metrics_def update_conv' Let_def split: option.split)
    show "getLastAck (handleAck L b c n) d = (if d = c then max (getLastAck b c) n else getLastAck b d)" for d
      by (simp add: handleAck_def getLastAck_def update_metrics_def update_conv' Let_def max_def split: option.split)
  qed
qed (simp_all add: handleAck_def update_metrics_def incrementAcks_def Let_def split: option.split)

lemma ack_nonempty_insert: "ack_inv a \<Longrightarrow> ss \<noteq> [] \<Longrightarrow> \<not> ack_empty (foldl ack_insert a ss)"
proof (induction ss rule: rev_induct)
  case (snoc x xs)
  then have "ack_contains (foldl ack_insert a (xs @ [x])) x" by (intro bounded.last_acked)
  then show ?case by (auto simp: ack_contains_def ack_empty_def)
qed simp

lemma inv_registerClient:
  assumes "broker_inv b"
  shows "broker_inv (registerClient L ord b c s)"
proof (cases "persistence b")
  case None
  then show ?thesis
    using assms by (intro inv_acks_change [OF assms])
      (simp_all add: registerClient_def broker_inv_def acks_inv_def acks_of_def getLastAck_def)
next
  case (Some e)
  have A: "acks_inv b" using assms by (simp add: broker_inv_def)
  have a: "ack_inv (acks_of b c)" and last: "getLastAck b c = ack_max_seq (acks_of b c)"
    using A by (simp_all add: acks_inv_def)
  define ls where "ls = ord (load_acks L e c)"
  define a' where "a' = foldl ack_insert (acks_of b c) ls"
  have top: "getLastAck b c = ack_max_seq a'" if "ack_empty a'"
    using that ack_nonempty_insert [OF a, of ls] last by (cases "ls = []") (auto simp: a'_def)
  show ?thesis
  proof (rule inv_acks_change [OF assms])
    show "acks_inv (registerClient L ord b c s)"
    proof (rule acks_inv_update [OF A, where c = c])
      show "ack_inv a'" unfolding a'_def by (rule bounded.inv_foldl [OF a])
      show "acks_of (registerClient L ord b c s) d = (if d = c then a' else acks_of b d)" for d
        using Some by (simp add: registerClient_def acks_of_def update_conv' a'_def ls_def Let_def)
      show "getLastAck (registerClient L ord b c s) d = (if d = c then ack_max_seq a' else getLastAck b d)" for d
      proof (cases "ack_empty a'")
        case True
        then show ?thesis
          using Some top by (simp add: registerClient_def getLastAck_def acks_of_def a'_def ls_def Let_def)
      next
        case False
        then show ?thesis
          using Some by (simp add: registerClient_def getLastAck_def acks_of_def update_conv' a'_def ls_def Let_def)
      qed
    qed simp
  qed (use Some in \<open>simp_all add: registerClient_def Let_def\<close>)
qed

lemma inv_unregisterClient: "broker_inv b \<Longrightarrow> broker_inv (unregisterClient b c)"
  by (rule inv_acks_change [where b = b])
    (simp_all add: unregisterClient_def broker_inv_def)

lemma inv_stop: "broker_inv b \<Longrightarrow> broker_inv (stop b)"
  by (rule inv_acks_change [where b = b])
    (simp_all add: stop_def broker_inv_def Let_def split: option.split)

section \<open>Steps and reachable states\<close>

text \<open>
  The operations that the accept loop, the session threads and the signal handler perform, one at a
  time. A session acts only while it is in the connection table; a new session object has a fresh
  address.
\<close>

inductive broker_step ::
    "('e, 't) lmdb \<Rightarrow> (uint64 set \<Rightarrow> uint64 list) \<Rightarrow> (uint64 \<Rightarrow> int) \<Rightarrow> 'e Broker \<Rightarrow> 'e Broker \<Rightarrow> bool"
  for L ord lat where
  step_accept: "s \<notin> set (b_sessions b) \<Longrightarrow> \<not> shutdown_requested b \<Longrightarrow>
    broker_step L ord lat b (fst (accept_step b (Accepted s)))"
| step_send: "broker_step L ord lat b (send_to s d b)"
| step_subscribe: "s \<in> set (b_sessions b) \<Longrightarrow> broker_step L ord lat b (fst (subscribe L b s t))"
| step_subscribe_locked: "s \<in> set (b_sessions b) \<Longrightarrow> broker_step L ord lat b (subscribe_locked b s t)"
| step_unsubscribe: "broker_step L ord lat b (unsubscribe b s t)"
| step_publish: "broker_step L ord lat b (fst (publish L lat b t p))"
| step_ack: "broker_step L ord lat b (handleAck L b c n)"
| step_register: "s \<in> set (b_sessions b) \<Longrightarrow> broker_step L ord lat b (registerClient L ord b c s)"
| step_unregister: "broker_step L ord lat b (unregisterClient b c)"
| step_replay: "s \<in> set (b_sessions b) \<Longrightarrow> broker_step L ord lat b (fst (replayMessagesForClient L b s t c))"
| step_remove: "s \<in> set (b_sessions b) \<Longrightarrow> broker_step L ord lat b (removeSession b s)"
| step_stop: "broker_step L ord lat b (stop b)"

inductive_cases broker_stepE: "broker_step L ord lat b b'"

definition reachable ::
    "('e, 't) lmdb \<Rightarrow> (uint64 set \<Rightarrow> uint64 list) \<Rightarrow> (uint64 \<Rightarrow> int) \<Rightarrow> 'e \<Rightarrow> 'e Broker \<Rightarrow> bool" where
  "reachable L ord lat e b \<longleftrightarrow> (broker_step L ord lat)\<^sup>*\<^sup>* (broker_new L e) b"

lemma inv_replay_client: "broker_inv b \<Longrightarrow> broker_inv (fst (replayMessagesForClient L b s t c))"
  by (rule replay_client_eq [of L b s t c]) simp

lemma broker_step_inv: "broker_step L ord lat b b' \<Longrightarrow> broker_inv b \<Longrightarrow> broker_inv b'"
  by (induction rule: broker_step.induct)
    (simp_all add: inv_accept inv_subscribe inv_subscribe_locked inv_unsubscribe inv_publish inv_handleAck inv_registerClient
      inv_unregisterClient inv_replay_client inv_removeSession inv_stop send_to_eq)

lemma reachable_induct [consumes 1, case_names new step]:
  assumes "reachable L ord lat e b" and "P (broker_new L e)"
    and "\<And>b b'. reachable L ord lat e b \<Longrightarrow> broker_step L ord lat b b' \<Longrightarrow> P b \<Longrightarrow> P b'"
  shows "P b"
  using assms unfolding reachable_def by (induction rule: rtranclp_induct) auto

lemma reachable_step:
  "reachable L ord lat e b \<Longrightarrow> broker_step L ord lat b b' \<Longrightarrow> reachable L ord lat e b'"
  unfolding reachable_def by (rule rtranclp.rtrancl_into_rtrancl)

lemma reachable_inv: "reachable L ord lat e b \<Longrightarrow> broker_inv b"
  by (induction rule: reachable_induct) (simp_all add: broker_step_inv)

section \<open>The store under the broker\<close>

text \<open>\<open>store_sat P b\<close>: the store, if still open, satisfies \<open>P\<close>.\<close>

definition store_sat :: "('e \<Rightarrow> bool) \<Rightarrow> 'e Broker \<Rightarrow> bool" where
  "store_sat P b = (case persistence b of None \<Rightarrow> True | Some e \<Rightarrow> P e)"

text \<open>How a step changes the store: through the storage operations only, never by writing to it directly.\<close>

lemma persistence_frame [simp]:
  "persistence (subscribe_locked b s t) = persistence b" "persistence (unsubscribe b s t) = persistence b"
  "persistence (removeSession b s) = persistence b" "persistence (unregisterClient b c) = persistence b"
  "persistence (registerClient L ord b c s) = persistence b" "persistence (fst (accept_step b ev)) = persistence b"
  "persistence (send_to s d b) = persistence b" "persistence (stop b) = None"
  by (simp_all add: subscribe_locked_def unsubscribe_def removeSession_def unregisterClient_def
      registerClient_def accept_step_def send_to_def stop_def update_metrics_def Let_def
      split: option.split accept_event.split)

lemma sequence_frame [simp]:
  "current_sequence (subscribe_locked b s t) = current_sequence b" "current_sequence (unsubscribe b s t) = current_sequence b"
  "current_sequence (removeSession b s) = current_sequence b" "current_sequence (unregisterClient b c) = current_sequence b"
  "current_sequence (registerClient L ord b c s) = current_sequence b" "current_sequence (fst (accept_step b ev)) = current_sequence b"
  "current_sequence (send_to s d b) = current_sequence b" "current_sequence (stop b) = current_sequence b"
  "current_sequence (handleAck L b c n) = current_sequence b"
  by (simp_all add: subscribe_locked_def unsubscribe_def removeSession_def unregisterClient_def handleAck_def
      registerClient_def accept_step_def send_to_def stop_def update_metrics_def Let_def
      split: option.split accept_event.split)

lemma replay_frame [simp]:
  "persistence (fst (replayMessages L b s t n)) = persistence b"
  "current_sequence (fst (replayMessages L b s t n)) = current_sequence b"
  "persistence (fst (replayMessagesForClient L b s t c)) = persistence b"
  "current_sequence (fst (replayMessagesForClient L b s t c)) = current_sequence b"
proof -
  show "persistence (fst (replayMessages L b s t n)) = persistence b"
    "current_sequence (fst (replayMessages L b s t n)) = current_sequence b"
    using replay_eq [of L b s t n] by fastforce+
  show "persistence (fst (replayMessagesForClient L b s t c)) = persistence b"
    "current_sequence (fst (replayMessagesForClient L b s t c)) = current_sequence b"
    using replay_client_eq [of L b s t c] by fastforce+
qed

lemma persistence_handleAck [simp]:
  "persistence (handleAck L b c n) = map_option (\<lambda>e. save_ack L e c n) (persistence b)"
  by (simp add: handleAck_def update_metrics_def Let_def split: option.split)

lemma store_step_cases:
  assumes "broker_step L ord lat b b'"
  obtains "persistence b' = persistence b" "current_sequence b' = current_sequence b"
    | "persistence b' = None"
    | e c n where "persistence b = Some e" "persistence b' = Some (save_ack L e c n)" "current_sequence b' = current_sequence b"
    | e t p where "persistence b = Some e" "persistence b' = publish_store L b t p" "current_sequence b' = current_sequence b + 1"
  using assms
proof (cases rule: broker_step.cases)
  case (step_ack c n)
  then show ?thesis using that(1,3) by (cases "persistence b") auto
next
  case (step_publish t p)
  then show ?thesis using that(2,4) by (cases "persistence b") (auto simp: publish_eq publish_store_def)
qed (auto simp: subscribe_def intro: that)

context lmdb_engine
begin

lemma reachable_store_inv:
  assumes "reachable L ord lat e b" and "store_inv (eview e)"
  shows "store_sat (\<lambda>e. store_inv (eview e)) b"
  using assms(1)
proof (induction rule: reachable_induct)
  case new
  with assms(2) show ?case by (simp add: store_sat_def broker_new_def)
next
  case (step b b')
  from step(2) show ?case
    by (cases rule: store_step_cases)
      (use step(3) in \<open>auto simp: store_sat_def publish_store_def store_inv_ops Let_def split: option.splits\<close>)
qed

lemma replay_no_throw:
  assumes "store_sat (\<lambda>e. store_inv (eview e)) b"
  shows "snd (replayMessages L b s t n) = None" "snd (replayMessagesForClient L b s t c) = None"
proof -
  have ok: "\<exists>r. load_range L e k m = Inr r" if "persistence b = Some e" for e k m
    using assms that load_range_sound [of e k m] by (auto simp: store_sat_def)
  show "snd (replayMessages L b s t n) = None"
    using ok [of _ n "n + MAX_STORED_MESSAGES"] by (fastforce simp: replayMessages_def split: option.split)
  show "snd (replayMessagesForClient L b s t c) = None"
    using ok [of _ "getLastAck b c + 1" "getLastAck b c + MAX_STORED_MESSAGES"]
    by (fastforce simp: replayMessagesForClient_def Let_def split: option.split)
qed

end

lemma stored_seq_ack [simp]: "stored_seq (v(ack_key c n \<mapsto> x)) = stored_seq v"
  by (simp add: stored_seq_def)

context lmdb_healthy
begin

lemma stored_seq_compact [simp]: "stored_seq (eview (compact L e m)) = stored_seq (eview e)"
  by (cases "m = 0") (simp_all add: compact_healthy stored_seq_def, simp add: compact_def)

lemma stored_seq_purge [simp]: "stored_seq (eview (purge_old_acks L e m)) = stored_seq (eview e)"
  by (cases "m = 0") (simp_all add: purge_healthy stored_seq_def, simp add: purge_old_acks_def)

lemma stored_seq_save_ack [simp]: "stored_seq (eview (save_ack L e c n)) = stored_seq (eview e)"
  using save_ack_view [of e c n] by auto

lemma stored_seq_save [simp]: "stored_seq (eview (save L e n t p)) = stored_seq (eview e) + 1"
  by (simp add: save_healthy)

lemma reachable_sequence:
  assumes "reachable L ord lat e b"
  shows "store_sat (\<lambda>e. stored_seq (eview e) = current_sequence b) b"
  using assms
proof (induction rule: reachable_induct)
  case new
  show ?case by (simp add: store_sat_def broker_new_def get_last_seq_healthy)
next
  case (step b b')
  from step(2) show ?case
    by (cases rule: store_step_cases)
      (use step(3) in \<open>auto simp: store_sat_def publish_store_def Let_def split: option.splits\<close>)
qed

end

section \<open>Properties\<close>

text \<open>What the standard says of the iteration order of a hash set: every element once.\<close>

definition hash_order :: "(uint64 set \<Rightarrow> uint64 list) \<Rightarrow> bool" where
  "hash_order ord \<longleftrightarrow> (\<forall>A. set (ord A) = A \<and> distinct (ord A))"

lemma hash_order_sorted: "hash_order sorted_list_of_set"
  by (simp add: hash_order_def)



text \<open>
  Routing: a publish sends the payload to the subscribers of exactly that topic and then to the
  subscribers of \<^verbatim>\<open>#\<close>, to nobody else, and returns the next sequence number. In a reachable state a
  session receives it once for each of the two subscriptions it holds, so a session that holds both
  receives it twice, as does every \<^verbatim>\<open>#\<close> subscriber of a message published to \<^verbatim>\<open>#\<close>.
\<close>

theorem publish_routing:
  assumes "reachable L ord lat e b"
  shows "sent (fst (publish L lat b t p)) =
      sent b @ map (\<lambda>s. (s, p)) (subscribers b t @ subscribers b ''#'') \<and>
    snd (publish L lat b t p) = current_sequence b + 1 \<and>
    current_sequence (fst (publish L lat b t p)) = current_sequence b + 1 \<and>
    count_list (map fst (drop (length (sent b)) (sent (fst (publish L lat b t p))))) s =
      of_bool (s \<in> set (subscribers b t)) + of_bool (s \<in> set (subscribers b ''#''))"
proof -
  have "distinct (subscribers b u)" for u
    using subscribers_inv reachable_inv [OF assms] by (auto simp: broker_inv_def)
  then have "count_list (subscribers b u) s = of_bool (s \<in> set (subscribers b u))" for u
    by (rule count_list_distinct)
  then show ?thesis by (simp add: publish_eq comp_def)
qed

theorem publish_routing_witness:
  "sent (fst (publish (rbt_lmdb (\<lambda>_. False)) (\<lambda>_. 0) (broker_new (rbt_lmdb (\<lambda>_. False)) RBT.empty) ''t'' ''x'')) = []"
  using publish_routing [of "rbt_lmdb (\<lambda>_. False)" sorted_list_of_set "\<lambda>_. 0" RBT.empty
      "broker_new (rbt_lmdb (\<lambda>_. False)) RBT.empty" "''t''" "''x''"]
  by (simp add: reachable_def) (simp add: broker_new_def subscribers_def)

text \<open>
  A session that was removed gets nothing more: it is in no topic's subscriber set and no publish
  sends to it, while the subscriptions of every other session are untouched.
\<close>

theorem removed_session_silent:
  assumes "reachable L ord lat e b"
  shows "s \<notin> set (subscribers (removeSession b s) t) \<and>
    s \<notin> fst ` set (drop (length (sent b)) (sent (fst (publish L lat (removeSession b s) t p)))) \<and>
    (\<forall>r. r \<noteq> s \<longrightarrow> (r \<in> set (subscribers (removeSession b s) t) \<longleftrightarrow> r \<in> set (subscribers b t)))"
proof -
  have "distinct (map fst (topic_subscribers b))"
    using reachable_inv [OF assms] by (simp add: broker_inv_def topics_inv_def)
  then have sub: "set (subscribers (removeSession b s) u) = set (subscribers b u) - {s}" for u
    by (cases "map_of (topic_subscribers b) u")
      (auto simp: subscribers_def removeSession_def update_metrics_def map_of_removed Let_def
        simp del: map_of_eq_Some_iff simp flip: set_remove_props(1))
  have "sent (removeSession b s) = sent b" by (simp add: removeSession_def update_metrics_def Let_def)
  with sub show ?thesis by (auto simp: publish_eq)
qed

theorem removed_session_silent_witness:
  "(3 :: nat) \<notin> set (subscribers (removeSession (broker_new (rbt_lmdb (\<lambda>_. False)) RBT.empty) 3) ''t'')"
  using removed_session_silent [of "rbt_lmdb (\<lambda>_. False)" sorted_list_of_set "\<lambda>_. 0" RBT.empty
      "broker_new (rbt_lmdb (\<lambda>_. False)) RBT.empty" 3 "''t''"]
  by (simp add: reachable_def)

text \<open>
  (C24) Whatever LMDB calls fail, the store under a reachable broker stays well formed, so subscribing and
  the replay for a client never throw.
\<close>

theorem replay_never_throws:
  assumes "lmdb_engine L eview tview" and "store_inv (eview e)" and "reachable L ord lat e b"
  shows "snd (subscribe L b s t) = None \<and> snd (replayMessagesForClient L b s t c) = None"
proof -
  have ok: "store_sat (\<lambda>e. store_inv (eview e)) b"
    by (rule lmdb_engine.reachable_store_inv [OF assms(1,3,2)])
  then have "store_sat (\<lambda>e. store_inv (eview e)) (subscribe_locked b s t)"
    by (simp add: store_sat_def)
  then show ?thesis
    using ok lmdb_engine.replay_no_throw [OF assms(1)] by (simp add: subscribe_def)
qed

theorem replay_never_throws_witness:
  "snd (subscribe (rbt_lmdb (\<lambda>_. True)) (broker_new (rbt_lmdb (\<lambda>_. True)) RBT.empty) 1 ''t'') = None"
  using replay_never_throws [OF rbt_engine.lmdb_engine_axioms, of RBT.empty "\<lambda>_. True" sorted_list_of_set
      "\<lambda>_. 0" "broker_new (rbt_lmdb (\<lambda>_. True)) RBT.empty" 1 "''t''"]
  by (simp add: reachable_def)

text \<open>
  (C23) Restart: on a healthy store the persisted counter equals the broker's counter in every reachable
  state, so a broker started from that store continues with the same sequence number.
\<close>

theorem restart_restores_sequence:
  assumes "lmdb_healthy L eview tview" and "reachable L ord lat e b" and "persistence b = Some e'"
  shows "current_sequence (broker_new L e') = getLastSequence b"
  using lmdb_healthy.reachable_sequence [OF assms(1,2)] assms(3)
  by (simp add: store_sat_def broker_new_def getLastSequence_def lmdb_healthy.get_last_seq_healthy [OF assms(1)])

theorem restart_restores_sequence_witness:
  "current_sequence (broker_new (rbt_lmdb (\<lambda>_. False)) RBT.empty) =
   getLastSequence (broker_new (rbt_lmdb (\<lambda>_. False)) RBT.empty)"
  by (rule restart_restores_sequence [OF rbt_lmdb_healthy, of sorted_list_of_set "\<lambda>_. 0" RBT.empty])
    (simp_all add: reachable_def broker_new_def)

text \<open>
  An acknowledgement is recorded for its client alone: afterwards the number is acknowledged, the
  client's last acknowledgement is the larger of the old one and the number, nothing else becomes
  acknowledged, and every other client is unchanged.
\<close>

theorem handleAck_effect:
  assumes "reachable L ord lat e b"
  shows "isAcked (handleAck L b c n) c n \<and>
    getLastAck (handleAck L b c n) c = max (getLastAck b c) n \<and>
    (\<forall>m. isAcked (handleAck L b c n) c m \<longrightarrow> m = n \<or> isAcked b c m) \<and>
    (\<forall>d m. d \<noteq> c \<longrightarrow> isAcked (handleAck L b c n) d m = isAcked b d m \<and>
       getLastAck (handleAck L b c n) d = getLastAck b d)"
proof -
  have a: "ack_inv (acks_of b c)"
    using reachable_inv [OF assms] by (simp add: broker_inv_def acks_inv_def)
  have acked: "isAcked x d m = ack_contains (acks_of x d) m" for x :: "'a Broker" and d m
    using bounded.has_new by (simp add: isAcked_def acks_of_def split: option.split)
  have "acks_of (handleAck L b c n) d = (if d = c then ack_insert (acks_of b c) n else acks_of b d)" for d
    by (simp add: handleAck_def acks_of_def update_metrics_def update_conv' Let_def split: option.split)
  moreover have "getLastAck (handleAck L b c n) d = (if d = c then max (getLastAck b c) n else getLastAck b d)" for d
    by (simp add: handleAck_def getLastAck_def update_metrics_def update_conv' Let_def max_def split: option.split)
  ultimately show ?thesis
    using bounded.has_ins [OF a] bounded.no_phantom [OF a] by (auto simp: acked)
qed

theorem handleAck_effect_witness:
  "isAcked (handleAck (rbt_lmdb (\<lambda>_. False)) (broker_new (rbt_lmdb (\<lambda>_. False)) RBT.empty) ''c'' 5) ''c'' 5"
  using handleAck_effect [of "rbt_lmdb (\<lambda>_. False)" sorted_list_of_set "\<lambda>_. 0" RBT.empty
      "broker_new (rbt_lmdb (\<lambda>_. False)) RBT.empty" "''c''" 5]
  by (simp add: reachable_def)




definition published_many :: "nat \<Rightarrow> tree Broker" where
  "published_many k =
     ((\<lambda>b. fst (publish (rbt_lmdb (\<lambda>_. False)) (\<lambda>_. 0) b ''t'' ''x'')) ^^ k)
       (broker_new (rbt_lmdb (\<lambda>_. False)) (RBT.insert last_key (uint64_image 100000) RBT.empty))"

lemma published_many_reachable:
  "reachable (rbt_lmdb (\<lambda>_. False)) sorted_list_of_set (\<lambda>_. 0)
     (RBT.insert last_key (uint64_image 100000) RBT.empty) (published_many k)"
proof (induction k)
  case (Suc k)
  then show ?case
    unfolding reachable_def published_many_def funpow.simps comp_def
    by (rule rtranclp.rtrancl_into_rtrancl) (rule step_publish)
qed (simp add: reachable_def published_many_def)

lemma published_many_counts:
  "publish_count (published_many k) = word_of_nat k \<and> current_sequence (published_many k) = 100000 + word_of_nat k \<and>
   (\<exists>e. persistence (published_many k) = Some e)"
proof (induction k)
  case 0
  have "get_last_seq (rbt_lmdb (\<lambda>_. False)) (RBT.insert last_key (uint64_image 100000) RBT.empty) = 100000"
    by (simp add: rbt_healthy.get_last_seq_healthy stored_seq_def)
  then show ?case by (simp add: published_many_def broker_new_def)
next
  case (Suc k)
  then show ?case
    by (auto simp: published_many_def publish_eq publish_store_def Let_def split: option.splits)
qed


text \<open>
  The delivery counter counts publishes, not deliveries, and a disconnect does not undo the topic
  gauge: after a session subscribes and is removed, the subscriber gauge of the topic has grown by one
  although the session is gone.
\<close>

theorem metrics_drift:
  assumes "metrics_inv (b_metrics b)"
  shows "messages_delivered_total (b_metrics (fst (publish L lat b t p))) =
      messages_delivered_total (b_metrics b) + 1 \<and>
    om_get t 0 (m_topic_subscribers (b_metrics (removeSession (fst (subscribe L b s t)) s))) =
      om_get t 0 (m_topic_subscribers (b_metrics b)) + 1"
proof
  show "messages_delivered_total (b_metrics (fst (publish L lat b t p))) = messages_delivered_total (b_metrics b) + 1"
    by (simp add: publish_eq recordPublishLatency_def incrementDelivered_def incrementTopicMessages_def
        incrementPublished_def)
  have "m_topic_subscribers (b_metrics (removeSession b' s)) = m_topic_subscribers (b_metrics b')" for b' :: "'a Broker"
    by (simp add: removeSession_def update_metrics_def setTopicCount_def setActiveSubscribers_def
        setActiveConnections_def incrementDisconnections_def Let_def)
  moreover have "b_metrics (fst (subscribe L b s t)) = b_metrics (subscribe_locked b s t)"
    unfolding subscribe_def by (rule replay_eq [of L "subscribe_locked b s t" s t 0]) simp
  ultimately show "om_get t 0 (m_topic_subscribers (b_metrics (removeSession (fst (subscribe L b s t)) s))) =
      om_get t 0 (m_topic_subscribers (b_metrics b)) + 1"
    using assms
    by (simp add: subscribe_locked_def update_metrics_def setTopicCount_def setActiveSubscribers_def
        incrementTopicSubscribers_def incrementSubscriptions_def om_get_def metrics_inv_def Let_def)
qed

theorem metrics_drift_witness:
  "om_get ''t'' 0 (m_topic_subscribers (b_metrics (removeSession (fst (subscribe (rbt_lmdb (\<lambda>_. False))
     (broker_new (rbt_lmdb (\<lambda>_. False)) RBT.empty) 4 ''t'')) 4))) = 1"
  using metrics_drift [of "broker_new (rbt_lmdb (\<lambda>_. False)) RBT.empty" "rbt_lmdb (\<lambda>_. False)" "\<lambda>_. 0" "''t''" "[]" 4]
  by (simp add: broker_new_def) (simp add: om_get_def metrics_zero_def)

end
