(* ===== verification/Session.thy ===== *)
theory Session
  imports Binary_Protocol Resp_Parser Keystore Broker
begin

text \<open>
  \<^verbatim>\<open>Session\<close> of \<^verbatim>\<open>src/session.hpp\<close> and \<^verbatim>\<open>src/session.cpp\<close>: one connection, from the bytes that \<^verbatim>\<open>recv\<close>
  returns to the calls on the broker. The state is the session object, the broker and the global key
  registry. The handlers follow the source's branches; an exception leaves a handler with the state
  reached so far, and the run loop catches it. The lemmas show that the loop always returns, that its
  buffer is bounded, that all it does to the broker is broker steps, and when a publish is let through.
\<close>

section \<open>State\<close>

datatype ProtocolType = UNKNOWN | RESP | BINARY

record Session =
  ses_id :: session_id
  recv_buffer :: bytes
  protocol_type :: ProtocolType
  ses_sequence :: uint64
  client_id :: bytes
  last_activity :: int

text \<open>
  What the surroundings supply: LMDB, libsodium, the iteration order of hash sets, the measured publish
  latency by sequence number, and the wall clock in seconds, by the number of the frame handled.
\<close>

record ('e, 't, 'r) ambient =
  amb_lmdb :: "('e, 't) lmdb"
  amb_sodium :: "'r sodium"
  amb_order :: "uint64 set \<Rightarrow> uint64 list"
  amb_latency :: "uint64 \<Rightarrow> int"
  amb_clock :: "nat \<Rightarrow> uint64"

record 'e system =
  sys_broker :: "'e Broker"
  sys_keys :: TrustedKeyStore
  sys_tick :: nat

definition session_new :: "session_id \<Rightarrow> int \<Rightarrow> Session" where
  "session_new s now =
     \<lparr>ses_id = s, recv_buffer = [], protocol_type = UNKNOWN, ses_sequence = 0, client_id = [], last_activity = now\<rparr>"

definition SESSION_IDLE_TIMEOUT_S :: int where "SESSION_IDLE_TIMEOUT_S = 300"
definition MAX_RECV_BUFFER :: nat where "MAX_RECV_BUFFER = 16 * 1024 * 1024"

definition detectProtocol :: "bytes \<Rightarrow> ProtocolType" where
  "detectProtocol buffer =
     (case buffer of
        [] \<Rightarrow> UNKNOWN
      | c # _ \<Rightarrow>
          if c = CHR ''+'' \<or> c = CHR ''-'' \<or> c = CHR '':'' \<or> c = CHR ''$'' \<or> c = CHR ''*'' then RESP
          else if byte_of_char c = BINARY_PROTOCOL_VERSION then BINARY
          else UNKNOWN)"

section \<open>Sending\<close>

text \<open>
  \<^verbatim>\<open>Session::send\<close>: \<open>rs\<close> are the results of successive \<^verbatim>\<open>::send\<close> calls. The value is what reached the
  socket and whether the loop ended with everything sent.
\<close>

fun send_loop :: "int list \<Rightarrow> bytes \<Rightarrow> bytes \<times> bool" where
  "send_loop rs [] = ([], True)"
| "send_loop [] (c # cs) = ([], False)"
| "send_loop (r # rs) (c # cs) =
     (if r < 0 then ([], False)
      else let (w, done) = send_loop rs (drop (nat r) (c # cs)) in (take (nat r) (c # cs) @ w, done))"

definition with_broker :: "('e Broker \<Rightarrow> 'e Broker) \<Rightarrow> 'e system \<Rightarrow> 'e system" where
  "with_broker f sys = sys\<lparr>sys_broker := f (sys_broker sys)\<rparr>"

definition sendBinary :: "Session \<Rightarrow> BinaryFrame \<Rightarrow> 'e system \<Rightarrow> 'e system" where
  "sendBinary ses frame sys = with_broker (send_to (ses_id ses) (serialize frame)) sys"

definition sendResp :: "Session \<Rightarrow> RespValue \<Rightarrow> 'e system \<Rightarrow> 'e system" where
  "sendResp ses v sys = with_broker (send_to (ses_id ses) (resp_serialize v)) sys"

section \<open>Binary frames\<close>

type_synonym 'e conn = "Session \<times> 'e system"

text \<open>The topic scope of a key, as in the \<^verbatim>\<open>CMD_SIGNED_PUBLISH\<close> branch.\<close>

definition topic_allowed :: "bytes \<Rightarrow> bytes \<Rightarrow> bool" where
  "topic_allowed allowed topic =
     (if allowed = ''*'' \<or> allowed = ''#'' then True
      else if 2 \<le> length allowed \<and> last allowed = CHR ''*''
        then starts_with topic (take (length allowed - 1) allowed)
      else topic = allowed)"

definition key_scope_ok :: "TrustedKey option \<Rightarrow> bytes \<Rightarrow> bool" where
  "key_scope_ok info topic =
     (case info of
        None \<Rightarrow> True
      | Some tk \<Rightarrow> tk_allowed_topics tk = [] \<or> topic_allowed (tk_allowed_topics tk) topic)"

definition on_subscribe :: "('e, 't, 'r) ambient \<Rightarrow> 'e conn \<Rightarrow> BinaryFrame \<Rightarrow> 'e conn \<times> exn option" where
  "on_subscribe A st frame =
     (let (ses, sys) = st; L = amb_lmdb A; topic = frame_topic frame
      in case str_find CHR 0x00 topic of
           Some sep \<Rightarrow>
             let ses1 = ses\<lparr>client_id := take sep topic\<rparr>;
                 topic1 = drop (sep + 1) topic;
                 sys1 = with_broker (\<lambda>b. registerClient L (amb_order A) b (client_id ses1) (ses_id ses1)) sys
             in (case subscribe L (sys_broker sys1) (ses_id ses1) topic1 of
                   (b2, Some x) \<Rightarrow> ((ses1, sys1\<lparr>sys_broker := b2\<rparr>), Some x)
                 | (b2, None) \<Rightarrow>
                     (case replayMessagesForClient L b2 (ses_id ses1) topic1 (client_id ses1) of
                        (b3, Some x) \<Rightarrow> ((ses1, sys1\<lparr>sys_broker := b3\<rparr>), Some x)
                      | (b3, None) \<Rightarrow>
                          ((ses1, sendBinary ses1 (ack_frame (frame_sequence frame)) (sys1\<lparr>sys_broker := b3\<rparr>)), None)))
         | None \<Rightarrow>
             (case subscribe L (sys_broker sys) (ses_id ses) topic of
                (b2, Some x) \<Rightarrow> ((ses, sys\<lparr>sys_broker := b2\<rparr>), Some x)
              | (b2, None) \<Rightarrow>
                  ((ses, sendBinary ses (ack_frame (frame_sequence frame)) (sys\<lparr>sys_broker := b2\<rparr>)), None)))"

definition secure_topic_error :: "bytes \<Rightarrow> bytes" where
  "secure_topic_error topic =
     ''Topic '' @ [CHR 0x27] @ topic @ [CHR 0x27] @ '' requires signed publish (CMD_SIGNED_PUBLISH)''"

definition on_publish :: "('e, 't, 'r) ambient \<Rightarrow> 'e conn \<Rightarrow> BinaryFrame \<Rightarrow> 'e conn" where
  "on_publish A st frame =
     (let (ses, sys) = st
      in if starts_with (frame_topic frame) ''secure/'' then
           (ses, sendBinary ses (error_frame (secure_topic_error (frame_topic frame))) sys)
         else
           let ses1 = ses\<lparr>ses_sequence := ses_sequence ses + 1\<rparr>;
               serialized = serialize (message_frame (frame_topic frame) (frame_payload frame) (ses_sequence ses1));
               sys1 = with_broker (\<lambda>b. fst (publish (amb_lmdb A) (amb_latency A) b (frame_topic frame) serialized)) sys
           in (ses1, sendBinary ses1 (ack_frame (frame_sequence frame)) sys1))"

definition on_signed_publish :: "('e, 't, 'r) ambient \<Rightarrow> 'e conn \<Rightarrow> BinaryFrame \<Rightarrow> 'e conn" where
  "on_signed_publish A st frame =
     (let (ses, sys) = st;
          message = frame_topic frame @ frame_payload frame;
          (keys1, valid) = verify_with_key (amb_sodium A) (amb_clock A (sys_tick sys)) (sys_keys sys)
             (frame_key_id frame) (map byte_of_char message) (frame_signature frame);
          sys1 = sys\<lparr>sys_keys := keys1\<rparr>
      in if \<not> valid then (ses, sendBinary ses (error_frame ''Invalid signature or unknown key'') sys1)
         else if \<not> key_scope_ok (get_key_info keys1 (frame_key_id frame)) (frame_topic frame) then
           (ses, sendBinary ses (error_frame (''Key not authorized for topic '' @ [CHR 0x27] @
              frame_topic frame @ [CHR 0x27])) sys1)
         else
           let ses1 = ses\<lparr>ses_sequence := ses_sequence ses + 1\<rparr>;
               serialized = serialize (signed_message_frame (frame_topic frame) (frame_payload frame)
                 (frame_signature frame) (frame_key_id frame) (ses_sequence ses1));
               sys2 = with_broker (\<lambda>b. fst (publish (amb_lmdb A) (amb_latency A) b (frame_topic frame) serialized)) sys1
           in (ses1, sendBinary ses1 (ack_frame (frame_sequence frame)) sys2))"

definition handleBinaryFrame :: "('e, 't, 'r) ambient \<Rightarrow> ('e conn, BinaryFrame) handler" where
  "handleBinaryFrame A st0 frame =
     (let st = (fst st0, (snd st0)\<lparr>sys_tick := sys_tick (snd st0) + 1\<rparr>); (ses, sys) = st
      in case frame_command frame of
           CMD_SUBSCRIBE \<Rightarrow> on_subscribe A st frame
         | CMD_UNSUBSCRIBE \<Rightarrow>
             ((ses, sendBinary ses (ack_frame (frame_sequence frame))
                (with_broker (\<lambda>b. unsubscribe b (ses_id ses) (frame_topic frame)) sys)), None)
         | CMD_PUBLISH \<Rightarrow> (on_publish A st frame, None)
         | CMD_PING \<Rightarrow> ((ses, sendBinary ses pong_frame sys), None)
         | CMD_ACK \<Rightarrow>
             ((ses, if client_id ses \<noteq> []
                    then with_broker (\<lambda>b. handleAck (amb_lmdb A) b (client_id ses) (frame_sequence frame)) sys
                    else sys), None)
         | CMD_SIGNED_PUBLISH \<Rightarrow> (on_signed_publish A st frame, None)
         | CMD_SIGNED_MESSAGE \<Rightarrow> (st, None)
         | _ \<Rightarrow> ((ses, sendBinary ses (error_frame ''Unknown command'') sys), None))"

section \<open>RESP commands\<close>

definition toupper :: "char \<Rightarrow> char" where
  "toupper c = (if CHR ''a'' \<le> c \<and> c \<le> CHR ''z'' then char_of (of_char c - 32 :: nat) else c)"

text \<open>The loop of \<^verbatim>\<open>SUBSCRIBE\<close> over the topics from index \<open>i\<close> on.\<close>

fun resp_subscribe :: "('e, 't, 'r) ambient \<Rightarrow> Session \<Rightarrow> int \<Rightarrow> RespValue list \<Rightarrow> 'e system \<Rightarrow> 'e system \<times> exn option" where
  "resp_subscribe A ses i [] sys = (sys, None)"
| "resp_subscribe A ses i (v # vs) sys =
     (case subscribe (amb_lmdb A) (sys_broker sys) (ses_id ses) (asString v) of
        (b, Some x) \<Rightarrow> (sys\<lparr>sys_broker := b\<rparr>, Some x)
      | (b, None) \<Rightarrow>
          resp_subscribe A ses (i + 1) vs
            (sendResp ses (RArray [BulkString ''subscribe'', BulkString (asString v), RInteger i]) (sys\<lparr>sys_broker := b\<rparr>)))"

fun resp_unsubscribe :: "Session \<Rightarrow> RespValue list \<Rightarrow> 'e system \<Rightarrow> 'e system" where
  "resp_unsubscribe ses [] sys = sys"
| "resp_unsubscribe ses (v # vs) sys =
     resp_unsubscribe ses vs
       (sendResp ses (RArray [BulkString ''unsubscribe'', BulkString (asString v), RInteger 0])
          (with_broker (\<lambda>b. unsubscribe b (ses_id ses) (asString v)) sys))"

definition handleCommand :: "('e, 't, 'r) ambient \<Rightarrow> ('e conn, RespValue) handler" where
  "handleCommand A st0 command =
     (let ses = fst st0; sys = (snd st0)\<lparr>sys_tick := sys_tick (snd st0) + 1\<rparr>; arr = asArray command
      in if \<not> isArray command then ((ses, sendResp ses (RError ''ERR Protocol error: expected array'') sys), None)
         else case arr of
           [] \<Rightarrow> ((ses, sendResp ses (RError ''ERR empty command'') sys), None)
         | c # args \<Rightarrow>
             let cmd = map toupper (asString c)
             in if cmd = ''SUBSCRIBE'' then
                  (let (sys1, x) = resp_subscribe A ses 1 args sys in ((ses, sys1), x))
                else if cmd = ''UNSUBSCRIBE'' then ((ses, resp_unsubscribe ses args sys), None)
                else if cmd = ''PUBLISH'' then
                  (case args of
                     [t, p] \<Rightarrow>
                       let topic = asString t;
                           serialized = resp_serialize (RArray [BulkString ''message'', BulkString topic, BulkString (asString p)])
                       in ((ses, sendResp ses (RInteger 1)
                             (with_broker (\<lambda>b. fst (publish (amb_lmdb A) (amb_latency A) b topic serialized)) sys)), None)
                   | _ \<Rightarrow> ((ses, sendResp ses (RError ''ERR wrong number of arguments for PUBLISH'') sys), None))
                else if cmd = ''PING'' then
                  (case args of
                     [] \<Rightarrow> ((ses, sendResp ses (SimpleString ''PONG'') sys), None)
                   | m # _ \<Rightarrow> ((ses, sendResp ses (BulkString (asString m)) sys), None))
                else if cmd = ''ACK'' then
                  (case args of
                     [n] \<Rightarrow>
                       let sys1 = (if client_id ses \<noteq> []
                             then with_broker (\<lambda>b. handleAck (amb_lmdb A) b (client_id ses) (word_of_int (asInteger n))) sys
                             else sys)
                       in ((ses, sendResp ses (SimpleString ''OK'') sys1), None)
                   | _ \<Rightarrow> ((ses, sendResp ses (RError ''ERR wrong number of arguments for ACK'') sys), None))
                else ((ses, sendResp ses (RError (''ERR unknown command '' @ [CHR 0x27] @ cmd @ [CHR 0x27])) sys), None))"

section \<open>The run loop\<close>

text \<open>
  The outcomes of \<^verbatim>\<open>recv\<close>: a timeout or data at a time of the monotonic clock, in nanoseconds, an error,
  or the end of the stream. \<open>Waiting\<close> means that the events are used up while the loop still runs.
\<close>

datatype recv_event = Recv_timeout int | Recv_error | Recv_closed | Recv_data int bytes
datatype run_status = Waiting | Finished

text \<open>The two inner loops; the outcome is the new state and buffer and a caught exception.\<close>

definition drain :: "('e, 't, 'r) ambient \<Rightarrow> 'e conn \<Rightarrow> ('e conn \<times> bytes \<times> exn option) option" where
  "drain A st =
     (case protocol_type (fst st) of
        RESP \<Rightarrow> recv_loop resp_parse (handleCommand A) st (recv_buffer (fst st))
      | BINARY \<Rightarrow> recv_loop parse (handleBinaryFrame A) st (recv_buffer (fst st))
      | UNKNOWN \<Rightarrow> Some (st, recv_buffer (fst st), None))"

definition too_large :: bytes where
  "too_large = ''Message too large '' @ [CHR 0xE2, CHR 0x80, CHR 0x94] @ '' connection closed''"

text \<open>One iteration on received data; \<open>None\<close> in the inner option means that an inner loop does not end.\<close>

definition on_data :: "('e, 't, 'r) ambient \<Rightarrow> 'e conn \<Rightarrow> int \<Rightarrow> bytes \<Rightarrow> ('e conn \<times> run_status) option" where
  "on_data A st now data =
     (let ses = (fst st)\<lparr>last_activity := now\<rparr>; sys = snd st
      in if MAX_RECV_BUFFER < length (recv_buffer ses) + length data
         then Some ((ses, sendBinary ses (error_frame too_large) sys), Finished)
         else
           let ses1 = ses\<lparr>recv_buffer := recv_buffer ses @ data\<rparr>;
               ses2 = (if protocol_type ses1 = UNKNOWN
                       then ses1\<lparr>protocol_type := detectProtocol (recv_buffer ses1)\<rparr> else ses1)
           in case drain A (ses2, sys) of
                None \<Rightarrow> None
              | Some ((ses3, sys3), r, None) \<Rightarrow> Some ((ses3\<lparr>recv_buffer := r\<rparr>, sys3), Waiting)
              | Some ((ses3, sys3), r, Some x) \<Rightarrow> Some ((ses3\<lparr>recv_buffer := r\<rparr>, sys3), Finished))"

fun session_loop :: "('e, 't, 'r) ambient \<Rightarrow> 'e conn \<Rightarrow> recv_event list \<Rightarrow> ('e conn \<times> run_status) option" where
  "session_loop A st [] = Some (st, Waiting)"
| "session_loop A st (Recv_timeout now # evs) =
     (if SESSION_IDLE_TIMEOUT_S \<le> (now - last_activity (fst st)) div 10 ^ 9 then Some (st, Finished)
      else session_loop A st evs)"
| "session_loop A st (Recv_error # evs) = Some (st, Finished)"
| "session_loop A st (Recv_closed # evs) = Some (st, Finished)"
| "session_loop A st (Recv_data now data # evs) =
     (case on_data A st now data of
        None \<Rightarrow> None
      | Some (st', Finished) \<Rightarrow> Some (st', Finished)
      | Some (st', Waiting) \<Rightarrow> session_loop A st' evs)"

text \<open>What follows the loop, whether it was left by \<^verbatim>\<open>break\<close> or by an exception.\<close>

definition session_cleanup :: "'e conn \<Rightarrow> 'e system" where
  "session_cleanup st =
     (let (ses, sys) = st;
          sys1 = (if client_id ses \<noteq> [] then with_broker (\<lambda>b. unregisterClient b (client_id ses)) sys else sys)
      in with_broker (\<lambda>b. removeSession b (ses_id ses)) sys1)"

definition session_run :: "('e, 't, 'r) ambient \<Rightarrow> 'e conn \<Rightarrow> recv_event list \<Rightarrow> ('e conn \<times> run_status) option" where
  "session_run A st evs =
     (case session_loop A st evs of
        None \<Rightarrow> None
      | Some (st', Waiting) \<Rightarrow> Some (st', Waiting)
      | Some (st', Finished) \<Rightarrow> Some ((fst st', session_cleanup st'), Finished))"

section \<open>A session only makes broker steps\<close>

abbreviation (input) bsteps :: "('e, 't, 'r) ambient \<Rightarrow> 'e Broker \<Rightarrow> 'e Broker \<Rightarrow> bool" where
  "bsteps A \<equiv> (broker_step (amb_lmdb A) (amb_order A) (amb_latency A))\<^sup>*\<^sup>*"

lemma sessions_frame [simp]:
  "b_sessions (subscribe_locked b s t) = b_sessions b" "b_sessions (unsubscribe b s t) = b_sessions b"
  "b_sessions (unregisterClient b c) = b_sessions b" "b_sessions (registerClient L ord b c s) = b_sessions b"
  "b_sessions (send_to s d b) = b_sessions b" "b_sessions (handleAck L b c n) = b_sessions b"
  "b_sessions (fst (publish L lat b t p)) = b_sessions b"
  by (simp_all add: subscribe_locked_def unsubscribe_def unregisterClient_def handleAck_def
      registerClient_def send_to_def update_metrics_def publish_eq Let_def split: option.split)

lemma sessions_replay [simp]:
  "b_sessions (fst (replayMessages L b s t n)) = b_sessions b"
  "b_sessions (fst (replayMessagesForClient L b s t c)) = b_sessions b"
proof -
  show "b_sessions (fst (replayMessages L b s t n)) = b_sessions b"
    using replay_eq [of L b s t n] by fastforce
  show "b_sessions (fst (replayMessagesForClient L b s t c)) = b_sessions b"
    using replay_client_eq [of L b s t c] by fastforce
qed

lemma sessions_subscribe [simp]: "b_sessions (fst (subscribe L b s t)) = b_sessions b"
  by (simp add: subscribe_def)

text \<open>
  What a handler of a connected session may do: the session keeps its identity and stays connected,
  and the broker goes through broker steps.
\<close>

definition conn_ok :: "('e, 't, 'r) ambient \<Rightarrow> 'e conn \<Rightarrow> 'e conn \<Rightarrow> bool" where
  "conn_ok A st st' \<longleftrightarrow> ses_id (fst st') = ses_id (fst st) \<and>
     ses_id (fst st) \<in> set (b_sessions (sys_broker (snd st'))) \<and>
     b_sessions (sys_broker (snd st')) = b_sessions (sys_broker (snd st)) \<and>
     bsteps A (sys_broker (snd st)) (sys_broker (snd st'))"

lemma conn_ok_refl: "ses_id (fst st) \<in> set (b_sessions (sys_broker (snd st))) \<Longrightarrow> conn_ok A st st"
  by (simp add: conn_ok_def)

lemma conn_ok_trans: "conn_ok A st st1 \<Longrightarrow> conn_ok A st1 st2 \<Longrightarrow> conn_ok A st st2"
  by (auto simp: conn_ok_def)

lemma conn_ok_step:
  assumes "ses_id ses \<in> set (b_sessions (sys_broker sys))" and "ses_id ses' = ses_id ses"
    and "b_sessions (sys_broker sys') = b_sessions (sys_broker sys)"
    and "broker_step (amb_lmdb A) (amb_order A) (amb_latency A) (sys_broker sys) (sys_broker sys')"
  shows "conn_ok A (ses, sys) (ses', sys')"
  using assms by (auto simp: conn_ok_def)

lemma conn_ok_live: "conn_ok A st st' \<Longrightarrow> ses_id (fst st') \<in> set (b_sessions (sys_broker (snd st')))"
  by (auto simp: conn_ok_def)

lemma with_broker_sel [simp]:
  "sys_broker (with_broker f sys) = f (sys_broker sys)" "sys_keys (with_broker f sys) = sys_keys sys"
  "sys_tick (with_broker f sys) = sys_tick sys"
  by (simp_all add: with_broker_def)

lemma conn_ok_send:
  assumes "ses_id ses \<in> set (b_sessions (sys_broker sys))"
  shows "conn_ok A (ses, sys) (ses, sendBinary ses f sys)" "conn_ok A (ses, sys) (ses, sendResp ses v sys)"
  using assms by (auto intro!: conn_ok_step step_send simp: sendBinary_def sendResp_def)

lemma conn_ok_silent:
  assumes "ses_id ses \<in> set (b_sessions (sys_broker sys))" "ses_id ses' = ses_id ses" "sys_broker sys' = sys_broker sys"
  shows "conn_ok A (ses, sys) (ses', sys')"
  using assms by (simp add: conn_ok_def)

text \<open>A step by \<open>f\<close> followed by a reply to the client.\<close>

lemma conn_ok_reply:
  assumes "ses_id ses \<in> set (b_sessions (sys_broker sys))" and "ses_id ses' = ses_id ses"
    and "b_sessions (f (sys_broker sys)) = b_sessions (sys_broker sys)"
    and "broker_step (amb_lmdb A) (amb_order A) (amb_latency A) (sys_broker sys) (f (sys_broker sys))"
  shows "conn_ok A (ses, sys) (ses', sendBinary ses' fr (with_broker f sys))"
    "conn_ok A (ses, sys) (ses', sendResp ses' v (with_broker f sys))"
proof -
  have 1: "conn_ok A (ses, sys) (ses', with_broker f sys)"
    using assms by (intro conn_ok_step) simp_all
  show "conn_ok A (ses, sys) (ses', sendBinary ses' fr (with_broker f sys))"
    "conn_ok A (ses, sys) (ses', sendResp ses' v (with_broker f sys))"
    using conn_ok_live [OF 1] by (auto intro!: conn_ok_trans [OF 1] conn_ok_send)
qed

lemma subscribe_step:
  assumes "ses_id ses \<in> set (b_sessions (sys_broker sys))" and "ses_id ses' = ses_id ses"
    and "subscribe (amb_lmdb A) (sys_broker sys) (ses_id ses) t = (b, x)"
  shows "conn_ok A (ses, sys) (ses', sys\<lparr>sys_broker := b\<rparr>)"
proof -
  have "b = fst (subscribe (amb_lmdb A) (sys_broker sys) (ses_id ses) t)" using assms(3) by simp
  then show ?thesis using assms(1,2) by (intro conn_ok_step) (auto intro: step_subscribe)
qed

lemma replay_client_step:
  assumes "ses_id ses \<in> set (b_sessions (sys_broker sys))" and "ses_id ses' = ses_id ses"
    and "replayMessagesForClient (amb_lmdb A) (sys_broker sys) (ses_id ses) t c = (b, x)"
  shows "conn_ok A (ses, sys) (ses', sys\<lparr>sys_broker := b\<rparr>)"
proof -
  have "b = fst (replayMessagesForClient (amb_lmdb A) (sys_broker sys) (ses_id ses) t c)" using assms(3) by simp
  then show ?thesis using assms(1,2) by (intro conn_ok_step) (auto intro: step_replay)
qed

lemma on_subscribe_ok:
  assumes "ses_id ses \<in> set (b_sessions (sys_broker sys))"
  shows "conn_ok A (ses, sys) (fst (on_subscribe A (ses, sys) fr))"
proof (cases "str_find CHR 0x00 (frame_topic fr)")
  case None
  obtain b x where s: "subscribe (amb_lmdb A) (sys_broker sys) (ses_id ses) (frame_topic fr) = (b, x)" by fastforce
  have 1: "conn_ok A (ses, sys) (ses, sys\<lparr>sys_broker := b\<rparr>)" by (rule subscribe_step [OF assms _ s]) simp
  with None s conn_ok_trans [OF 1 conn_ok_send(1)] conn_ok_live [OF 1] show ?thesis
    by (cases x) (simp_all add: on_subscribe_def)
next
  case (Some sep)
  define ses1 where "ses1 = ses\<lparr>client_id := take sep (frame_topic fr)\<rparr>"
  define sys1 where "sys1 = with_broker (\<lambda>b. registerClient (amb_lmdb A) (amb_order A) b (client_id ses1) (ses_id ses1)) sys"
  have 1: "conn_ok A (ses, sys) (ses1, sys1)"
    using assms by (intro conn_ok_step) (auto simp: sys1_def ses1_def intro: step_register)
  obtain b x where s: "subscribe (amb_lmdb A) (sys_broker sys1) (ses_id ses1) (drop (sep + 1) (frame_topic fr)) = (b, x)"
    by fastforce
  have 2: "conn_ok A (ses, sys) (ses1, sys1\<lparr>sys_broker := b\<rparr>)"
    using conn_ok_live [OF 1] by (auto intro: conn_ok_trans [OF 1] subscribe_step [OF _ _ s])
  obtain b' x' where r: "replayMessagesForClient (amb_lmdb A) b (ses_id ses1) (drop (sep + 1) (frame_topic fr)) (client_id ses1) = (b', x')"
    by fastforce
  have 3: "conn_ok A (ses, sys) (ses1, sys1\<lparr>sys_broker := b'\<rparr>)"
    using conn_ok_live [OF 2] replay_client_step [of ses1 "sys1\<lparr>sys_broker := b\<rparr>" ses1 A] r
    by (auto intro: conn_ok_trans [OF 2])
  have "fst (on_subscribe A (ses, sys) fr) =
      (case x of Some _ \<Rightarrow> (ses1, sys1\<lparr>sys_broker := b\<rparr>)
       | None \<Rightarrow> (case x' of Some _ \<Rightarrow> (ses1, sys1\<lparr>sys_broker := b'\<rparr>)
          | None \<Rightarrow> (ses1, sendBinary ses1 (ack_frame (frame_sequence fr)) (sys1\<lparr>sys_broker := b'\<rparr>))))"
    unfolding on_subscribe_def Let_def prod.case Some option.case ses1_def [symmetric] sys1_def [symmetric] s r
    by (simp split: option.split)
  with 2 3 conn_ok_trans [OF 3 conn_ok_send(1)] conn_ok_live [OF 3] show ?thesis
    by (simp split: option.split)
qed

lemma on_publish_ok:
  assumes "ses_id ses \<in> set (b_sessions (sys_broker sys))"
  shows "conn_ok A (ses, sys) (on_publish A (ses, sys) fr)"
  using assms
  by (auto simp: on_publish_def Let_def intro!: conn_ok_send conn_ok_reply step_publish)

lemma on_signed_publish_ok:
  assumes "ses_id ses \<in> set (b_sessions (sys_broker sys))"
  shows "conn_ok A (ses, sys) (on_signed_publish A (ses, sys) fr)"
proof -
  obtain keys1 valid where v: "verify_with_key (amb_sodium A) (amb_clock A (sys_tick sys)) (sys_keys sys)
      (frame_key_id fr) (map byte_of_char (frame_topic fr @ frame_payload fr)) (frame_signature fr) = (keys1, valid)"
    by fastforce
  let ?sys1 = "sys\<lparr>sys_keys := keys1\<rparr>"
  have 1: "conn_ok A (ses, sys) (ses, ?sys1)" using assms by (intro conn_ok_silent) simp_all
  have 2: "ses_id ses \<in> set (b_sessions (sys_broker ?sys1))" using assms by simp
  show ?thesis
    unfolding on_signed_publish_def Let_def prod.case v
    using 2 by (auto intro!: conn_ok_trans [OF 1] conn_ok_send conn_ok_reply step_publish simp del: system.simps)
qed

lemma handleBinaryFrame_ok:
  assumes "ses_id (fst st) \<in> set (b_sessions (sys_broker (snd st)))"
  shows "conn_ok A st (fst (handleBinaryFrame A st fr))"
proof -
  obtain ses sys where st: "st = (ses, sys)" by fastforce
  let ?sys = "sys\<lparr>sys_tick := sys_tick sys + 1\<rparr>"
  have live: "ses_id ses \<in> set (b_sessions (sys_broker ?sys))" using assms by (simp add: st)
  have 1: "conn_ok A (ses, sys) (ses, ?sys)" using assms by (intro conn_ok_silent) (simp_all add: st)
  have "conn_ok A (ses, ?sys) (fst (handleBinaryFrame A st fr))"
  proof (cases "frame_command fr")
    case CMD_ACK
    have "conn_ok A (ses, ?sys) (ses, with_broker (\<lambda>b. handleAck (amb_lmdb A) b c n) ?sys)" for c n
      using live by (intro conn_ok_step) (simp_all add: step_ack)
    with CMD_ACK conn_ok_refl [of "(ses, ?sys)" A] live show ?thesis by (simp add: handleBinaryFrame_def st)
  qed (use live in \<open>auto simp: handleBinaryFrame_def st intro!: on_subscribe_ok on_publish_ok on_signed_publish_ok
      conn_ok_send conn_ok_reply step_unsubscribe conn_ok_refl\<close>)
  then show ?thesis unfolding st by (rule conn_ok_trans [OF 1])
qed

lemma resp_subscribe_ok:
  "ses_id ses \<in> set (b_sessions (sys_broker sys)) \<Longrightarrow>
   conn_ok A (ses, sys) (ses, fst (resp_subscribe A ses i vs sys))"
proof (induction A ses i vs sys rule: resp_subscribe.induct)
  case (1 A ses i sys)
  then show ?case by (simp add: conn_ok_refl)
next
  case (2 A ses i v vs sys)
  obtain b x where s: "subscribe (amb_lmdb A) (sys_broker sys) (ses_id ses) (asString v) = (b, x)" by fastforce
  have 1: "conn_ok A (ses, sys) (ses, sys\<lparr>sys_broker := b\<rparr>)" by (rule subscribe_step [OF 2(2) _ s]) simp
  show ?case
  proof (cases x)
    case None
    let ?sys = "sendResp ses (RArray [BulkString ''subscribe'', BulkString (asString v), RInteger i]) (sys\<lparr>sys_broker := b\<rparr>)"
    have 3: "conn_ok A (ses, sys) (ses, ?sys)"
      using conn_ok_live [OF 1] by (intro conn_ok_trans [OF 1 conn_ok_send(2)]) simp
    have "conn_ok A (ses, ?sys) (ses, fst (resp_subscribe A ses (i + 1) vs ?sys))"
      using conn_ok_live [OF 3] by (intro 2(1) [OF s [symmetric] None]) simp
    from conn_ok_trans [OF 3 this] s None show ?thesis by simp
  qed (use 1 s in simp)
qed

lemma resp_unsubscribe_ok:
  "ses_id ses \<in> set (b_sessions (sys_broker sys)) \<Longrightarrow>
   conn_ok A (ses, sys) (ses, resp_unsubscribe ses vs sys)"
proof (induction ses vs sys rule: resp_unsubscribe.induct)
  case (1 ses sys)
  then show ?case by (simp add: conn_ok_refl)
next
  case (2 ses v vs sys)
  let ?sys = "sendResp ses (RArray [BulkString ''unsubscribe'', BulkString (asString v), RInteger 0])
          (with_broker (\<lambda>b. unsubscribe b (ses_id ses) (asString v)) sys)"
  have 1: "conn_ok A (ses, sys) (ses, ?sys)"
    using 2(2) by (intro conn_ok_reply) (simp_all add: step_unsubscribe)
  with 2(1) conn_ok_live [OF 1] show ?case by (auto intro: conn_ok_trans)
qed

lemma handleCommand_ok:
  assumes "ses_id (fst st) \<in> set (b_sessions (sys_broker (snd st)))"
  shows "conn_ok A st (fst (handleCommand A st v))"
proof -
  obtain ses sys where st: "st = (ses, sys)" by fastforce
  define sys1 where "sys1 = sys\<lparr>sys_tick := sys_tick sys + 1\<rparr>"
  have live: "ses_id ses \<in> set (b_sessions (sys_broker sys1))" using assms by (simp add: st sys1_def)
  have 1: "conn_ok A (ses, sys) (ses, sys1)" using assms by (intro conn_ok_silent) (simp_all add: st sys1_def)
  have ack: "conn_ok A (ses, sys1) (ses, sendResp ses w (with_broker (\<lambda>b. handleAck (amb_lmdb A) b c n) sys1))" for w c n
    using live by (intro conn_ok_reply) (simp_all add: step_ack)
  have pub: "conn_ok A (ses, sys1) (ses, sendResp ses w
      (with_broker (\<lambda>b. fst (publish (amb_lmdb A) (amb_latency A) b t p)) sys1))" for w t p
    using live by (intro conn_ok_reply) (simp_all add: step_publish)
  have sub: "conn_ok A (ses, sys1) (ses, fst (resp_subscribe A ses i vs sys1))" for i vs
    by (rule resp_subscribe_ok [OF live])
  have "conn_ok A (ses, sys1) (fst (handleCommand A st v))"
    unfolding handleCommand_def st Let_def fst_conv snd_conv sys1_def [symmetric]
    using ack pub sub conn_ok_send(2) [OF live, of A] resp_unsubscribe_ok [OF live, of A]
    by (auto simp: case_prod_beta split: list.split)
  then show ?thesis unfolding st by (rule conn_ok_trans [OF 1])
qed

lemma drain_ok:
  assumes "ses_id (fst st) \<in> set (b_sessions (sys_broker (snd st)))" and "drain A st = Some (st', r, x)"
  shows "conn_ok A st st'"
proof -
  have refl: "conn_ok A st st" by (rule conn_ok_refl [OF assms(1)])
  have B: "conn_ok A st (fst (handleBinaryFrame A s1 m))" if "conn_ok A st s1" for s1 m
    by (rule conn_ok_trans [OF that handleBinaryFrame_ok [OF conn_ok_live [OF that]]])
  have R: "conn_ok A st (fst (handleCommand A s1 m))" if "conn_ok A st s1" for s1 m
    by (rule conn_ok_trans [OF that handleCommand_ok [OF conn_ok_live [OF that]]])
  show ?thesis
  proof (cases "protocol_type (fst st)")
    case UNKNOWN
    with assms(2) refl show ?thesis by (simp add: drain_def)
  next
    case RESP
    then have "recv_loop resp_parse (handleCommand A) st (recv_buffer (fst st)) = Some (st', r, x)"
      using assms(2) by (simp add: drain_def)
    from resp_codec.loop_invariant [where P = "conn_ok A st", OF _ this refl] R show ?thesis by blast
  next
    case BINARY
    then have "recv_loop parse (handleBinaryFrame A) st (recv_buffer (fst st)) = Some (st', r, x)"
      using assms(2) by (simp add: drain_def)
    from binary_codec.loop_invariant [where P = "conn_ok A st", OF _ this refl] B show ?thesis by blast
  qed
qed

lemma drain_returns: "\<exists>st' r x. drain A st = Some (st', r, x) \<and> length r \<le> length (recv_buffer (fst st))"
proof (cases "protocol_type (fst st)")
  case RESP
  obtain st' r x where l: "recv_loop resp_parse (handleCommand A) st (recv_buffer (fst st)) = Some (st', r, x)"
    using resp_codec.loop_returns [of "handleCommand A" st] by blast
  with resp_codec.loop_suffix [OF l] RESP show ?thesis by (auto simp: drain_def)
next
  case BINARY
  obtain st' r x where l: "recv_loop parse (handleBinaryFrame A) st (recv_buffer (fst st)) = Some (st', r, x)"
    using binary_codec.loop_returns [of "handleBinaryFrame A" st] by blast
  with binary_codec.loop_suffix [OF l] BINARY show ?thesis by (auto simp: drain_def)
qed (simp add: drain_def)

text \<open>A chunk: it is handled to the end, the buffer keeps its bound, and the broker makes steps.\<close>

lemma on_data_ok:
  assumes "ses_id (fst st) \<in> set (b_sessions (sys_broker (snd st)))" and "length (recv_buffer (fst st)) \<le> MAX_RECV_BUFFER"
  shows "\<exists>st' w. on_data A st now data = Some (st', w) \<and> conn_ok A st st' \<and> length (recv_buffer (fst st')) \<le> MAX_RECV_BUFFER"
proof -
  obtain ses0 sys where st: "st = (ses0, sys)" by fastforce
  define ses where "ses = ses0\<lparr>last_activity := now\<rparr>"
  have live: "ses_id ses \<in> set (b_sessions (sys_broker sys))" using assms(1) by (simp add: st ses_def)
  have 0: "conn_ok A st (ses', sys)" if "ses_id ses' = ses_id ses0" for ses'
    using assms(1) that unfolding st by (intro conn_ok_silent) simp_all
  show ?thesis
  proof (cases "MAX_RECV_BUFFER < length (recv_buffer ses) + length data")
    case True
    have "conn_ok A st (ses, sendBinary ses (error_frame too_large) sys)"
      by (rule conn_ok_trans [OF 0 conn_ok_send(1) [OF live]]) (simp add: ses_def)
    with True assms(2) show ?thesis by (auto simp: on_data_def st ses_def Let_def)
  next
    case False
    define ses1 where "ses1 = ses\<lparr>recv_buffer := recv_buffer ses @ data\<rparr>"
    define ses2 where "ses2 = (if protocol_type ses1 = UNKNOWN
      then ses1\<lparr>protocol_type := detectProtocol (recv_buffer ses1)\<rparr> else ses1)"
    have id: "ses_id ses2 = ses_id ses0" and buf: "recv_buffer ses2 = recv_buffer ses @ data"
      by (simp_all add: ses2_def ses1_def ses_def)
    obtain st3 r x where d: "drain A (ses2, sys) = Some (st3, r, x)" "length r \<le> length (recv_buffer ses2)"
      using drain_returns [of A "(ses2, sys)"] by auto
    obtain ses3 sys3 where st3: "st3 = (ses3, sys3)" by fastforce
    have 3: "conn_ok A st (ses3, sys3)"
      using conn_ok_trans [OF 0 [OF id] drain_ok [OF _ d(1)]] live id by (simp add: ses_def st3)
    have 4: "conn_ok A st (ses3\<lparr>recv_buffer := r\<rparr>, sys3)"
      using 3 by (auto simp: conn_ok_def)
    have "on_data A st now data = Some ((ses3\<lparr>recv_buffer := r\<rparr>, sys3), if x = None then Waiting else Finished)"
      unfolding on_data_def st Let_def fst_conv snd_conv ses_def [symmetric] ses1_def [symmetric] ses2_def [symmetric] d(1) st3
      using False by (cases x) simp_all
    with 4 d(2) buf False show ?thesis by auto
  qed
qed

lemma session_loop_ok:
  assumes "ses_id (fst st) \<in> set (b_sessions (sys_broker (snd st)))" and "length (recv_buffer (fst st)) \<le> MAX_RECV_BUFFER"
  shows "\<exists>st' w. session_loop A st evs = Some (st', w) \<and> conn_ok A st st' \<and> length (recv_buffer (fst st')) \<le> MAX_RECV_BUFFER"
  using assms
proof (induction A st evs rule: session_loop.induct)
  case (5 A st now data evs)
  obtain st1 w where 1: "on_data A st now data = Some (st1, w)" "conn_ok A st st1"
      "length (recv_buffer (fst st1)) \<le> MAX_RECV_BUFFER"
    using on_data_ok [OF 5(2,3)] by blast
  show ?case
  proof (cases w)
    case Waiting
    with 5(1) [OF 1(1) refl Waiting conn_ok_live [OF 1(2)] 1(3)] 1 show ?thesis
      by (auto intro: conn_ok_trans)
  qed (use 1 in simp)
qed (auto simp: conn_ok_refl)

section \<open>Properties\<close>

text \<open>A small surrounding for concrete runs: the reference engine, the demonstration signer, fixed clocks.\<close>

definition demo_ambient :: "(tree, tree, unit) ambient" where
  "demo_ambient =
     \<lparr>amb_lmdb = rbt_lmdb (\<lambda>_. False), amb_sodium = demo_sodium, amb_order = sorted_list_of_set,
      amb_latency = (\<lambda>_. 0), amb_clock = (\<lambda>_. 0)\<rparr>"

definition demo_broker :: "tree Broker" where
  "demo_broker = fst (accept_step (broker_new (rbt_lmdb (\<lambda>_. False)) RBT.empty) (Accepted 7))"

definition demo_system :: "TrustedKeyStore \<Rightarrow> tree system" where
  "demo_system keys = \<lparr>sys_broker = demo_broker, sys_keys = keys, sys_tick = 0\<rparr>"

lemma demo_engine: "lmdb_engine (amb_lmdb demo_ambient) RBT.lookup RBT.lookup"
  using rbt_engine.lmdb_engine_axioms by (simp add: demo_ambient_def)

lemma demo_reachable:
  "reachable (amb_lmdb demo_ambient) (amb_order demo_ambient) (amb_latency demo_ambient) RBT.empty (sys_broker (demo_system keys))"
  unfolding reachable_def demo_ambient_def demo_system_def demo_broker_def ambient.simps system.simps
  by (intro r_into_rtranclp step_accept) (simp_all add: broker_new_def)

lemma demo_sessions: "b_sessions demo_broker = [7]"
  by (simp add: demo_broker_def accept_step_def broker_new_def update_metrics_def MAX_CONNECTIONS_def Let_def)

text \<open>
  (C9) The run loop of a connected session is total and safe for every sequence of \<^verbatim>\<open>recv\<close> outcomes: it
  never loops forever and lets no exception escape, its receive buffer never exceeds 16 MB, the
  broker only goes through broker steps, and when the loop ends the session is gone from the
  connection table and from every topic.
\<close>

theorem session_run_total:
  assumes "reachable (amb_lmdb A) (amb_order A) (amb_latency A) e (sys_broker sys)"
    and "ses_id ses \<in> set (b_sessions (sys_broker sys))" and "length (recv_buffer ses) \<le> MAX_RECV_BUFFER"
  shows "\<exists>ses' sys' w. session_run A (ses, sys) evs = Some ((ses', sys'), w) \<and>
    length (recv_buffer ses') \<le> MAX_RECV_BUFFER \<and>
    reachable (amb_lmdb A) (amb_order A) (amb_latency A) e (sys_broker sys') \<and>
    (w = Finished \<longrightarrow> ses_id ses \<notin> set (b_sessions (sys_broker sys')) \<and>
       (\<forall>t. ses_id ses \<notin> set (subscribers (sys_broker sys') t)))"
proof -
  obtain ses1 sys1 w where l: "session_loop A (ses, sys) evs = Some ((ses1, sys1), w)"
      and ok: "conn_ok A (ses, sys) (ses1, sys1)" and buf: "length (recv_buffer ses1) \<le> MAX_RECV_BUFFER"
    using session_loop_ok [of "(ses, sys)" A evs] assms(2,3) by auto
  have id: "ses_id ses1 = ses_id ses" using ok by (simp add: conn_ok_def)
  have reach1: "reachable (amb_lmdb A) (amb_order A) (amb_latency A) e (sys_broker sys1)"
    using assms(1) ok by (auto simp: reachable_def conn_ok_def)
  show ?thesis
  proof (cases w)
    case Waiting
    with l buf reach1 show ?thesis by (simp add: session_run_def)
  next
    case Finished
    let ?b = "if client_id ses1 \<noteq> [] then unregisterClient (sys_broker sys1) (client_id ses1) else sys_broker sys1"
    have b: "sys_broker (session_cleanup (ses1, sys1)) = removeSession ?b (ses_id ses)"
      by (simp add: session_cleanup_def id)
    have "reachable (amb_lmdb A) (amb_order A) (amb_latency A) e ?b"
      using reach1 reachable_step [OF reach1 step_unregister] by simp
    moreover have "ses_id ses \<in> set (b_sessions ?b)" using conn_ok_live [OF ok] id by simp
    ultimately have reach2: "reachable (amb_lmdb A) (amb_order A) (amb_latency A) e (removeSession ?b (ses_id ses))"
      by (intro reachable_step [OF _ step_remove])
    have gone: "ses_id ses \<notin> set (b_sessions (removeSession ?b (ses_id ses)))"
      by (simp add: removeSession_def update_metrics_def Let_def)
    have "topics_inv (removeSession ?b (ses_id ses))"
      using reachable_inv [OF reach2] by (simp add: broker_inv_def)
    then have "ses_id ses \<notin> set (subscribers (removeSession ?b (ses_id ses)) t)" for t
      using subscribers_inv gone by blast
    with Finished l buf reach2 gone b show ?thesis by (simp add: session_run_def)
  qed
qed

theorem session_run_total_witness:
  "\<exists>ses' sys' w. session_run demo_ambient (session_new 7 0, demo_system ks_new)
     [Recv_data 1 ''*1'', Recv_timeout 2, Recv_closed] = Some ((ses', sys'), w) \<and>
     length (recv_buffer ses') \<le> MAX_RECV_BUFFER"
  using session_run_total [OF demo_reachable, of "session_new 7 0" ks_new "[Recv_data 1 ''*1'', Recv_timeout 2, Recv_closed]"]
  by (auto simp: demo_system_def demo_sessions session_new_def)

text \<open>
  (C8) The gate on \<^verbatim>\<open>secure/\<close> topics for binary clients: if a binary frame makes the broker publish anything
  (its sequence counter moves), the frame is an unsigned publish to a topic outside \<^verbatim>\<open>secure/\<close>, or a
  signed publish whose key is registered and enabled, whose signature verifies over topic and payload,
  and whose key is allowed on the topic.
\<close>

theorem binary_publish_gate:
  assumes "handleBinaryFrame A (ses, sys) f = ((ses', sys'), x)"
    and "current_sequence (sys_broker sys') \<noteq> current_sequence (sys_broker sys)"
  shows "frame_command f = CMD_PUBLISH \<and> \<not> starts_with (frame_topic f) ''secure/'' \<or>
    frame_command f = CMD_SIGNED_PUBLISH \<and>
    (\<exists>tk. get_key_info (sys_keys sys) (frame_key_id f) = Some tk \<and> tk_enabled tk \<and>
       verify (amb_sodium A) (map byte_of_char (frame_topic f @ frame_payload f)) (frame_signature f) (tk_public_key tk) \<and>
       (tk_allowed_topics tk = [] \<or> topic_allowed (tk_allowed_topics tk) (frame_topic f)))"
proof (cases "frame_command f")
  case CMD_SUBSCRIBE
  have "current_sequence (sys_broker (snd (fst (on_subscribe A (ses, sys1) f)))) = current_sequence (sys_broker sys1)" for sys1
    by (auto simp: on_subscribe_def sendBinary_def subscribe_def Let_def split: option.splits prod.splits)
      (metis fst_conv replay_frame sequence_frame)+
  with CMD_SUBSCRIBE assms show ?thesis
    by (simp add: handleBinaryFrame_def)  (metis fst_conv snd_conv system.select_convs(1) system.surjective system.update_convs(3))
next
  case CMD_PUBLISH
  with assms show ?thesis by (auto simp: handleBinaryFrame_def on_publish_def sendBinary_def split: if_splits)
next
  case CMD_SIGNED_PUBLISH
  let ?sys = "sys\<lparr>sys_tick := sys_tick sys + 1\<rparr>"
  obtain keys1 valid where v: "verify_with_key (amb_sodium A) (amb_clock A (sys_tick ?sys)) (sys_keys ?sys)
      (frame_key_id f) (map byte_of_char (frame_topic f @ frame_payload f)) (frame_signature f) = (keys1, valid)"
    by fastforce
  have acc: "valid \<and> key_scope_ok (get_key_info keys1 (frame_key_id f)) (frame_topic f)"
  proof (rule ccontr)
    assume "\<not> ?thesis"
    then have "current_sequence (sys_broker (snd (on_signed_publish A (ses, ?sys) f))) = current_sequence (sys_broker sys)"
      unfolding on_signed_publish_def Let_def prod.case v by (auto simp: sendBinary_def)
    with assms CMD_SIGNED_PUBLISH show False by (simp add: handleBinaryFrame_def)
  qed
  then obtain tk where tk: "get_key_info (sys_keys sys) (frame_key_id f) = Some tk" "tk_enabled tk"
      "verify (amb_sodium A) (map byte_of_char (frame_topic f @ frame_payload f)) (frame_signature f) (tk_public_key tk)"
    using verify_with_key_iff [of "amb_sodium A" "amb_clock A (sys_tick ?sys)" "sys_keys sys" "frame_key_id f"
        "map byte_of_char (frame_topic f @ frame_payload f)" "frame_signature f"] v
    by (auto simp: get_key_info_def)
  have "get_key_info keys1 (frame_key_id f) = Some (tk\<lparr>tk_last_used := amb_clock A (sys_tick ?sys)\<rparr>)"
    using verify_with_key_frame [of "amb_sodium A" "amb_clock A (sys_tick ?sys)" "sys_keys sys" "frame_key_id f"
        "map byte_of_char (frame_topic f @ frame_payload f)" "frame_signature f" "frame_key_id f"] v acc tk(1)
    by (simp add: get_key_info_def)
  with acc tk CMD_SIGNED_PUBLISH show ?thesis by (auto simp: key_scope_ok_def)
qed (use assms in \<open>auto simp: handleBinaryFrame_def sendBinary_def split: if_splits\<close>)

theorem binary_publish_gate_witness:
  "frame_command (publish_frame ''t'' ''x'' 1) = CMD_PUBLISH \<and> \<not> starts_with ''t'' ''secure/'' \<or>
   frame_command (publish_frame ''t'' ''x'' 1) = CMD_SIGNED_PUBLISH"
proof -
  let ?f = "publish_frame ''t'' ''x'' 1"
  obtain ses' sys' x where h: "handleBinaryFrame demo_ambient (session_new 7 0, demo_system ks_new) ?f = ((ses', sys'), x)"
    by (metis surj_pair)
  then have "current_sequence (sys_broker sys') = current_sequence (sys_broker (demo_system ks_new)) + 1"
    by (auto simp: handleBinaryFrame_def on_publish_def sendBinary_def frame_defs starts_with_def publish_eq Let_def)
  then have "current_sequence (sys_broker sys') \<noteq> current_sequence (sys_broker (demo_system ks_new))" by simp
  from binary_publish_gate [OF h this] show ?thesis by (auto simp: frame_defs)
qed

lemma signed_publish_sent:
  assumes "frame_command f = CMD_SIGNED_PUBLISH" and "get_key_info (sys_keys sys) (frame_key_id f) = Some tk"
    and "tk_enabled tk"
    and "verify (amb_sodium A) (map byte_of_char (frame_topic f @ frame_payload f)) (frame_signature f) (tk_public_key tk)"
    and "tk_allowed_topics tk = [] \<or> topic_allowed (tk_allowed_topics tk) (frame_topic f)"
    and "handleBinaryFrame A (ses, sys) f = ((ses', sys'), x)"
  shows "x = None \<and> sent (sys_broker sys') = sent (sys_broker sys) @
      map (\<lambda>s. (s, serialize (signed_message_frame (frame_topic f) (frame_payload f) (frame_signature f)
         (frame_key_id f) (ses_sequence ses + 1))))
        (subscribers (sys_broker sys) (frame_topic f) @ subscribers (sys_broker sys) ''#'') @
      [(ses_id ses, serialize (ack_frame (frame_sequence f)))]"
proof -
  let ?sys = "sys\<lparr>sys_tick := sys_tick sys + 1\<rparr>"
  obtain keys1 valid where v: "verify_with_key (amb_sodium A) (amb_clock A (sys_tick ?sys)) (sys_keys ?sys)
      (frame_key_id f) (map byte_of_char (frame_topic f @ frame_payload f)) (frame_signature f) = (keys1, valid)"
    by fastforce
  have valid: "valid"
    using v assms(2-4) verify_with_key_iff [of "amb_sodium A" "amb_clock A (sys_tick ?sys)" "sys_keys sys" "frame_key_id f"
        "map byte_of_char (frame_topic f @ frame_payload f)" "frame_signature f"]
    by (auto simp: get_key_info_def)
  have "get_key_info keys1 (frame_key_id f) = Some (tk\<lparr>tk_last_used := amb_clock A (sys_tick ?sys)\<rparr>)"
    using verify_with_key_frame [of "amb_sodium A" "amb_clock A (sys_tick ?sys)" "sys_keys sys" "frame_key_id f"
        "map byte_of_char (frame_topic f @ frame_payload f)" "frame_signature f" "frame_key_id f"] v valid assms(2)
    by (simp add: get_key_info_def)
  then have "key_scope_ok (get_key_info keys1 (frame_key_id f)) (frame_topic f)"
    using assms(5) by (auto simp: key_scope_ok_def)
  then have "sent (sys_broker (snd (on_signed_publish A (ses, ?sys) f))) = sent (sys_broker sys) @
      map (\<lambda>s. (s, serialize (signed_message_frame (frame_topic f) (frame_payload f) (frame_signature f)
         (frame_key_id f) (ses_sequence ses + 1))))
        (subscribers (sys_broker sys) (frame_topic f) @ subscribers (sys_broker sys) ''#'') @
      [(ses_id ses, serialize (ack_frame (frame_sequence f)))]"
    unfolding on_signed_publish_def Let_def prod.case v using valid
    by (simp add: sendBinary_def send_to_def publish_eq)
  with assms(1,6) show ?thesis by (auto simp: handleBinaryFrame_def)
qed

text \<open>
  A signed publish that passes the checks is forwarded unchanged: the subscribers receive the topic,
  the payload, the publisher's signature and key number in a signed message, the publisher an
  acknowledgement of its frame.
\<close>

theorem signed_publish_forwarded:
  assumes "frame_command f = CMD_SIGNED_PUBLISH" and "get_key_info (sys_keys sys) (frame_key_id f) = Some tk"
    and "tk_enabled tk"
    and "verify (amb_sodium A) (map byte_of_char (frame_topic f @ frame_payload f)) (frame_signature f) (tk_public_key tk)"
    and "tk_allowed_topics tk = [] \<or> topic_allowed (tk_allowed_topics tk) (frame_topic f)"
    and "handleBinaryFrame A (ses, sys) f = ((ses', sys'), x)"
  shows "x = None \<and> sent (sys_broker sys') = sent (sys_broker sys) @
      map (\<lambda>s. (s, serialize (signed_message_frame (frame_topic f) (frame_payload f) (frame_signature f)
         (frame_key_id f) (ses_sequence ses + 1))))
        (subscribers (sys_broker sys) (frame_topic f) @ subscribers (sys_broker sys) ''#'') @
      [(ses_id ses, serialize (ack_frame (frame_sequence f)))]"
  using assms by (rule signed_publish_sent)

theorem signed_publish_forwarded_witness:
  "\<exists>ses' sys'. handleBinaryFrame demo_ambient (session_new 7 0, demo_system (fst (register_key 0 ks_new [1] ''d'' [])))
     (signed_publish_frame [] [] [1] 1 5) = ((ses', sys'), None) \<and>
     sent (sys_broker sys') = [(7, serialize (ack_frame 5))]"
proof -
  let ?keys = "fst (register_key 0 ks_new [1] ''d'' [])" and ?f = "signed_publish_frame [] [] [1] 1 5"
  obtain ses' sys' x where h: "handleBinaryFrame demo_ambient (session_new 7 0, demo_system ?keys) ?f = ((ses', sys'), x)"
    by (metis surj_pair)
  have tk: "get_key_info (sys_keys (demo_system ?keys)) 1 = Some (new_key 0 [1] 1 ''d'' [])"
    by (simp add: demo_system_def get_key_info_def register_key_def ks_new_def Let_def)
  have "subscribers demo_broker t = []" and "sent demo_broker = []" for t
    by (simp_all add: demo_broker_def accept_step_def broker_new_def update_metrics_def subscribers_def Let_def)
  then show ?thesis
    using signed_publish_forwarded [OF _ _ _ _ _ h, of "new_key 0 [1] 1 ''d'' []"] tk h
    by (simp add: frame_defs new_key_def verify_def demo_ambient_def demo_sodium_def)
      (simp add: demo_system_def session_new_def)
qed

text \<open>
  An unsigned publish outside \<^verbatim>\<open>secure/\<close> goes to the subscribers as a \<^verbatim>\<open>MESSAGE\<close> frame with the same topic
  and payload, and is acknowledged. The number in that frame is the publishing session's own counter,
  not the sequence number the broker assigned and stored. An unsigned publish to a \<^verbatim>\<open>secure/\<close> topic
  sends one error frame to the publisher and changes nothing else in the broker.
\<close>

theorem binary_publish_effect:
  assumes "frame_command f = CMD_PUBLISH" and "handleBinaryFrame A (ses, sys) f = ((ses', sys'), x)"
  shows "x = None \<and>
    (\<not> starts_with (frame_topic f) ''secure/'' \<longrightarrow>
       sent (sys_broker sys') = sent (sys_broker sys) @
         map (\<lambda>s. (s, serialize (message_frame (frame_topic f) (frame_payload f) (ses_sequence ses + 1))))
           (subscribers (sys_broker sys) (frame_topic f) @ subscribers (sys_broker sys) ''#'') @
         [(ses_id ses, serialize (ack_frame (frame_sequence f)))] \<and>
       ses_sequence ses' = ses_sequence ses + 1 \<and>
       getLastSequence (sys_broker sys') = getLastSequence (sys_broker sys) + 1) \<and>
    (starts_with (frame_topic f) ''secure/'' \<longrightarrow>
       ses' = ses \<and>
       sys_broker sys' = (sys_broker sys)\<lparr>sent := sent (sys_broker sys) @
         [(ses_id ses, serialize (error_frame (secure_topic_error (frame_topic f))))]\<rparr>)"
  using assms
  by (auto simp: handleBinaryFrame_def on_publish_def sendBinary_def send_to_def publish_eq getLastSequence_def Let_def)

theorem binary_publish_effect_witness:
  "\<exists>ses' sys'. handleBinaryFrame demo_ambient (session_new 7 0, demo_system ks_new) (publish_frame ''secure/x'' ''y'' 1) =
     ((ses', sys'), None) \<and> ses' = session_new 7 0"
proof -
  obtain ses' sys' x where h: "handleBinaryFrame demo_ambient (session_new 7 0, demo_system ks_new)
      (publish_frame ''secure/x'' ''y'' 1) = ((ses', sys'), x)"
    by (metis surj_pair)
  from binary_publish_effect [OF _ h] h show ?thesis by (simp add: frame_defs starts_with_def)
qed

text \<open>
  The RESP path has no such gate: \<^verbatim>\<open>PUBLISH\<close> from any RESP client, on any topic including \<^verbatim>\<open>secure/\<close>,
  is stored and fanned out without a signature, and answered with 1 whatever the number of subscribers.
\<close>

theorem resp_publish_ungated:
  "\<exists>sys'. handleCommand A (ses, sys) (RArray [BulkString ''publish'', BulkString t, BulkString p]) = ((ses, sys'), None) \<and>
     sent (sys_broker sys') = sent (sys_broker sys) @
       map (\<lambda>s. (s, resp_serialize (RArray [BulkString ''message'', BulkString t, BulkString p])))
         (subscribers (sys_broker sys) t @ subscribers (sys_broker sys) ''#'') @
       [(ses_id ses, resp_serialize (RInteger 1))] \<and>
     current_sequence (sys_broker sys') = current_sequence (sys_broker sys) + 1"
proof -
  have cmd: "map toupper ''publish'' = ''PUBLISH''"
    by (simp add: toupper_def less_eq_char_def char_of_eq_iff)
  show ?thesis
    unfolding handleCommand_def Let_def
    by (simp add: cmd [simplified] sendResp_def send_to_def publish_eq)
qed



text \<open>
  The receive cap makes the largest frames unusable: a frame parsed from a buffer within the cap has
  a payload strictly smaller than the payload limit of the protocol, since the cap also covers the
  16-byte header and the topic.
\<close>

theorem largest_payload_unreachable:
  assumes "length buf \<le> MAX_RECV_BUFFER" and "parse buf = Inr (Some (f, n))"
  shows "length (frame_payload f) + length (frame_topic f) + MIN_FRAME_SIZE \<le> MAX_RECV_BUFFER \<and>
    length (frame_payload f) < unat MAX_PAYLOAD_LEN"
proof -
  have "n \<le> length buf" using binary_codec.progress [OF assms(2)] by simp
  moreover have "n = length (serialize f)" using parse_inverse_gen [OF assms(2)] by simp
  ultimately have "length (serialize f) \<le> MAX_RECV_BUFFER" using assms(1) by simp
  moreover have "length (frame_payload f) + length (frame_topic f) + 16 \<le> length (serialize f)"
    by (simp add: serialize_split)
  ultimately show ?thesis by (simp add: size_defs MAX_RECV_BUFFER_def)
qed

theorem largest_payload_unreachable_witness:
  "length (frame_payload (ack_frame 3)) < unat MAX_PAYLOAD_LEN"
proof -
  have v: "valid_frame (ack_frame 3)" by (simp add: valid_frame_eval)
  have "parse (serialize (ack_frame 3) @ []) = Inr (Some (ack_frame 3, length (serialize (ack_frame 3))))"
    by (rule parse_serialize_gen [OF v])
  moreover have "length (serialize (ack_frame 3) @ []) \<le> MAX_RECV_BUFFER"
    using v by (simp add: length_serialize calculateFrameSize_def frame_defs size_defs is_signed_cmd_def MAX_RECV_BUFFER_def)
  ultimately show ?thesis using largest_payload_unreachable by blast
qed

text \<open>
  \<^verbatim>\<open>Session::send\<close>: whatever the kernel answers, the bytes written are a prefix of the data in order;
  they are all of it when the loop ends by exhaustion, which it does within one call per byte as long
  as every call accepts at least one byte.
\<close>

theorem send_loop_prefix:
  "(\<exists>rest. data = fst (send_loop rs data) @ rest \<and> (snd (send_loop rs data) \<longrightarrow> rest = [])) \<and>
   (length data \<le> length rs \<and> (\<forall>r \<in> set rs. 0 < r) \<longrightarrow> snd (send_loop rs data))"
proof (induction rs data rule: send_loop.induct)
  case (3 r rs c cs)
  show ?case
  proof (cases "r < 0")
    case False
    define d where "d = drop (nat r) (c # cs)"
    have split: "c # cs = take (nat r) (c # cs) @ d" by (simp add: d_def)
    have IH: "(\<exists>rest. d = fst (send_loop rs d) @ rest \<and> (snd (send_loop rs d) \<longrightarrow> rest = [])) \<and>
        (length d \<le> length rs \<and> (\<forall>r \<in> set rs. 0 < r) \<longrightarrow> snd (send_loop rs d))"
      using 3 False by (simp add: d_def)
    have val: "send_loop (r # rs) (c # cs) = (take (nat r) (c # cs) @ fst (send_loop rs d), snd (send_loop rs d))"
      using False by (simp add: d_def case_prod_beta)
    have "length d \<le> length rs" if "length (c # cs) \<le> length (r # rs)" "0 < r"
      using that by (simp add: d_def)
    with IH split val show ?thesis by (metis append_assoc fst_conv snd_conv list.set_intros(1,2))
  qed simp
qed auto

theorem send_loop_prefix_witness: "snd (send_loop [1, 2, 5] ''abc'')"
  using send_loop_prefix [of "''abc''" "[1, 2, 5]"] by simp

end
