(* ===== verification/Server.thy ===== *)
theory Server
  imports Session
begin

text \<open>
  All connections together: the session objects, the broker and the key registry, driven by an arbitrary
  interleaving of connects, complete frames and commands, disconnects and the shutdown request, each handled as in \<^verbatim>\<open>src/session.cpp\<close>
  and \<^verbatim>\<open>src/broker.cpp\<close>. The lemmas lift the broker's invariants to such runs and show what the store holds and
  what a subscription can replay after them.
\<close>

section \<open>The composed state machine\<close>

record 'e server =
  sv_sessions :: "session_id \<Rightarrow> Session"
  sv_sys :: "'e system"

datatype input = Connect int | Frame BinaryFrame | Command RespValue | Disconnect | Shutdown

definition server_start :: "('e, 't) lmdb \<Rightarrow> 'e \<Rightarrow> TrustedKeyStore \<Rightarrow> 'e server" where
  "server_start L e keys =
     \<lparr>sv_sessions = (\<lambda>i. session_new i 0), sv_sys = \<lparr>sys_broker = broker_new L e, sys_keys = keys, sys_tick = 0\<rparr>\<rparr>"

text \<open>What follows a handler: an exception ends the run loop, and the session is cleaned up.\<close>

definition after_handler :: "session_id \<Rightarrow> 'e server \<Rightarrow> 'e conn \<times> exn option \<Rightarrow> 'e server" where
  "after_handler i sv out =
     (case out of
        ((ses, sys), None) \<Rightarrow> sv\<lparr>sv_sessions := (sv_sessions sv)(i := ses), sv_sys := sys\<rparr>
      | ((ses, sys), Some _) \<Rightarrow> sv\<lparr>sv_sessions := (sv_sessions sv)(i := ses), sv_sys := session_cleanup (ses, sys)\<rparr>)"

text \<open>An input for a connection that does not exist, or a connect for one that does, is no event.\<close>

definition server_step :: "('e, 't, 'r) ambient \<Rightarrow> 'e server \<Rightarrow> session_id \<times> input \<Rightarrow> 'e server" where
  "server_step A sv ev =
     (let (i, inp) = ev; ses = sv_sessions sv i; sys = sv_sys sv; live = i \<in> set (b_sessions (sys_broker sys))
      in case inp of
           Connect now \<Rightarrow>
             if live \<or> shutdown_requested (sys_broker sys) then sv
             else sv\<lparr>sv_sessions := (sv_sessions sv)(i := session_new i now),
                     sv_sys := with_broker (\<lambda>b. fst (accept_step b (Accepted i))) sys\<rparr>
         | Frame f \<Rightarrow> if live then after_handler i sv (handleBinaryFrame A (ses, sys) f) else sv
         | Command v \<Rightarrow> if live then after_handler i sv (handleCommand A (ses, sys) v) else sv
         | Disconnect \<Rightarrow> if live then sv\<lparr>sv_sys := session_cleanup (ses, sys)\<rparr> else sv
         | Shutdown \<Rightarrow> sv\<lparr>sv_sys := with_broker stop sys\<rparr>)"

definition server_run :: "('e, 't, 'r) ambient \<Rightarrow> 'e server \<Rightarrow> (session_id \<times> input) list \<Rightarrow> 'e server" where
  "server_run A sv evs = foldl (server_step A) sv evs"

lemma server_run_simps [simp]:
  "server_run A sv [] = sv" "server_run A sv (ev # evs) = server_run A (server_step A sv ev) evs"
  by (simp_all add: server_run_def)

lemma server_run_append: "server_run A sv (evs @ evs') = server_run A (server_run A sv evs) evs'"
  by (simp add: server_run_def)

section \<open>The broker under any interleaving\<close>

definition sessions_ok :: "'e server \<Rightarrow> bool" where
  "sessions_ok sv \<longleftrightarrow> (\<forall>i. ses_id (sv_sessions sv i) = i)"

lemma sessions_ok_start: "sessions_ok (server_start L e keys)"
  by (simp add: sessions_ok_def server_start_def session_new_def)

lemma cleanup_steps:
  assumes "ses_id ses \<in> set (b_sessions (sys_broker sys))"
  shows "bsteps A (sys_broker sys) (sys_broker (session_cleanup (ses, sys)))"
proof -
  let ?b = "if client_id ses \<noteq> [] then unregisterClient (sys_broker sys) (client_id ses) else sys_broker sys"
  have "bsteps A (sys_broker sys) ?b" by (auto intro: step_unregister)
  moreover have "bsteps A ?b (removeSession ?b (ses_id ses))" using assms by (intro r_into_rtranclp step_remove) simp
  ultimately have "bsteps A (sys_broker sys) (removeSession ?b (ses_id ses))" by (rule rtranclp_trans)
  then show ?thesis by (simp add: session_cleanup_def split: if_splits)
qed

lemma after_handler_steps:
  assumes "sessions_ok sv" and "conn_ok A (sv_sessions sv i, sv_sys sv) (fst out)"
  shows "sessions_ok (after_handler i sv out) \<and> bsteps A (sys_broker (sv_sys sv)) (sys_broker (sv_sys (after_handler i sv out)))"
proof -
  obtain ses sys x where out: "out = ((ses, sys), x)" by (metis surj_pair)
  have ok: "ses_id ses = i" "i \<in> set (b_sessions (sys_broker sys))" "bsteps A (sys_broker (sv_sys sv)) (sys_broker sys)"
    using assms by (auto simp: conn_ok_def sessions_ok_def out)
  then show ?thesis
    using assms(1) cleanup_steps [of ses sys A] by (cases x) (auto simp: out after_handler_def sessions_ok_def)
qed

lemma server_step_steps:
  assumes "sessions_ok sv"
  shows "sessions_ok (server_step A sv ev) \<and> bsteps A (sys_broker (sv_sys sv)) (sys_broker (sv_sys (server_step A sv ev)))"
proof (cases ev)
  case (Pair i inp)
  let ?live = "i \<in> set (b_sessions (sys_broker (sv_sys sv)))"
  have id: "ses_id (sv_sessions sv i) = i" using assms by (simp add: sessions_ok_def)
  show ?thesis
  proof (cases inp)
    case (Connect now)
    then show ?thesis
      using assms by (auto simp: Pair server_step_def sessions_ok_def session_new_def Let_def intro: step_accept)
  next
    case (Frame f)
    then show ?thesis
      using assms after_handler_steps [OF assms handleBinaryFrame_ok [of "(sv_sessions sv i, sv_sys sv)" A f]] id
      by (auto simp: Pair server_step_def Let_def)
  next
    case (Command v)
    then show ?thesis
      using assms after_handler_steps [OF assms handleCommand_ok [of "(sv_sessions sv i, sv_sys sv)" A v]] id
      by (auto simp: Pair server_step_def Let_def)
  next
    case Disconnect
    then show ?thesis
      using assms cleanup_steps [of "sv_sessions sv i" "sv_sys sv" A] id by (auto simp: Pair server_step_def sessions_ok_def Let_def)
  next
    case Shutdown
    then show ?thesis using assms by (auto simp: Pair server_step_def sessions_ok_def Let_def intro: step_stop)
  qed
qed

lemma server_run_steps:
  "sessions_ok sv \<Longrightarrow> sessions_ok (server_run A sv evs) \<and> bsteps A (sys_broker (sv_sys sv)) (sys_broker (sv_sys (server_run A sv evs)))"
proof (induction evs arbitrary: sv)
  case (Cons ev evs)
  show ?case using server_step_steps [OF Cons.prems, of A ev] Cons.IH [of "server_step A sv ev"] by auto
qed simp

lemma server_run_reachable:
  "reachable (amb_lmdb A) (amb_order A) (amb_latency A) e (sys_broker (sv_sys (server_run A (server_start (amb_lmdb A) e keys) evs)))"
  using server_run_steps [OF sessions_ok_start, of A "amb_lmdb A" e keys evs] by (simp add: reachable_def server_start_def)

section \<open>What the store holds\<close>

text \<open>
  The value stored for a message is its topic followed directly by the bytes of the frame or command sent to the
  subscribers, which begin with the version byte or with the head of a three-element array.
\<close>

definition wire_value :: "bytes \<Rightarrow> bool" where
  "wire_value x \<longleftrightarrow> (\<exists>t r. CHR 0x00 \<notin> set t \<and> (x = t @ CHR 0x01 # r \<or> x = t @ ''*3'' @ CRLF @ r))"

definition wire_store :: "(bytes \<rightharpoonup> bytes) \<Rightarrow> bool" where
  "wire_store v \<longleftrightarrow> store_inv v \<and> (\<forall>n x. v (msg_key n) = Some x \<longrightarrow> wire_value x)"

lemma wire_store_empty: "wire_store Map.empty"
  by (simp add: wire_store_def)

text \<open>Split at its first NUL byte, such a value has a control byte in the topic part.\<close>

lemma wire_value_topic:
  assumes "wire_value (u @ CHR 0x00 # p)" and "CHR 0x00 \<notin> set u"
  shows "CHR 0x01 \<in> set u \<or> CHR 0x0D \<in> set u"
proof -
  obtain t r where t: "CHR 0x00 \<notin> set t" and x: "u @ CHR 0x00 # p = t @ CHR 0x01 # r \<or> u @ CHR 0x00 # p = (t @ ''*3'') @ CHR 0x0D # CHR 0x0A # r"
    using assms(1) by (auto simp: wire_value_def)
  have found: "c \<in> set u" if "u @ CHR 0x00 # p = w @ c # q" "CHR 0x00 \<notin> set w" "c \<noteq> CHR 0x00" for c w q
    using that by (auto simp: append_eq_append_conv2 append_eq_Cons_conv Cons_eq_append_conv)
  from x show ?thesis
  proof
    assume "u @ CHR 0x00 # p = t @ CHR 0x01 # r"
    from found [OF this t] show ?thesis by simp
  next
    assume "u @ CHR 0x00 # p = (t @ ''*3'') @ CHR 0x0D # CHR 0x0A # r"
    from found [OF this] t show ?thesis by simp
  qed
qed

context lmdb_engine
begin

lemma wire_store_ops:
  assumes "wire_store (eview e)"
  shows "wire_value (topic @ payload) \<Longrightarrow> wire_store (eview (save L e n topic payload))"
    "wire_store (eview (save_ack L e c n))" "wire_store (eview (compact L e n))" "wire_store (eview (purge_old_acks L e n))"
proof -
  have inv: "store_inv (eview e)" using assms by (simp add: wire_store_def)
  show "wire_store (eview (save L e n topic payload))" if "wire_value (topic @ payload)"
    using assms store_inv_ops(1) [OF inv, of n topic payload] save_view [of e n topic payload] that
    by (auto simp: wire_store_def saved_def split: if_splits)
  show "wire_store (eview (save_ack L e c n))"
    using assms store_inv_ops(2) [OF inv, of c n] save_ack_view [of e c n] by (auto simp: wire_store_def split: if_splits)
  show "wire_store (eview (compact L e n))"
    using assms store_inv_ops(3) [OF inv, of n] compact_sub [of e n] by (auto simp: wire_store_def) (metis option.distinct(1))
  show "wire_store (eview (purge_old_acks L e n))"
    using assms store_inv_ops(4) [OF inv, of n] purge_sub [of e n] by (auto simp: wire_store_def) (metis option.distinct(1))
qed

text \<open>With such a store nothing is replayed for a topic without these control bytes.\<close>

lemma loaded_topics:
  assumes "store_sat (\<lambda>e. wire_store (eview e)) b" and "CHR 0x01 \<notin> set u" and "CHR 0x0D \<notin> set u" and "persistence b = Some e"
  shows "\<exists>r. load_range L e k m = Inr r \<and> (\<forall>(i, t, p) \<in> set r. t \<noteq> u)"
proof -
  have w: "wire_store (eview e)" using assms(1,4) by (simp add: store_sat_def)
  then obtain r where r: "load_range L e k m = Inr r"
      "\<forall>(i, t, p) \<in> set r. i \<le> m \<and> CHR 0x00 \<notin> set t \<and> eview e (msg_key i) = Some (t @ CHR 0x00 # p)"
    using load_range_sound [of e k m] by (auto simp: wire_store_def)
  have "t \<noteq> u" if "(i, t, p) \<in> set r" for i t p
    using r(2) that w wire_value_topic [of t p] assms(2,3) by (fastforce simp: wire_store_def)
  with r(1) show ?thesis by blast
qed

lemma replay_nothing:
  assumes "store_sat (\<lambda>e. wire_store (eview e)) b" and "CHR 0x01 \<notin> set u" and "CHR 0x0D \<notin> set u"
  shows "replayMessages L b s u n = (b, None)" "replayMessagesForClient L b s u c = (b, None)"
proof -
  have skip: "foldl f b r = b" if "\<And>x y. x \<in> set r \<Longrightarrow> f y x = y" for f :: "'e Broker \<Rightarrow> 'x \<Rightarrow> 'e Broker" and r b
    using that by (induction r arbitrary: b) auto
  note loaded = loaded_topics [OF assms]
  show "replayMessages L b s u n = (b, None)"
  proof (cases "persistence b")
    case (Some e)
    obtain r where "load_range L e n (n + MAX_STORED_MESSAGES) = Inr r" "\<forall>(i, t, p) \<in> set r. t \<noteq> u"
      using loaded [OF Some] by blast
    then show ?thesis using Some by (auto simp: replayMessages_def intro!: skip)
  qed (simp add: replayMessages_def)
  show "replayMessagesForClient L b s u c = (b, None)"
  proof (cases "persistence b")
    case (Some e)
    obtain r where "load_range L e (getLastAck b c + 1) (getLastAck b c + MAX_STORED_MESSAGES) = Inr r"
        "\<forall>(i, t, p) \<in> set r. t \<noteq> u"
      using loaded [OF Some] by blast
    then show ?thesis using Some by (auto simp: replayMessagesForClient_def Let_def intro!: skip)
  qed (simp add: replayMessagesForClient_def)
qed

lemma wire_store_publish:
  assumes "store_sat (\<lambda>e. wire_store (eview e)) b" and "wire_value (t @ p)"
  shows "store_sat (\<lambda>e. wire_store (eview e)) (fst (publish L lat b t p))"
  using assms by (auto simp: store_sat_def publish_eq publish_store_def wire_store_ops Let_def split: option.split)

end

section \<open>The handlers keep it\<close>

text \<open>The topics published by an input hold no NUL byte.\<close>

definition nul_free_topics :: "input \<Rightarrow> bool" where
  "nul_free_topics inp =
     (case inp of
        Frame f \<Rightarrow> frame_command f = CMD_PUBLISH \<or> frame_command f = CMD_SIGNED_PUBLISH \<longrightarrow> CHR 0x00 \<notin> set (frame_topic f)
      | Command v \<Rightarrow> (case asArray v of [c, t, p] \<Rightarrow> CHR 0x00 \<notin> set (asString t) | _ \<Rightarrow> True)
      | _ \<Rightarrow> True)"

lemma wire_value_frame:
  assumes "CHR 0x00 \<notin> set t" and "frame_version f = BINARY_PROTOCOL_VERSION"
  shows "wire_value (t @ serialize f)"
proof -
  have "char_of (Suc 0) = CHR 0x01" by (simp add: char_of_def bit_Suc_0_iff)
  then have "serialize f = CHR 0x01 # tl (frame_header f) @ frame_topic f @ frame_payload f @ frame_trailer f"
    using assms(2) by (simp add: serialize_split frame_header_def size_defs char_of_byte_def)
  with assms(1) show ?thesis unfolding wire_value_def by metis
qed

lemma wire_value_array:
  assumes "CHR 0x00 \<notin> set t"
  shows "wire_value (t @ resp_serialize (RArray [u, v, w]))"
proof -
  have "to_string (length [u, v, w]) = ''3''" by (simp add: to_string.simps numeral_3_eq_3 [symmetric])
  then have "resp_serialize (RArray [u, v, w]) = ''*3'' @ CRLF @ concat (map resp_serialize [u, v, w])" by simp
  with assms show ?thesis unfolding wire_value_def by metis
qed

lemma replay_persistence:
  "replayMessages L b s t n = (b', x) \<Longrightarrow> persistence b' = persistence b"
  "replayMessagesForClient L b s t c = (b', y) \<Longrightarrow> persistence b' = persistence b"
  by (metis fst_conv replay_frame(1)) (metis fst_conv replay_frame(3))

context lmdb_engine
begin

lemma wire_binary:
  assumes "amb_lmdb A = L" and "store_sat (\<lambda>e. wire_store (eview e)) (sys_broker sys)" and "nul_free_topics (Frame f)"
  shows "store_sat (\<lambda>e. wire_store (eview e)) (sys_broker (snd (fst (handleBinaryFrame A (ses, sys) f))))"
proof -
  have same: ?thesis if "persistence (sys_broker (snd (fst (handleBinaryFrame A (ses, sys) f)))) = persistence (sys_broker sys)"
    using assms(2) that by (simp add: store_sat_def)
  note defs = handleBinaryFrame_def sendBinary_def send_to_def with_broker_def Let_def
  show ?thesis
  proof (cases "frame_command f")
    case CMD_SUBSCRIBE
    then show ?thesis
      by (intro same) (auto simp: defs on_subscribe_def subscribe_def dest!: replay_persistence split: option.split prod.split)
  next
    case CMD_PUBLISH
    then show ?thesis
      using assms wire_store_publish [of "sys_broker sys" "frame_topic f" _ "amb_latency A"] wire_value_frame [of "frame_topic f"]
      by (auto simp: defs on_publish_def nul_free_topics_def frame_defs store_sat_def)
  next
    case CMD_SIGNED_PUBLISH
    then show ?thesis
      using assms wire_store_publish [of "sys_broker sys" "frame_topic f" _ "amb_latency A"] wire_value_frame [of "frame_topic f"]
      by (auto simp: defs on_signed_publish_def nul_free_topics_def frame_defs store_sat_def split: prod.split)
  next
    case CMD_ACK
    then show ?thesis
      using assms(2) by (auto simp: defs store_sat_def wire_store_ops assms(1) split: option.split)
  qed (intro same, simp add: defs)+
qed

lemma wire_command:
  assumes "amb_lmdb A = L" and "store_sat (\<lambda>e. wire_store (eview e)) (sys_broker sys)" and "nul_free_topics (Command v)"
  shows "store_sat (\<lambda>e. wire_store (eview e)) (sys_broker (snd (fst (handleCommand A (ses, sys) v))))"
proof -
  define sys1 where "sys1 = sys\<lparr>sys_tick := sys_tick sys + 1\<rparr>"
  let ?ok = "\<lambda>b. store_sat (\<lambda>e. wire_store (eview e)) b"
  have start: "?ok (sys_broker sys1)" using assms(2) by (simp add: sys1_def)
  have keep: "?ok b" if "persistence b = persistence (sys_broker sys1)" for b :: "'e Broker"
    using start that by (simp add: store_sat_def)
  have sub: "?ok (sys_broker (fst (resp_subscribe A ses i vs sys1)))" for i vs
  proof (rule keep)
    show "persistence (sys_broker (fst (resp_subscribe A ses i vs sys1))) = persistence (sys_broker sys1)"
      by (induction A ses i vs sys1 rule: resp_subscribe.induct)
        (auto simp: subscribe_def sendResp_def dest!: replay_persistence split: option.split prod.split)
  qed
  have unsub: "?ok (sys_broker (resp_unsubscribe ses vs sys1))" for vs
  proof (rule keep)
    show "persistence (sys_broker (resp_unsubscribe ses vs sys1)) = persistence (sys_broker sys1)"
      by (induction ses vs sys1 rule: resp_unsubscribe.induct) (simp_all add: sendResp_def)
  qed
  have send: "?ok (sys_broker (sendResp ses w sys)) = ?ok (sys_broker sys)" for w and sys :: "'e system"
    by (simp add: sendResp_def store_sat_def)
  have pub: "?ok (fst (publish (amb_lmdb A) (amb_latency A) (sys_broker sys1) (asString t) (resp_serialize (RArray [x, y, z]))))"
    if "asArray v = [c, t, p]" for c t p x y z
    using assms(3) start that unfolding assms(1) by (intro wire_store_publish wire_value_array) (auto simp: nul_free_topics_def)
  have ack: "?ok (handleAck (amb_lmdb A) (sys_broker sys1) c n)" for c n
    using start by (auto simp: store_sat_def wire_store_ops assms(1) split: option.split)
  show ?thesis
    unfolding handleCommand_def Let_def fst_conv snd_conv sys1_def [symmetric]
    using start sub unsub ack pub by (auto simp: case_prod_beta send simp del: resp_serialize.simps split: list.split)
qed

lemma wire_step:
  assumes "amb_lmdb A = L" and "store_sat (\<lambda>e. wire_store (eview e)) (sys_broker (sv_sys sv))" and "nul_free_topics (snd ev)"
  shows "store_sat (\<lambda>e. wire_store (eview e)) (sys_broker (sv_sys (server_step A sv ev)))"
proof -
  obtain i inp where ev: "ev = (i, inp)" by fastforce
  have after: "store_sat P (sys_broker (sv_sys (after_handler i sv out)))" if "store_sat P (sys_broker (snd (fst out)))" for P out
    using that by (auto simp: after_handler_def session_cleanup_def store_sat_def split: prod.split option.split)
  show ?thesis
  proof (cases inp)
    case (Connect now)
    then show ?thesis using assms(2) by (auto simp: ev server_step_def store_sat_def Let_def)
  next
    case (Frame f)
    then show ?thesis
      using assms after [OF wire_binary, of A "sv_sys sv" f] by (auto simp: ev server_step_def Let_def)
  next
    case (Command v)
    then show ?thesis
      using assms after [OF wire_command, of A "sv_sys sv" v] by (auto simp: ev server_step_def Let_def)
  next
    case Disconnect
    then show ?thesis using assms(2) by (auto simp: ev server_step_def session_cleanup_def store_sat_def Let_def)
  next
    case Shutdown
    then show ?thesis by (simp add: ev server_step_def store_sat_def Let_def)
  qed
qed

lemma wire_run:
  assumes "amb_lmdb A = L" and "store_sat (\<lambda>e. wire_store (eview e)) (sys_broker (sv_sys sv))"
    and "\<forall>ev \<in> set evs. nul_free_topics (snd ev)"
  shows "store_sat (\<lambda>e. wire_store (eview e)) (sys_broker (sv_sys (server_run A sv evs)))"
  using assms(2,3) by (induction evs arbitrary: sv) (simp_all add: wire_step [OF assms(1)])

end

section \<open>Properties\<close>

text \<open>
  Whatever the interleaving of connects, frames, commands, disconnects and the shutdown request, every session
  object keeps its identity and the broker's tables stay consistent: the connection table is distinct and
  capped, subscribers are connected and listed once, acknowledgement caches and gauges show the tables.
\<close>

theorem server_run_consistent:
  "(\<forall>i. ses_id (sv_sessions (server_run A (server_start (amb_lmdb A) e keys) evs) i) = i) \<and>
   broker_inv (sys_broker (sv_sys (server_run A (server_start (amb_lmdb A) e keys) evs)))"
  using reachable_inv [OF server_run_reachable] server_run_steps [OF sessions_ok_start, of A "amb_lmdb A" e keys evs]
  by (simp add: sessions_ok_def)

text \<open>
  (C28) Replay never delivers anything. Start the broker on an empty store and let any clients do anything, as
  long as no published topic holds a NUL byte: then neither \<^verbatim>\<open>subscribe\<close> nor \<^verbatim>\<open>replayMessagesForClient\<close> sends a
  stored message for any topic without the bytes 1 and 13. The stored value is the topic followed directly by
  the wire bytes, and the reader splits it at the first NUL byte, which lies inside these wire bytes.
\<close>

theorem replay_never_delivers:
  assumes "lmdb_engine (amb_lmdb A) eview tview" and "eview e = Map.empty"
    and "\<forall>ev \<in> set evs. nul_free_topics (snd ev)" and "CHR 0x01 \<notin> set u" and "CHR 0x0D \<notin> set u"
    and "b = sys_broker (sv_sys (server_run A (server_start (amb_lmdb A) e keys) evs))"
  shows "subscribe (amb_lmdb A) b s u = (subscribe_locked b s u, None) \<and>
    replayMessagesForClient (amb_lmdb A) b s u c = (b, None)"
proof -
  have "store_sat (\<lambda>e. wire_store (eview e)) (sys_broker (sv_sys (server_start (amb_lmdb A) e keys)))"
    using assms(2) by (simp add: server_start_def broker_new_def store_sat_def wire_store_empty)
  then have b: "store_sat (\<lambda>e. wire_store (eview e)) b"
    unfolding assms(6) by (rule lmdb_engine.wire_run [OF assms(1) refl _ assms(3)])
  then have "store_sat (\<lambda>e. wire_store (eview e)) (subscribe_locked b s u)" by (simp add: store_sat_def)
  with lmdb_engine.replay_nothing [OF assms(1) _ assms(4,5)] b show ?thesis by (simp add: subscribe_def)
qed

text \<open>One client publishes \<^verbatim>\<open>x\<close> to \<^verbatim>\<open>t\<close>; a later subscriber of \<^verbatim>\<open>t\<close> is not sent it.\<close>

theorem replay_never_delivers_witness:
  "\<exists>b. b = sys_broker (sv_sys (server_run demo_ambient (server_start (amb_lmdb demo_ambient) RBT.empty ks_new)
       [(3, Connect 0), (3, Frame (publish_frame ''t'' ''x'' 1)), (7, Connect 0)])) \<and>
     fst (subscribe (amb_lmdb demo_ambient) b 7 ''t'') = subscribe_locked b 7 ''t''"
proof -
  have "lmdb_engine (amb_lmdb demo_ambient) RBT.lookup RBT.lookup" by (rule demo_engine)
  from replay_never_delivers [OF this _ _ _ _ refl, where u = "''t''" and s = 7 and e = RBT.empty and keys = ks_new
      and evs = "[(3, Connect 0), (3, Frame (publish_frame ''t'' ''x'' 1)), (7, Connect 0)]"]
  show ?thesis by (auto simp: nul_free_topics_def frame_defs)
qed

end
