(* ===== verification/Pubsub_Spec.thy ===== *)
theory Pubsub_Spec
  imports Server
begin

text \<open>
  What the broker promises its clients, as an abstract machine: who is connected, who is subscribed to what, and
  whether shutdown was requested. The detailed model, with sessions, hash tables, counters, metrics and the store,
  refines it step by step, and the messages sent for a publish are exactly those the abstract state calls for.
\<close>

section \<open>The abstract machine\<close>

record pubsub =
  live :: "session_id set"
  subs :: "(session_id \<times> bytes) set"
  down :: bool

definition pubsub_init :: pubsub where
  "pubsub_init = \<lparr>live = {}, subs = {}, down = False\<rparr>"

text \<open>The topic of a subscription: what follows the first NUL byte, if there is one.\<close>

definition subscribe_target :: "bytes \<Rightarrow> bytes" where
  "subscribe_target topic = (case str_find CHR 0x00 topic of Some sep \<Rightarrow> drop (sep + 1) topic | None \<Rightarrow> topic)"

definition pubsub_frame :: "session_id \<Rightarrow> BinaryFrame \<Rightarrow> pubsub \<Rightarrow> pubsub" where
  "pubsub_frame i f p =
     (case frame_command f of
        CMD_SUBSCRIBE \<Rightarrow> p\<lparr>subs := insert (i, subscribe_target (frame_topic f)) (subs p)\<rparr>
      | CMD_UNSUBSCRIBE \<Rightarrow> p\<lparr>subs := subs p - {(i, frame_topic f)}\<rparr>
      | _ \<Rightarrow> p)"

definition pubsub_command :: "session_id \<Rightarrow> RespValue \<Rightarrow> pubsub \<Rightarrow> pubsub" where
  "pubsub_command i v p =
     (case asArray v of
        [] \<Rightarrow> p
      | c # args \<Rightarrow>
          let cmd = map toupper (asString c); named = (\<lambda>w. (i, asString w)) ` set args
          in if \<not> isArray v then p
             else if cmd = ''SUBSCRIBE'' then p\<lparr>subs := subs p \<union> named\<rparr>
             else if cmd = ''UNSUBSCRIBE'' then p\<lparr>subs := subs p - named\<rparr>
             else p)"

definition pubsub_step :: "pubsub \<Rightarrow> session_id \<times> input \<Rightarrow> pubsub" where
  "pubsub_step p ev =
     (let (i, inp) = ev
      in case inp of
           Connect _ \<Rightarrow> if i \<in> live p \<or> down p \<or> MAX_CONNECTIONS \<le> card (live p) then p else p\<lparr>live := insert i (live p)\<rparr>
         | Frame f \<Rightarrow> if i \<in> live p then pubsub_frame i f p else p
         | Command v \<Rightarrow> if i \<in> live p then pubsub_command i v p else p
         | Disconnect \<Rightarrow> if i \<in> live p then p\<lparr>live := live p - {i}, subs := {x \<in> subs p. fst x \<noteq> i}\<rparr> else p
         | Shutdown \<Rightarrow> p\<lparr>down := True\<rparr>)"

definition pubsub_run :: "pubsub \<Rightarrow> (session_id \<times> input) list \<Rightarrow> pubsub" where
  "pubsub_run p evs = foldl pubsub_step p evs"

section \<open>The abstraction\<close>

definition pubsub_of :: "'e Broker \<Rightarrow> pubsub" where
  "pubsub_of b = \<lparr>live = set (b_sessions b), subs = {(s, t). s \<in> set (subscribers b t)}, down = shutdown_requested b\<rparr>"

lemma subscribers_other [simp]:
  "subscribers (unregisterClient b c) t = subscribers b t" "subscribers (registerClient L ord b c s) t = subscribers b t"
  "subscribers (send_to s d b) t = subscribers b t" "subscribers (handleAck L b c n) t = subscribers b t"
  "subscribers (fst (publish L lat b u p)) t = subscribers b t" "subscribers (stop b) t = subscribers b t"
  "subscribers (fst (accept_step b ev)) t = subscribers b t"
  by (simp_all add: subscribers_def unregisterClient_def handleAck_def registerClient_def send_to_def update_metrics_def
      publish_eq stop_def accept_step_def Let_def split: option.split accept_event.split)

lemma shutdown_frame [simp]:
  "shutdown_requested (subscribe_locked b s t) = shutdown_requested b" "shutdown_requested (unsubscribe b s t) = shutdown_requested b"
  "shutdown_requested (removeSession b s) = shutdown_requested b" "shutdown_requested (unregisterClient b c) = shutdown_requested b"
  "shutdown_requested (registerClient L ord b c s) = shutdown_requested b"
  "shutdown_requested (fst (accept_step b ev)) = shutdown_requested b"
  "shutdown_requested (send_to s d b) = shutdown_requested b" "shutdown_requested (stop b)"
  "shutdown_requested (handleAck L b c n) = shutdown_requested b" "shutdown_requested (fst (publish L lat b t p)) = shutdown_requested b"
  by (simp_all add: subscribe_locked_def unsubscribe_def removeSession_def unregisterClient_def handleAck_def publish_eq
      registerClient_def accept_step_def send_to_def stop_def update_metrics_def Let_def
      split: option.split accept_event.split)

lemma sessions_stop [simp]: "b_sessions (stop b) = b_sessions b"
  by (simp add: stop_def Let_def split: option.split)

text \<open>What no client observes through its subscriptions.\<close>

lemma pubsub_of_silent [simp]:
  "pubsub_of (unregisterClient b c) = pubsub_of b" "pubsub_of (registerClient L ord b c s) = pubsub_of b"
  "pubsub_of (send_to s d b) = pubsub_of b" "pubsub_of (handleAck L b c n) = pubsub_of b"
  "pubsub_of (fst (publish L lat b t p)) = pubsub_of b" "pubsub_of (b\<lparr>sent := x\<rparr>) = pubsub_of b"
  by (simp_all add: pubsub_of_def)

lemma pubsub_of_replay:
  "replayMessages L b s t n = (b', x) \<Longrightarrow> pubsub_of b' = pubsub_of b"
  "replayMessagesForClient L b s t c = (b', x) \<Longrightarrow> pubsub_of b' = pubsub_of b"
  by (metis fst_conv replay_eq pubsub_of_silent(6)) (metis fst_conv replay_client_eq pubsub_of_silent(6))

lemma pubsub_of_subscribe: "pubsub_of (subscribe_locked b s t) = (pubsub_of b)\<lparr>subs := insert (s, t) (subs (pubsub_of b))\<rparr>"
proof -
  have "subscribers (subscribe_locked b s t) u = (if u = t then set_add s (subscribers b t) else subscribers b u)" for u
    by (simp add: subscribe_locked_def subscribers_def update_metrics_def update_conv Let_def)
  then show ?thesis by (auto simp: pubsub_of_def)
qed

lemma pubsub_of_unsubscribe:
  assumes "topics_inv b"
  shows "pubsub_of (unsubscribe b s t) = (pubsub_of b)\<lparr>subs := subs (pubsub_of b) - {(s, t)}\<rparr>"
proof -
  have "subscribers (unsubscribe b s t) u = (if u = t then set_remove s (subscribers b t) else subscribers b u)" for u
    using assms by (auto simp: unsubscribe_def subscribers_def update_metrics_def update_conv delete_conv set_remove_def Let_def
        split: option.split simp del: map_of_eq_Some_iff)
  then show ?thesis by (auto simp: pubsub_of_def)
qed

lemma pubsub_of_remove:
  assumes "topics_inv b"
  shows "pubsub_of (removeSession b s) =
    (pubsub_of b)\<lparr>live := live (pubsub_of b) - {s}, subs := {x \<in> subs (pubsub_of b). fst x \<noteq> s}\<rparr>"
proof -
  have "set (subscribers (removeSession b s) u) = set (subscribers b u) - {s}" for u
    using assms unfolding topics_inv_def
    by (cases "map_of (topic_subscribers b) u")
      (auto simp: subscribers_def removeSession_def update_metrics_def map_of_removed Let_def
        simp del: map_of_eq_Some_iff simp flip: set_remove_props(1))
  moreover have "set (b_sessions (removeSession b s)) = set (b_sessions b) - {s}"
    by (auto simp: removeSession_def update_metrics_def Let_def)
  ultimately show ?thesis by (auto simp: pubsub_of_def)
qed

lemma pubsub_of_accept:
  assumes "conn_inv b"
  shows "pubsub_of (fst (accept_step b (Accepted s))) =
    (if MAX_CONNECTIONS \<le> card (live (pubsub_of b)) then pubsub_of b
     else (pubsub_of b)\<lparr>live := insert s (live (pubsub_of b))\<rparr>)"
proof -
  have "card (set (b_sessions b)) = length (b_sessions b)"
    and "(of_nat MAX_CONNECTIONS \<le> active_connections b) = (MAX_CONNECTIONS \<le> length (b_sessions b))"
    using assms by (simp_all add: conn_inv_def distinct_card word_le_nat_alt unat_of_nat MAX_CONNECTIONS_def)
  then show ?thesis
    by (auto simp: pubsub_of_def accept_step_def update_metrics_def subscribers_def Let_def)
qed

section \<open>The handlers\<close>

lemma pubsub_of_sends [simp]:
  "pubsub_of (sys_broker (sendBinary ses f sys)) = pubsub_of (sys_broker sys)"
  "pubsub_of (sys_broker (sendResp ses v sys)) = pubsub_of (sys_broker sys)"
  by (simp_all add: sendBinary_def sendResp_def)

lemma pubsub_unsubscribe_all:
  "broker_inv (sys_broker sys) \<Longrightarrow> pubsub_of (sys_broker (resp_unsubscribe ses vs sys)) =
     (pubsub_of (sys_broker sys))\<lparr>subs := subs (pubsub_of (sys_broker sys)) - (\<lambda>w. (ses_id ses, asString w)) ` set vs\<rparr>"
proof (induction ses vs sys rule: resp_unsubscribe.induct)
  case (2 ses v vs sys)
  have "topics_inv (sys_broker sys)" using 2(2) by (simp add: broker_inv_def)
  moreover have "broker_inv (unsubscribe (sys_broker sys) (ses_id ses) (asString v))" using 2(2) by (rule inv_unsubscribe)
  ultimately show ?case
    using 2(1) by (simp add: sendResp_def send_to_eq pubsub_of_unsubscribe Diff_insert2 [symmetric] Diff_insert [symmetric])
qed simp

context lmdb_engine
begin

lemma subscribe_returns:
  assumes "store_sat (\<lambda>e. store_inv (eview e)) b"
  obtains b' where "subscribe L b s t = (b', None)" "store_sat (\<lambda>e. store_inv (eview e)) b'"
    "pubsub_of b' = (pubsub_of b)\<lparr>subs := insert (s, t) (subs (pubsub_of b))\<rparr>"
proof -
  have ok: "store_sat (\<lambda>e. store_inv (eview e)) (subscribe_locked b s t)" using assms by (simp add: store_sat_def)
  obtain b' where b': "replayMessages L (subscribe_locked b s t) s t 0 = (b', None)"
    using replay_no_throw(1) [OF ok] by (metis prod.collapse)
  moreover have "store_sat (\<lambda>e. store_inv (eview e)) b'" using ok replay_persistence(1) [OF b'] by (simp add: store_sat_def)
  ultimately show ?thesis using that pubsub_of_replay(1) [OF b'] by (simp add: subscribe_def pubsub_of_subscribe)
qed

lemma pubsub_subscribe_all:
  assumes "amb_lmdb A = L" and "store_sat (\<lambda>e. store_inv (eview e)) (sys_broker sys)"
  shows "snd (resp_subscribe A ses i vs sys) = None \<and> pubsub_of (sys_broker (fst (resp_subscribe A ses i vs sys))) =
     (pubsub_of (sys_broker sys))\<lparr>subs := subs (pubsub_of (sys_broker sys)) \<union> (\<lambda>w. (ses_id ses, asString w)) ` set vs\<rparr>"
  using assms
proof (induction A ses i vs sys rule: resp_subscribe.induct)
  case (2 A ses i v vs sys)
  obtain b' where b': "subscribe L (sys_broker sys) (ses_id ses) (asString v) = (b', None)"
    "store_sat (\<lambda>e. store_inv (eview e)) b'" "pubsub_of b' = (pubsub_of (sys_broker sys))
       \<lparr>subs := insert (ses_id ses, asString v) (subs (pubsub_of (sys_broker sys)))\<rparr>"
    by (rule subscribe_returns [OF 2(3)])
  with 2(1,2) show ?case by (simp add: sendResp_def store_sat_def)
qed simp

lemma pubsub_on_subscribe:
  assumes "amb_lmdb A = L" and "store_sat (\<lambda>e. store_inv (eview e)) (sys_broker sys)" and "frame_command f = CMD_SUBSCRIBE"
  shows "snd (on_subscribe A (ses, sys) f) = None \<and>
    pubsub_of (sys_broker (snd (fst (on_subscribe A (ses, sys) f)))) = pubsub_frame (ses_id ses) f (pubsub_of (sys_broker sys))"
proof -
  have rep: "\<exists>b'. replayMessagesForClient L b s t c = (b', None) \<and> pubsub_of b' = pubsub_of b" if b: "store_sat (\<lambda>e. store_inv (eview e)) b" for b s t c
    using replay_no_throw(2) [OF b, of s t c] pubsub_of_replay(2) by (metis prod.collapse)
  show ?thesis
  proof (cases "str_find CHR 0x00 (frame_topic f)")
    case None
    obtain b2 where "subscribe L (sys_broker sys) (ses_id ses) (frame_topic f) = (b2, None)" "pubsub_of b2 =
        (pubsub_of (sys_broker sys))\<lparr>subs := insert (ses_id ses, frame_topic f) (subs (pubsub_of (sys_broker sys)))\<rparr>"
      by (rule subscribe_returns [OF assms(2)])
    with None assms(3) show ?thesis
      by (simp add: on_subscribe_def assms(1) pubsub_frame_def subscribe_target_def Let_def)
  next
    case (Some k)
    let ?c = "take k (frame_topic f)" and ?t = "drop (k + 1) (frame_topic f)"
    let ?b = "registerClient L (amb_order A) (sys_broker sys) ?c (ses_id ses)"
    have "store_sat (\<lambda>e. store_inv (eview e)) ?b" using assms(2) by (simp add: store_sat_def)
    then obtain b2 where b2: "subscribe L ?b (ses_id ses) ?t = (b2, None)" "store_sat (\<lambda>e. store_inv (eview e)) b2"
      "pubsub_of b2 = (pubsub_of (sys_broker sys))\<lparr>subs := insert (ses_id ses, ?t) (subs (pubsub_of (sys_broker sys)))\<rparr>"
      by (rule subscribe_returns) simp
    from rep [OF b2(2), of "ses_id ses" ?t ?c] obtain b3 where
      "replayMessagesForClient L b2 (ses_id ses) ?t ?c = (b3, None)" "pubsub_of b3 = pubsub_of b2" by auto
    with b2 Some assms(3) show ?thesis
      by (simp add: on_subscribe_def assms(1) pubsub_frame_def subscribe_target_def Let_def)
  qed
qed

lemma pubsub_binary:
  assumes "amb_lmdb A = L" and "store_sat (\<lambda>e. store_inv (eview e)) (sys_broker sys)" and "broker_inv (sys_broker sys)"
  shows "snd (handleBinaryFrame A (ses, sys) f) = None \<and>
    pubsub_of (sys_broker (snd (fst (handleBinaryFrame A (ses, sys) f)))) = pubsub_frame (ses_id ses) f (pubsub_of (sys_broker sys))"
proof (cases "frame_command f = CMD_SUBSCRIBE")
  case True
  then show ?thesis
    using pubsub_on_subscribe [OF assms(1) _ True, of "sys\<lparr>sys_tick := sys_tick sys + 1\<rparr>" ses] assms(2)
    by (simp add: handleBinaryFrame_def)
next
  case False
  have inv: "topics_inv (sys_broker sys)" using assms(3) by (simp add: broker_inv_def)
  show ?thesis
    using False by (cases "frame_command f")
      (auto simp: handleBinaryFrame_def on_publish_def on_signed_publish_def pubsub_frame_def pubsub_of_unsubscribe [OF inv]
        Let_def split: prod.split)
qed

lemma pubsub_resp:
  assumes "amb_lmdb A = L" and "store_sat (\<lambda>e. store_inv (eview e)) (sys_broker sys)" and "broker_inv (sys_broker sys)"
  shows "snd (handleCommand A (ses, sys) v) = None \<and>
    pubsub_of (sys_broker (snd (fst (handleCommand A (ses, sys) v)))) = pubsub_command (ses_id ses) v (pubsub_of (sys_broker sys))"
proof -
  define sys1 where "sys1 = sys\<lparr>sys_tick := sys_tick sys + 1\<rparr>"
  have b: "sys_broker sys1 = sys_broker sys" by (simp add: sys1_def)
  note sub = pubsub_subscribe_all [OF assms(1), of sys1, unfolded b, OF assms(2)]
  note unsub = pubsub_unsubscribe_all [of sys1, unfolded b, OF assms(3)]
  show ?thesis
    unfolding handleCommand_def pubsub_command_def Let_def fst_conv snd_conv sys1_def [symmetric]
    using sub unsub by (auto simp: case_prod_beta b simp del: resp_serialize.simps split: list.split)
qed

text \<open>One event of the detailed machine is one event of the abstract one.\<close>

lemma pubsub_server_step:
  assumes "amb_lmdb A = L" and "sessions_ok sv" and "store_sat (\<lambda>e. store_inv (eview e)) (sys_broker (sv_sys sv))"
    and "broker_inv (sys_broker (sv_sys sv))"
  shows "pubsub_of (sys_broker (sv_sys (server_step A sv ev))) = pubsub_step (pubsub_of (sys_broker (sv_sys sv))) ev"
proof -
  obtain i inp where ev: "ev = (i, inp)" by fastforce
  let ?b = "sys_broker (sv_sys sv)"
  have id: "ses_id (sv_sessions sv i) = i" using assms(2) by (simp add: sessions_ok_def)
  have inv: "topics_inv ?b" "conn_inv ?b" using assms(4) by (simp_all add: broker_inv_def)
  have live: "live (pubsub_of ?b) = set (b_sessions ?b)" "down (pubsub_of ?b) = shutdown_requested ?b" by (simp_all add: pubsub_of_def)
  have after: "sys_broker (sv_sys (after_handler i sv out)) = sys_broker (snd (fst out))" if "snd out = None" for out
    using that by (cases out) (auto simp: after_handler_def)
  show ?thesis
  proof (cases inp)
    case (Connect now)
    then show ?thesis by (simp add: ev server_step_def pubsub_step_def live pubsub_of_accept [OF inv(2)] Let_def)
  next
    case (Frame f)
    then show ?thesis
      using pubsub_binary [OF assms(1,3,4), of "sv_sessions sv i" f]
      by (simp add: ev server_step_def pubsub_step_def live after id Let_def)
  next
    case (Command v)
    then show ?thesis
      using pubsub_resp [OF assms(1,3,4), of "sv_sessions sv i" v]
      by (simp add: ev server_step_def pubsub_step_def live after id Let_def)
  next
    case Disconnect
    have "topics_inv (unregisterClient ?b c)" for c using inv(1) by (simp add: topics_inv_def unregisterClient_def)
    then show ?thesis
      using Disconnect inv(1) by (simp add: ev server_step_def pubsub_step_def live session_cleanup_def pubsub_of_remove id Let_def)
  next
    case Shutdown
    then show ?thesis
      by (simp add: ev server_step_def pubsub_step_def Let_def) (simp add: pubsub_of_def)
  qed
qed

lemma pubsub_server_run:
  assumes "amb_lmdb A = L" and "store_inv (eview e)"
  shows "pubsub_of (sys_broker (sv_sys (server_run A (server_start L e keys) evs))) = pubsub_run pubsub_init evs"
proof (induction evs rule: rev_induct)
  case Nil
  show ?case by (simp add: pubsub_run_def pubsub_init_def server_start_def pubsub_of_def broker_new_def subscribers_def)
next
  case (snoc ev evs)
  let ?sv = "server_run A (server_start L e keys) evs"
  have r: "reachable L (amb_order A) (amb_latency A) e (sys_broker (sv_sys ?sv))"
    using server_run_reachable [of A e keys evs] by (simp add: assms(1))
  have "sessions_ok ?sv" using server_run_steps [OF sessions_ok_start, of A L e keys evs] by simp
  from pubsub_server_step [OF assms(1) this reachable_store_inv [OF r assms(2)] reachable_inv [OF r]] snoc
  show ?case by (simp add: server_run_append pubsub_run_def)
qed

end

section \<open>Properties\<close>

text \<open>
  (C2) The broker refines the abstract publish/subscribe machine: after any interleaving of connects, binary
  frames, text commands, disconnects and the shutdown request, over any store that meets LMDB's documented
  behaviour and starts well formed, the connections and subscriptions of the detailed state are those of the
  abstract machine after the same events. In particular no handler ends in an exception.
\<close>

theorem server_refines_pubsub:
  assumes "lmdb_engine (amb_lmdb A) eview tview" and "store_inv (eview e)"
  shows "pubsub_of (sys_broker (sv_sys (server_run A (server_start (amb_lmdb A) e keys) evs))) = pubsub_run pubsub_init evs"
  by (rule lmdb_engine.pubsub_server_run [OF assms(1) refl assms(2)])

theorem server_refines_pubsub_witness:
  "subs (pubsub_of (sys_broker (sv_sys (server_run demo_ambient (server_start (amb_lmdb demo_ambient) RBT.empty ks_new)
     [(7, Connect 0), (7, Frame (subscribe_frame ''t'' 1))])))) = {(7, ''t'')}"
proof -
  have "lmdb_engine (amb_lmdb demo_ambient) RBT.lookup RBT.lookup" by (rule demo_engine)
  from server_refines_pubsub [OF this, of RBT.empty ks_new "[(7, Connect 0), (7, Frame (subscribe_frame ''t'' 1))]"]
  show ?thesis
    by (simp add: pubsub_run_def pubsub_step_def pubsub_frame_def pubsub_init_def frame_defs subscribe_target_def
        MAX_CONNECTIONS_def)
qed

lemma count_list_pair: "count_list (map (\<lambda>s. (s, m)) xs) (r, m) = count_list xs r"
  by (induction xs) auto

lemma ack_not_message: "serialize (ack_frame q) \<noteq> serialize (message_frame t p n)"
  by (simp add: serialize_split frame_header_def frame_defs)

text \<open>
  Exactly once per subscription, in the terms of the abstract machine: after any interleaving of events, when
  a connected session publishes to a topic outside \<^verbatim>\<open>secure/\<close>, each session is sent the message once if it is
  subscribed to the topic and once more if it is subscribed to \<^verbatim>\<open>#\<close>; nothing else is sent but the publisher's
  acknowledgement.
\<close>

theorem publish_once_per_subscription:
  assumes "lmdb_engine (amb_lmdb A) eview tview" and "store_inv (eview e)"
    and "sv = server_run A (server_start (amb_lmdb A) e keys) evs" and "p = pubsub_run pubsub_init evs"
    and "i \<in> live p" and "\<not> starts_with t ''secure/''"
    and "new = drop (length (sent (sys_broker (sv_sys sv))))
       (sent (sys_broker (sv_sys (server_step A sv (i, Frame (publish_frame t x q))))))"
    and "m = serialize (message_frame t x (ses_sequence (sv_sessions sv i) + 1))"
  shows "count_list new (r, m) = (if (r, t) \<in> subs p then 1 else 0) + (if (r, ''#'') \<in> subs p then 1 else 0) \<and>
    set new = {(r, m) |r. (r, t) \<in> subs p \<or> (r, ''#'') \<in> subs p} \<union> {(i, serialize (ack_frame q))}"
proof -
  let ?b = "sys_broker (sv_sys sv)"
  have p: "p = pubsub_of ?b" unfolding assms(3,4) by (rule lmdb_engine.pubsub_server_run [OF assms(1) refl assms(2), symmetric])
  have "broker_inv ?b" unfolding assms(3) by (rule reachable_inv [OF server_run_reachable])
  then have d: "distinct (subscribers ?b u)" for u using subscribers_inv [of ?b u] by (simp add: broker_inv_def)
  have id: "ses_id (sv_sessions sv i) = i"
    using server_run_steps [OF sessions_ok_start, of A "amb_lmdb A" e keys evs] by (simp add: sessions_ok_def assms(3))
  have "new = map (\<lambda>s. (s, m)) (subscribers ?b t @ subscribers ?b ''#'') @ [(i, serialize (ack_frame q))]"
    using assms(5,6) unfolding assms(7,8)
    by (simp add: p pubsub_of_def server_step_def after_handler_def handleBinaryFrame_def on_publish_def frame_defs
        sendBinary_def send_to_def publish_eq id Let_def)
  then show ?thesis
    using ack_not_message by (auto simp: assms(8) p pubsub_of_def count_list_pair count_list_distinct [OF d])
qed

theorem publish_once_per_subscription_witness:
  "\<exists>sv new m. sv = server_run demo_ambient (server_start (amb_lmdb demo_ambient) RBT.empty ks_new)
       [(7, Connect 0), (7, Frame (subscribe_frame ''t'' 1)), (3, Connect 0)] \<and>
     new = drop (length (sent (sys_broker (sv_sys sv))))
       (sent (sys_broker (sv_sys (server_step demo_ambient sv (3, Frame (publish_frame ''t'' ''x'' 9)))))) \<and>
     count_list new (7, m) = 1"
proof -
  have e: "lmdb_engine (amb_lmdb demo_ambient) RBT.lookup RBT.lookup" by (rule demo_engine)
  let ?evs = "[(7, Connect 0), (7, Frame (subscribe_frame ''t'' 1)), (3, Connect 0)]"
  have p: "pubsub_run pubsub_init ?evs = \<lparr>live = {3, 7}, subs = {(7, ''t'')}, down = False\<rparr>"
    by (simp add: pubsub_run_def pubsub_step_def pubsub_frame_def pubsub_init_def frame_defs subscribe_target_def
        MAX_CONNECTIONS_def)
  have "3 \<in> live (pubsub_run pubsub_init ?evs)" by (simp add: p)
  moreover have "\<not> starts_with ''t'' ''secure/''" by (simp add: starts_with_def)
  ultimately show ?thesis
    using publish_once_per_subscription [OF e _ refl refl _ _ refl refl, where e = RBT.empty and i = 3 and t = "''t''" and r = 7
        and evs = ?evs] by (auto simp: p)
qed

end
