(* ===== verification/Output_Spec.thy ===== *)
theory Output_Spec
  imports Pubsub_Spec
begin

text \<open>
  The abstract machine of \<open>Pubsub_Spec\<close> with outputs: for every event and every connection, the frames and text
  values that the broker writes to it. The lemmas show that the byte stream of each connection over any history of
  connects, binary frames, text commands, disconnects and the shutdown request is the one the machine prescribes.
\<close>

section \<open>The machine with outputs\<close>

datatype packet = Bin BinaryFrame | Txt RespValue

fun packet_bytes :: "packet \<Rightarrow> bytes" where
  "packet_bytes (Bin f) = serialize f"
| "packet_bytes (Txt v) = resp_serialize v"

text \<open>What the key registry says of a signed publish.\<close>

datatype verdict = Rejected | Forbidden | Granted

definition signed_verdict :: "'r sodium \<Rightarrow> TrustedKeyStore \<Rightarrow> BinaryFrame \<Rightarrow> verdict" where
  "signed_verdict S ks f =
     (case map_of (ks_keys ks) (frame_key_id f) of
        None \<Rightarrow> Rejected
      | Some tk \<Rightarrow>
          if \<not> tk_enabled tk \<or> \<not> verify S (map byte_of_char (frame_topic f @ frame_payload f)) (frame_signature f) (tk_public_key tk)
          then Rejected
          else if key_scope_ok (Some tk) (frame_topic f) then Granted else Forbidden)"

text \<open>How often a message on topic \<open>t\<close> is sent to \<open>r\<close>.\<close>

definition matches :: "pubsub \<Rightarrow> session_id \<Rightarrow> bytes \<Rightarrow> nat" where
  "matches p r t = (if (r, t) \<in> subs p then 1 else 0) + (if (r, ''#'') \<in> subs p then 1 else 0)"

text \<open>The output to \<open>r\<close> for a frame of \<open>i\<close>; \<open>n\<close> is the number that a message of \<open>i\<close> gets.\<close>

definition frame_out :: "(BinaryFrame \<Rightarrow> verdict) \<Rightarrow> pubsub \<Rightarrow> uint64 \<Rightarrow> session_id \<Rightarrow> BinaryFrame \<Rightarrow> session_id \<Rightarrow> packet list" where
  "frame_out J p n i f r =
     (let t = frame_topic f; x = frame_payload f;
          reply = (\<lambda>g. if r = i then [Bin g] else []);
          forward = (\<lambda>m. replicate (matches p r t) (Bin m) @ reply (ack_frame (frame_sequence f)))
      in case frame_command f of
           CMD_SUBSCRIBE \<Rightarrow> reply (ack_frame (frame_sequence f))
         | CMD_UNSUBSCRIBE \<Rightarrow> reply (ack_frame (frame_sequence f))
         | CMD_PUBLISH \<Rightarrow>
             if starts_with t ''secure/'' then reply (error_frame (secure_topic_error t)) else forward (message_frame t x n)
         | CMD_SIGNED_PUBLISH \<Rightarrow>
             (case J f of
                Rejected \<Rightarrow> reply (error_frame ''Invalid signature or unknown key'')
              | Forbidden \<Rightarrow> reply (error_frame (''Key not authorized for topic '' @ [CHR 0x27] @ t @ [CHR 0x27]))
              | Granted \<Rightarrow> forward (signed_message_frame t x (frame_signature f) (frame_key_id f) n))
         | CMD_PING \<Rightarrow> reply pong_frame
         | CMD_ACK \<Rightarrow> []
         | CMD_SIGNED_MESSAGE \<Rightarrow> []
         | _ \<Rightarrow> reply (error_frame ''Unknown command''))"

fun confirmations :: "int \<Rightarrow> RespValue list \<Rightarrow> RespValue list" where
  "confirmations k [] = []"
| "confirmations k (v # vs) = RArray [BulkString ''subscribe'', BulkString (asString v), RInteger k] # confirmations (k + 1) vs"

definition text_message :: "RespValue \<Rightarrow> RespValue \<Rightarrow> RespValue" where
  "text_message t x = RArray [BulkString ''message'', BulkString (asString t), BulkString (asString x)]"

text \<open>The replies to a text command, all to its own connection.\<close>

definition command_reply :: "RespValue \<Rightarrow> RespValue list" where
  "command_reply v =
     (if \<not> isArray v then [RError ''ERR Protocol error: expected array'']
      else case asArray v of
        [] \<Rightarrow> [RError ''ERR empty command'']
      | c # args \<Rightarrow>
          let cmd = map toupper (asString c)
          in if cmd = ''SUBSCRIBE'' then confirmations 1 args
             else if cmd = ''UNSUBSCRIBE'' then
               map (\<lambda>w. RArray [BulkString ''unsubscribe'', BulkString (asString w), RInteger 0]) args
             else if cmd = ''PUBLISH'' then
               (if length args = 2 then [RInteger 1] else [RError ''ERR wrong number of arguments for PUBLISH''])
             else if cmd = ''PING'' then (case args of [] \<Rightarrow> [SimpleString ''PONG''] | m # _ \<Rightarrow> [BulkString (asString m)])
             else if cmd = ''ACK'' then
               (if length args = 1 then [SimpleString ''OK''] else [RError ''ERR wrong number of arguments for ACK''])
             else [RError (''ERR unknown command '' @ [CHR 0x27] @ cmd @ [CHR 0x27])])"

text \<open>Topic and payload of a text publish.\<close>

definition text_publish :: "RespValue \<Rightarrow> (RespValue \<times> RespValue) option" where
  "text_publish v =
     (case asArray v of
        [c, t, x] \<Rightarrow> if isArray v \<and> map toupper (asString c) = ''PUBLISH'' then Some (t, x) else None
      | _ \<Rightarrow> None)"

definition command_out :: "pubsub \<Rightarrow> session_id \<Rightarrow> RespValue \<Rightarrow> session_id \<Rightarrow> packet list" where
  "command_out p i v r =
     (case text_publish v of None \<Rightarrow> [] | Some (t, x) \<Rightarrow> replicate (matches p r (asString t)) (Txt (text_message t x))) @
     (if r = i then map Txt (command_reply v) else [])"

text \<open>The output to \<open>r\<close> for one event; \<open>n\<close> counts the messages numbered by each session so far.\<close>

definition pubsub_out :: "(BinaryFrame \<Rightarrow> verdict) \<Rightarrow> pubsub \<Rightarrow> (session_id \<Rightarrow> uint64) \<Rightarrow> session_id \<times> input \<Rightarrow> session_id \<Rightarrow> packet list" where
  "pubsub_out J p n ev =
     (case ev of
        (i, Frame f) \<Rightarrow> if i \<in> live p then frame_out J p (n i + 1) i f else (\<lambda>r. [])
      | (i, Command v) \<Rightarrow> if i \<in> live p then command_out p i v else (\<lambda>r. [])
      | _ \<Rightarrow> (\<lambda>r. []))"

text \<open>The frames that make a session use up a number.\<close>

definition numbers :: "(BinaryFrame \<Rightarrow> verdict) \<Rightarrow> BinaryFrame \<Rightarrow> bool" where
  "numbers J f \<longleftrightarrow>
     (frame_command f = CMD_PUBLISH \<and> \<not> starts_with (frame_topic f) ''secure/'') \<or>
     (frame_command f = CMD_SIGNED_PUBLISH \<and> J f = Granted)"

definition pubsub_count :: "(BinaryFrame \<Rightarrow> verdict) \<Rightarrow> pubsub \<Rightarrow> (session_id \<Rightarrow> uint64) \<Rightarrow> session_id \<times> input \<Rightarrow> session_id \<Rightarrow> uint64" where
  "pubsub_count J p n ev =
     (case ev of
        (i, Connect _) \<Rightarrow> if i \<in> live p \<or> down p then n else n(i := 0)
      | (i, Frame f) \<Rightarrow> if i \<in> live p \<and> numbers J f then n(i := n i + 1) else n
      | _ \<Rightarrow> n)"

fun packets_for :: "(BinaryFrame \<Rightarrow> verdict) \<Rightarrow> session_id \<Rightarrow> pubsub \<Rightarrow> (session_id \<Rightarrow> uint64) \<Rightarrow> (session_id \<times> input) list \<Rightarrow> packet list" where
  "packets_for J r p n [] = []"
| "packets_for J r p n (ev # evs) = pubsub_out J p n ev r @ packets_for J r (pubsub_step p ev) (pubsub_count J p n ev) evs"

text \<open>
  The histories covered: topics of subscriptions without the bytes 1 and 13 and published topics without NUL bytes,
  so that nothing is replayed.
\<close>

definition quiet_topic :: "bytes \<Rightarrow> bool" where
  "quiet_topic t \<longleftrightarrow> CHR 0x01 \<notin> set t \<and> CHR 0x0D \<notin> set t"

definition quiet_event :: "input \<Rightarrow> bool" where
  "quiet_event inp \<longleftrightarrow> nul_free_topics inp \<and>
     (case inp of
        Frame f \<Rightarrow> frame_command f = CMD_SUBSCRIBE \<longrightarrow> quiet_topic (frame_topic f)
      | Command v \<Rightarrow>
          (case asArray v of
             [] \<Rightarrow> True
           | c # args \<Rightarrow> map toupper (asString c) = ''SUBSCRIBE'' \<longrightarrow> list_all (\<lambda>w. quiet_topic (asString w)) args)
      | _ \<Rightarrow> True)"

section \<open>The bytes written to one connection\<close>

text \<open>The bytes that a sequence of \<^verbatim>\<open>Session::send\<close> calls writes to one connection.\<close>

definition wire :: "session_id \<Rightarrow> (session_id \<times> bytes) list \<Rightarrow> bytes" where
  "wire r xs = concat (map snd (filter (\<lambda>x. fst x = r) xs))"

lemma wire_fan_out: "wire r (map (\<lambda>s. (s, d)) ss) = concat (replicate (count_list ss r) d)"
  by (induction ss) (simp_all add: wire_def)

lemma wire_append [simp]: "wire r (xs @ ys) = wire r xs @ wire r ys"
  by (simp add: wire_def)

lemma wire_one [simp]: "wire r [] = []" "wire r [(i, d)] = (if r = i then d else [])"
  by (auto simp: wire_def)

lemma wire_forward:
  "r \<noteq> i \<Longrightarrow> wire r (map (\<lambda>s. (s, serialize m)) ss @ [(i, a)]) = concat (map serialize (replicate (count_list ss r) m))"
  unfolding wire_append wire_fan_out by (simp add: wire_def)

lemma wire_replies: "wire r (map (\<lambda>v. (i, g v)) vs) = (if r = i then concat (map g vs) else [])"
  by (induction vs) (auto simp: wire_def)

section \<open>The key registry\<close>

text \<open>All of a registry but the times of last use.\<close>

definition trust :: "TrustedKeyStore \<Rightarrow> uint32 \<Rightarrow> TrustedKey option" where
  "trust ks k = map_option (\<lambda>tk. tk\<lparr>tk_last_used := 0\<rparr>) (map_of (ks_keys ks) k)"

lemma trust_verify: "trust (fst (verify_with_key S now ks i m g)) = trust ks"
  by (rule ext) (auto simp: trust_def verify_with_key_frame option.map_comp comp_def split: option.split)

lemma signed_verdict_trust:
  "signed_verdict S ks f =
     (case trust ks (frame_key_id f) of
        None \<Rightarrow> Rejected
      | Some tk \<Rightarrow>
          if \<not> tk_enabled tk \<or> \<not> verify S (map byte_of_char (frame_topic f @ frame_payload f)) (frame_signature f) (tk_public_key tk)
          then Rejected
          else if key_scope_ok (Some tk) (frame_topic f) then Granted else Forbidden)"
  by (auto simp: signed_verdict_def trust_def key_scope_ok_def split: option.split)

section \<open>The handlers\<close>

lemma sent_frame [simp]:
  "sent (subscribe_locked b s t) = sent b" "sent (unsubscribe b s t) = sent b" "sent (removeSession b s) = sent b"
  "sent (unregisterClient b c) = sent b" "sent (registerClient L ord b c s) = sent b" "sent (fst (accept_step b ev)) = sent b"
  "sent (stop b) = sent b" "sent (handleAck L b c n) = sent b"
  by (simp_all add: subscribe_locked_def unsubscribe_def removeSession_def unregisterClient_def handleAck_def
      registerClient_def accept_step_def stop_def update_metrics_def Let_def split: option.split accept_event.split)

lemma sent_publish: "sent (fst (publish L lat b t p)) = sent b @ map (\<lambda>s. (s, p)) (subscribers b t @ subscribers b ''#'')"
  by (simp add: publish_eq)

lemma sent_sends [simp]:
  "sent (sys_broker (sendBinary ses f sys)) = sent (sys_broker sys) @ [(ses_id ses, serialize f)]"
  "sent (sys_broker (sendResp ses v sys)) = sent (sys_broker sys) @ [(ses_id ses, resp_serialize v)]"
  by (simp_all add: sendBinary_def sendResp_def send_to_def)

lemma keys_sends [simp]:
  "sys_keys (sendBinary ses f sys) = sys_keys sys" "sys_keys (sendResp ses v sys) = sys_keys sys"
  "sys_keys (with_broker g sys) = sys_keys sys"
  by (simp_all add: sendBinary_def sendResp_def with_broker_def)

lemma wire_publish_matches:
  assumes "broker_inv b"
  shows "wire r (map (\<lambda>s. (s, d)) (subscribers b t @ subscribers b ''#'')) = concat (replicate (matches (pubsub_of b) r t) d)"
proof -
  have "distinct (subscribers b u)" for u using subscribers_inv [of b u] assms by (simp add: broker_inv_def)
  then show ?thesis
    unfolding map_append wire_append wire_fan_out concat_append [symmetric] replicate_add [symmetric]
    by (simp add: matches_def pubsub_of_def count_list_distinct)
qed

text \<open>What a handler did, in the terms of the machine.\<close>

definition writes :: "'e Broker \<Rightarrow> 'e Broker \<Rightarrow> (session_id \<Rightarrow> packet list) \<Rightarrow> bool" where
  "writes b b' ps \<longleftrightarrow> (\<exists>new. sent b' = sent b @ new \<and> (\<forall>r. wire r new = concat (map packet_bytes (ps r))))"

lemma writes_nothing: "sent b' = sent b \<Longrightarrow> (\<And>r. ps r = []) \<Longrightarrow> writes b b' ps"
  by (simp add: writes_def)

lemma writes_reply:
  "sent b' = sent b @ [(i, serialize g)] \<Longrightarrow> (\<And>r. ps r = (if r = i then [Bin g] else [])) \<Longrightarrow> writes b b' ps"
  by (simp add: writes_def)

lemma writes_forward:
  assumes "broker_inv b" and "sent b' = sent b @ map (\<lambda>s. (s, packet_bytes m)) (subscribers b t @ subscribers b ''#'') @ [(i, packet_bytes a)]"
    and "\<And>r. ps r = replicate (matches (pubsub_of b) r t) m @ (if r = i then [a] else [])"
  shows "writes b b' ps"
proof -
  have "wire r (map (\<lambda>s. (s, packet_bytes m)) (subscribers b t @ subscribers b ''#'') @ [(i, packet_bytes a)]) = concat (map packet_bytes (ps r))" for r
    unfolding wire_append wire_publish_matches [OF assms(1)] assms(3) by simp
  with assms(2) show ?thesis unfolding writes_def by blast
qed

context lmdb_engine
begin

lemma quiet_subscribe:
  assumes "store_sat (\<lambda>e. wire_store (eview e)) b" and "quiet_topic t"
  shows "subscribe L b s t = (subscribe_locked b s t, None)" "replayMessagesForClient L b s t c = (b, None)"
proof -
  have "store_sat (\<lambda>e. wire_store (eview e)) (subscribe_locked b s t)" using assms(1) by (simp add: store_sat_def)
  with assms replay_nothing show "subscribe L b s t = (subscribe_locked b s t, None)" "replayMessagesForClient L b s t c = (b, None)"
    by (simp_all add: subscribe_def quiet_topic_def)
qed

lemma subscribe_output:
  assumes "amb_lmdb A = L" and "store_sat (\<lambda>e. wire_store (eview e)) (sys_broker sys)" and "quiet_topic (frame_topic f)"
    and "on_subscribe A (ses, sys) f = ((ses', sys'), x)"
  shows "x = None \<and> ses_sequence ses' = ses_sequence ses \<and> sys_keys sys' = sys_keys sys \<and>
    sent (sys_broker sys') = sent (sys_broker sys) @ [(ses_id ses, serialize (ack_frame (frame_sequence f)))]"
proof -
  have ok: "store_sat (\<lambda>e. wire_store (eview e)) b" if "persistence b = persistence (sys_broker sys)" for b
    using assms(2) that by (simp add: store_sat_def)
  have "quiet_topic (drop k (frame_topic f))" for k
    using assms(3) set_drop_subset [of k "frame_topic f"] by (auto simp: quiet_topic_def)
  with assms(3,4) quiet_subscribe ok show ?thesis
    by (auto simp: on_subscribe_def assms(1) sendBinary_def send_to_def Let_def split: option.splits)
qed

lemma binary_output:
  assumes "amb_lmdb A = L" and "store_sat (\<lambda>e. wire_store (eview e)) (sys_broker sys)" and "broker_inv (sys_broker sys)"
    and "quiet_event (Frame f)" and "J = signed_verdict (amb_sodium A) (sys_keys sys)"
    and "handleBinaryFrame A (ses, sys) f = ((ses', sys'), x)"
  shows "x = None \<and> ses_sequence ses' = (if numbers J f then ses_sequence ses + 1 else ses_sequence ses) \<and>
    trust (sys_keys sys') = trust (sys_keys sys) \<and>
    writes (sys_broker sys) (sys_broker sys') (frame_out J (pubsub_of (sys_broker sys)) (ses_sequence ses + 1) (ses_id ses) f)"
proof -
  let ?sys = "sys\<lparr>sys_tick := sys_tick sys + 1\<rparr>" and ?t = "frame_topic f"
  note forward = writes_forward [OF assms(3), where i = "ses_id ses" and t = ?t and a = "Bin (ack_frame (frame_sequence f))"]
  note reply = writes_reply [where i = "ses_id ses"]
  note defs = handleBinaryFrame_def frame_out_def numbers_def Let_def
  show ?thesis
  proof (cases "frame_command f")
    case CMD_SUBSCRIBE
    have "on_subscribe A (ses, ?sys) f = ((ses', sys'), x)" using assms(6) CMD_SUBSCRIBE by (simp add: defs)
    moreover have "quiet_topic ?t" using assms(4) CMD_SUBSCRIBE by (simp add: quiet_event_def)
    ultimately show ?thesis
      using subscribe_output [OF assms(1), of ?sys f ses ses' sys' x] assms(2) CMD_SUBSCRIBE
      by (auto simp: defs intro: reply)
  next
    case CMD_PUBLISH
    show ?thesis
    proof (cases "starts_with ?t ''secure/''")
      case True
      then show ?thesis using assms(6) CMD_PUBLISH by (auto simp: defs on_publish_def intro: reply)
    next
      case False
      then show ?thesis
        using assms(6) CMD_PUBLISH
        by (auto simp: defs on_publish_def sent_publish intro!: forward [where m = "Bin (message_frame ?t (frame_payload f) (ses_sequence ses + 1))"])
    qed
  next
    case CMD_SIGNED_PUBLISH
    let ?m = "map byte_of_char (?t @ frame_payload f)"
    obtain keys1 valid where v: "verify_with_key (amb_sodium A) (amb_clock A (sys_tick sys + 1)) (sys_keys sys)
        (frame_key_id f) ?m (frame_signature f) = (keys1, valid)" by fastforce
    have trust: "trust keys1 = trust (sys_keys sys)" using trust_verify v by (metis fst_conv)
    have J: "J f = (if \<not> valid then Rejected
        else if key_scope_ok (get_key_info keys1 (frame_key_id f)) ?t then Granted else Forbidden)"
    proof (cases "map_of (ks_keys (sys_keys sys)) (frame_key_id f)")
      case (Some tk)
      have "map_of (ks_keys keys1) (frame_key_id f) = (if valid then Some (tk\<lparr>tk_last_used := amb_clock A (sys_tick sys + 1)\<rparr>) else Some tk)"
        using verify_with_key_frame [of "amb_sodium A" _ "sys_keys sys"] v Some by (metis fst_conv snd_conv option.simps(9))
      moreover have "valid \<longleftrightarrow> tk_enabled tk \<and> verify (amb_sodium A) ?m (frame_signature f) (tk_public_key tk)"
        using verify_with_key_iff [of "amb_sodium A" _ "sys_keys sys"] v Some by (metis snd_conv option.inject)
      ultimately show ?thesis
        using Some by (auto simp: assms(5) signed_verdict_def get_key_info_def key_scope_ok_def)
    qed (use v in \<open>auto simp: assms(5) signed_verdict_def verify_with_key_def\<close>)
    show ?thesis
    proof (cases "J f = Granted")
      case True
      with J have "valid" "key_scope_ok (get_key_info keys1 (frame_key_id f)) ?t" by (auto split: if_splits)
      then show ?thesis
        using assms(6) CMD_SIGNED_PUBLISH v trust True
        by (auto simp: defs on_signed_publish_def sent_publish intro!: forward
            [where m = "Bin (signed_message_frame ?t (frame_payload f) (frame_signature f) (frame_key_id f) (ses_sequence ses + 1))"])
    next
      case False
      with J v trust assms(6) CMD_SIGNED_PUBLISH show ?thesis
        by (auto simp: defs on_signed_publish_def intro: reply split: if_splits)
    qed
  qed (use assms(6) in \<open>auto simp: defs intro: reply writes_nothing split: if_splits\<close>)
qed

lemma resp_subscribe_output:
  assumes "amb_lmdb A = L" and "store_sat (\<lambda>e. wire_store (eview e)) (sys_broker sys)" and "\<forall>w \<in> set vs. quiet_topic (asString w)"
  shows "\<exists>sys'. resp_subscribe A ses k vs sys = (sys', None) \<and> sys_keys sys' = sys_keys sys \<and>
    sent (sys_broker sys') = sent (sys_broker sys) @ map (\<lambda>v. (ses_id ses, resp_serialize v)) (confirmations k vs)"
  using assms(2,3)
proof (induction vs arbitrary: k sys)
  case (Cons v vs)
  let ?b = "subscribe_locked (sys_broker sys) (ses_id ses) (asString v)"
  let ?sys = "sendResp ses (RArray [BulkString ''subscribe'', BulkString (asString v), RInteger k]) (sys\<lparr>sys_broker := ?b\<rparr>)"
  have "store_sat (\<lambda>e. wire_store (eview e)) (sys_broker ?sys)"
    using Cons.prems(1) by (simp add: store_sat_def sendResp_def)
  from Cons.IH [OF this, of "k + 1"] Cons.prems(2) obtain sys' where
    "resp_subscribe A ses (k + 1) vs ?sys = (sys', None)" "sys_keys sys' = sys_keys sys"
    "sent (sys_broker sys') = sent (sys_broker ?sys) @ map (\<lambda>v. (ses_id ses, resp_serialize v)) (confirmations (k + 1) vs)"
    by auto
  then show ?case
    using Cons.prems quiet_subscribe(1) [OF Cons.prems(1), of "asString v"] by (simp add: assms(1) del: resp_serialize.simps)
qed simp

end

lemma resp_unsubscribe_output:
  "sys_keys (resp_unsubscribe ses vs sys) = sys_keys sys"
  "sent (sys_broker (resp_unsubscribe ses vs sys)) = sent (sys_broker sys) @
     map (\<lambda>w. (ses_id ses, resp_serialize (RArray [BulkString ''unsubscribe'', BulkString (asString w), RInteger 0]))) vs"
  by (induction vs arbitrary: sys) (simp_all del: resp_serialize.simps)

lemma writes_replies:
  "sent b' = sent b @ map (\<lambda>v. (i, resp_serialize v)) vs \<Longrightarrow> (\<And>r. ps r = (if r = i then map Txt vs else [])) \<Longrightarrow> writes b b' ps"
  unfolding writes_def by (intro exI conjI) (auto simp: wire_replies comp_def)

context lmdb_engine
begin

lemma command_output:
  assumes "amb_lmdb A = L" and "store_sat (\<lambda>e. wire_store (eview e)) (sys_broker sys)" and "broker_inv (sys_broker sys)"
    and "quiet_event (Command v)" and "handleCommand A (ses, sys) v = ((ses', sys'), x)"
  shows "x = None \<and> ses' = ses \<and> sys_keys sys' = sys_keys sys \<and>
    writes (sys_broker sys) (sys_broker sys') (command_out (pubsub_of (sys_broker sys)) (ses_id ses) v)"
proof -
  define sys1 where "sys1 = sys\<lparr>sys_tick := sys_tick sys + 1\<rparr>"
  have b: "sys_broker sys1 = sys_broker sys" "sys_keys sys1 = sys_keys sys" by (simp_all add: sys1_def)
  have same: "command_out p i v r = (if r = i then map Txt (command_reply v) else [])" if "text_publish v = None" for p i r
    using that by (simp add: command_out_def)
  note run = assms(5) [unfolded handleCommand_def Let_def fst_conv snd_conv sys1_def [symmetric]]
  show ?thesis
  proof (cases "text_publish v")
    case (Some tx)
    obtain c t y where v: "isArray v" "asArray v = [c, t, y]" "map toupper (asString c) = ''PUBLISH''" "tx = (t, y)"
      using Some by (auto simp: text_publish_def split: list.splits if_splits)
    have "writes (sys_broker sys) (sys_broker sys') (command_out (pubsub_of (sys_broker sys)) (ses_id ses) v)"
      using run v Some
      by (intro writes_forward [OF assms(3), where m = "Txt (text_message t y)" and t = "asString t" and a = "Txt (RInteger 1)" and i = "ses_id ses"])
        (auto simp: sent_publish b command_out_def command_reply_def text_message_def simp del: resp_serialize.simps)
    then show ?thesis using run v by (auto simp: b)
  next
    case None
    have sub: "\<exists>sys'. resp_subscribe A ses 1 args sys1 = (sys', None) \<and> sys_keys sys' = sys_keys sys \<and>
        sent (sys_broker sys') = sent (sys_broker sys) @ map (\<lambda>v. (ses_id ses, resp_serialize v)) (confirmations 1 args)"
      if "asArray v = c # args" "map toupper (asString c) = ''SUBSCRIBE''" for c args
      using resp_subscribe_output [OF assms(1), of sys1 args ses 1] assms(2,4) that by (auto simp: b quiet_event_def list_all_iff)
    have out: "sent (sys_broker sys') = sent (sys_broker sys) @ map (\<lambda>v. (ses_id ses, resp_serialize v)) (command_reply v) \<and>
        x = None \<and> ses' = ses \<and> sys_keys sys' = sys_keys sys"
    proof (cases "asArray v")
      case Nil
      then show ?thesis using run by (auto simp: command_reply_def b simp del: resp_serialize.simps split: if_splits)
    next
      case (Cons c args)
      define cmd where "cmd = map toupper (asString c)"
      note facts = run [unfolded Cons list.case cmd_def [symmetric]] None [unfolded text_publish_def Cons cmd_def [symmetric]]
        sub [OF Cons, folded cmd_def] resp_unsubscribe_output [of ses args sys1]
      show ?thesis
        unfolding command_reply_def Cons list.case Let_def cmd_def [symmetric]
        using facts
        by (auto simp: b comp_def cmd_def [symmetric] simp del: resp_serialize.simps split: if_splits list.splits prod.splits)
          (metis b)+
    qed
    with None show ?thesis by (auto intro!: writes_replies simp: same)
  qed
qed

text \<open>One event: what is sent to each connection, the counters and the keys.\<close>

lemma step_output:
  assumes "amb_lmdb A = L" and "sessions_ok sv" and "store_sat (\<lambda>e. wire_store (eview e)) (sys_broker (sv_sys sv))"
    and "broker_inv (sys_broker (sv_sys sv))" and "quiet_event (snd ev)" and "J = signed_verdict (amb_sodium A) (sys_keys (sv_sys sv))"
    and "b = sys_broker (sv_sys sv)" and "n = (\<lambda>i. ses_sequence (sv_sessions sv i))" and "sv' = server_step A sv ev"
  shows "writes b (sys_broker (sv_sys sv')) (pubsub_out J (pubsub_of b) n ev) \<and>
    (\<lambda>i. ses_sequence (sv_sessions sv' i)) = pubsub_count J (pubsub_of b) n ev \<and>
    trust (sys_keys (sv_sys sv')) = trust (sys_keys (sv_sys sv))"
proof -
  obtain i inp where ev: "ev = (i, inp)" by fastforce
  have id: "ses_id (sv_sessions sv i) = i" using assms(2) by (simp add: sessions_ok_def)
  have live: "live (pubsub_of b) = set (b_sessions b)" "down (pubsub_of b) = shutdown_requested b" by (simp_all add: pubsub_of_def)
  note defs = ev assms(7-9) server_step_def after_handler_def pubsub_out_def pubsub_count_def live [unfolded assms(7)] id Let_def
  show ?thesis
  proof (cases inp)
    case (Frame f)
    obtain ses' sys' x where h: "handleBinaryFrame A (sv_sessions sv i, sv_sys sv) f = ((ses', sys'), x)" by (metis surj_pair)
    have "quiet_event (Frame f)" using assms(5) by (simp add: ev Frame)
    from binary_output [OF assms(1,3,4) this assms(6) h] show ?thesis
      using Frame h by (auto simp: defs writes_nothing fun_eq_iff)
  next
    case (Command v)
    obtain ses' sys' x where h: "handleCommand A (sv_sessions sv i, sv_sys sv) v = ((ses', sys'), x)" by (metis surj_pair)
    have "quiet_event (Command v)" using assms(5) by (simp add: ev Command)
    from command_output [OF assms(1,3,4) this h] show ?thesis
      using Command h by (auto simp: defs writes_nothing fun_eq_iff)
  next
    case Disconnect
    then show ?thesis by (auto simp: defs session_cleanup_def fun_eq_iff intro!: writes_nothing)
  qed (auto simp: defs session_new_def fun_eq_iff intro!: writes_nothing)
qed

text \<open>A whole history, from any consistent state.\<close>

lemma history_output:
  assumes "amb_lmdb A = L" and "\<forall>ev \<in> set evs. quiet_event (snd ev)" and "sessions_ok sv"
    and "store_sat (\<lambda>e. wire_store (eview e)) (sys_broker (sv_sys sv))" and "broker_inv (sys_broker (sv_sys sv))"
    and "signed_verdict (amb_sodium A) (sys_keys (sv_sys sv)) = J"
  shows "wire r (sent (sys_broker (sv_sys (server_run A sv evs)))) = wire r (sent (sys_broker (sv_sys sv))) @
    concat (map packet_bytes (packets_for J r (pubsub_of (sys_broker (sv_sys sv))) (\<lambda>i. ses_sequence (sv_sessions sv i)) evs))"
  using assms(2-6)
proof (induction evs arbitrary: sv)
  case (Cons ev evs)
  let ?b = "sys_broker (sv_sys sv)" and ?sv = "server_step A sv ev" and ?n = "\<lambda>i. ses_sequence (sv_sessions sv i)"
  have quiet: "quiet_event (snd ev)" using Cons.prems(1) by simp
  have ok: "store_sat (\<lambda>e. store_inv (eview e)) ?b"
    using Cons.prems(3) by (auto simp: store_sat_def wire_store_def split: option.split)
  note step = step_output [OF assms(1) Cons.prems(2-4) quiet Cons.prems(5) [symmetric] refl refl refl]
  have new: "wire r (sent (sys_broker (sv_sys ?sv))) = wire r (sent ?b) @ concat (map packet_bytes (pubsub_out J (pubsub_of ?b) ?n ev r))"
    using step by (auto simp: writes_def)
  have next_ok: "sessions_ok ?sv" "bsteps A ?b (sys_broker (sv_sys ?sv))"
    using server_step_steps [OF Cons.prems(2), of A ev] by auto
  have "broker_inv (sys_broker (sv_sys ?sv))"
    using next_ok(2) Cons.prems(4) by (induction rule: rtranclp_induct) (auto intro: broker_step_inv)
  moreover have "store_sat (\<lambda>e. wire_store (eview e)) (sys_broker (sv_sys ?sv))"
    using wire_step [OF assms(1) Cons.prems(3)] quiet by (simp add: quiet_event_def)
  moreover have "signed_verdict (amb_sodium A) (sys_keys (sv_sys ?sv)) = J"
    using step Cons.prems(5) by (simp add: signed_verdict_trust [abs_def] fun_eq_iff)
  ultimately have "wire r (sent (sys_broker (sv_sys (server_run A ?sv evs)))) = wire r (sent (sys_broker (sv_sys ?sv))) @
      concat (map packet_bytes (packets_for J r (pubsub_of (sys_broker (sv_sys ?sv))) (\<lambda>i. ses_sequence (sv_sessions ?sv i)) evs))"
    using Cons.IH [of ?sv] Cons.prems(1) next_ok(1) by simp
  then show ?case
    using new step pubsub_server_step [OF assms(1) Cons.prems(2) ok Cons.prems(4), of ev] by simp
qed simp

end

lemma client_stream:
  assumes "lmdb_engine (amb_lmdb A) eview tview" and "eview e = Map.empty" and "\<forall>ev \<in> set evs. quiet_event (snd ev)"
  shows "wire r (sent (sys_broker (sv_sys (server_run A (server_start (amb_lmdb A) e keys) evs)))) =
    concat (map packet_bytes (packets_for (signed_verdict (amb_sodium A) keys) r pubsub_init (\<lambda>_. 0) evs))"
proof -
  let ?sv = "server_start (amb_lmdb A) e keys"
  have "store_sat (\<lambda>e. wire_store (eview e)) (sys_broker (sv_sys ?sv))"
    using assms(2) by (simp add: server_start_def broker_new_def store_sat_def wire_store_empty)
  moreover have "broker_inv (sys_broker (sv_sys ?sv))" by (simp add: server_start_def)
  moreover have "pubsub_of (sys_broker (sv_sys ?sv)) = pubsub_init" "sent (sys_broker (sv_sys ?sv)) = []"
    "(\<lambda>i. ses_sequence (sv_sessions ?sv i)) = (\<lambda>_. 0)" "sys_keys (sv_sys ?sv) = keys"
    by (simp_all add: server_start_def pubsub_of_def pubsub_init_def broker_new_def subscribers_def session_new_def)
  ultimately show ?thesis
    using lmdb_engine.history_output [OF assms(1) refl assms(3) sessions_ok_start [of "amb_lmdb A" e keys] _ _ refl, of r] by simp
qed

section \<open>Properties\<close>



end
