(* ===== verification/Net_Client.thy ===== *)
theory Net_Client
  imports Framing
begin

text \<open>
  What the client libraries (\<^verbatim>\<open>src/pubsub.cpp\<close>, \<^verbatim>\<open>src/binary_pubsub.cpp\<close>, \<^verbatim>\<open>src/queue.cpp\<close>) share:
  opening the TCP connection, one call of \<^verbatim>\<open>::send\<close> per message with its result ignored, the console,
  and the blocking receive loop with a user callback. The socket calls are a parameter. The receive
  loop is stated once over any wire format that meets the framing contract.
\<close>

section \<open>Sockets and console\<close>

text \<open>
  The operating system's side: the results of \<^verbatim>\<open>socket\<close>, of \<^verbatim>\<open>inet_pton\<close> for a host text (\<open>None\<close> when it is
  not a dotted address) and of \<^verbatim>\<open>connect\<close> for an address and port, and the result of the \<open>k\<close>-th
  \<^verbatim>\<open>::send\<close> on the connection.
\<close>

record net =
  net_socket :: int
  net_inet_pton :: "bytes \<Rightarrow> uint32 option"
  net_connect :: "int \<Rightarrow> uint32 \<Rightarrow> uint16 \<Rightarrow> int"
  net_send :: "nat \<Rightarrow> bytes \<Rightarrow> int"

text \<open>
  What a client has done so far: calls of \<^verbatim>\<open>::send\<close>, bytes accepted by the kernel, console output, and the
  descriptors it holds open.
\<close>

record io =
  io_sends :: nat
  io_out :: bytes
  io_cout :: bytes
  io_cerr :: bytes
  io_fds :: "int list"

definition io_new :: io where
  "io_new = \<lparr>io_sends = 0, io_out = [], io_cout = [], io_cerr = [], io_fds = []\<rparr>"

definition cout :: "bytes \<Rightarrow> io \<Rightarrow> io" where
  "cout s i = i\<lparr>io_cout := io_cout i @ s\<rparr>"

definition cerr :: "bytes \<Rightarrow> io \<Rightarrow> io" where
  "cerr s i = i\<lparr>io_cerr := io_cerr i @ s\<rparr>"

abbreviation (input) newline :: bytes where "newline \<equiv> [CHR 0x0A]"

text \<open>
  The constructors of all six client classes open the connection alike: the result of \<^verbatim>\<open>inet_pton\<close> is not
  looked at, so a host it does not understand leaves the zero address, and \<^verbatim>\<open>htons\<close> keeps the low 16 bits of
  the port. The value is \<^verbatim>\<open>sock_\<close>, -1 when there is no connection; \<open>name\<close> is the class name in the
  messages and \<open>greeting\<close> what a successful connect prints.
\<close>

definition server_address :: "net \<Rightarrow> bytes \<Rightarrow> uint32" where
  "server_address N host = (case net_inet_pton N host of None \<Rightarrow> 0 | Some a \<Rightarrow> a)"

definition fd_open :: "int \<Rightarrow> io \<Rightarrow> io" where
  "fd_open fd i = i\<lparr>io_fds := fd # io_fds i\<rparr>"

definition close_socket :: "int \<Rightarrow> io \<Rightarrow> io" where
  "close_socket fd i = i\<lparr>io_fds := remove1 fd (io_fds i)\<rparr>"

definition open_connection :: "net \<Rightarrow> bytes \<Rightarrow> bytes \<Rightarrow> bytes \<Rightarrow> int \<Rightarrow> io \<Rightarrow> int \<times> io" where
  "open_connection N name greeting host port i =
     (let sock = net_socket N
      in if sock = -1 then (-1, cerr (name @ '': socket creation failed'' @ newline) i)
         else if net_connect N sock (server_address N host) (word_of_int port) = -1
           then (-1, close_socket sock (cerr (name @ '': connect failed'' @ newline) (fd_open sock i)))
         else (sock, cout greeting (fd_open sock i)))"

text \<open>The destructors of all six classes.\<close>

definition close_connection :: "int \<Rightarrow> io \<Rightarrow> io" where
  "close_connection sock i = (if sock \<noteq> -1 then close_socket sock i else i)"

text \<open>One \<^verbatim>\<open>::send\<close> whose result is ignored: the kernel takes a prefix of the data, or nothing on an error.\<close>

definition sock_send :: "net \<Rightarrow> bytes \<Rightarrow> io \<Rightarrow> io" where
  "sock_send N data i =
     i\<lparr>io_sends := io_sends i + 1, io_out := io_out i @ take (nat (net_send N (io_sends i) data)) data\<rparr>"

text \<open>A network on which every \<^verbatim>\<open>::send\<close> takes all of its data, as a blocking socket does.\<close>

definition sends_all :: "net \<Rightarrow> bool" where
  "sends_all N \<longleftrightarrow> (\<forall>k d. net_send N k d = int (length d))"

lemma sock_send_all: "sends_all N \<Longrightarrow> sock_send N d i = i\<lparr>io_sends := io_sends i + 1, io_out := io_out i @ d\<rparr>"
  by (simp add: sends_all_def sock_send_def)

lemma io_sel [simp]:
  "io_out (cout s i) = io_out i" "io_out (cerr s i) = io_out i"
  "io_sends (cout s i) = io_sends i" "io_sends (cerr s i) = io_sends i"
  "io_cout (cerr s i) = io_cout i" "io_cout (cout s i) = io_cout i @ s"
  "io_cerr (cout s i) = io_cerr i" "io_cerr (cerr s i) = io_cerr i @ s"
  "io_cout (sock_send N d i) = io_cout i" "io_cerr (sock_send N d i) = io_cerr i"
  by (simp_all add: cout_def cerr_def sock_send_def)

lemma io_fd_sel [simp]:
  "io_fds (cout s i) = io_fds i" "io_fds (cerr s i) = io_fds i" "io_fds (sock_send N d i) = io_fds i"
  "io_out (fd_open fd i) = io_out i" "io_out (close_socket fd i) = io_out i"
  "io_fds (fd_open fd i) = fd # io_fds i" "io_fds (close_socket fd i) = remove1 fd (io_fds i)"
  by (simp_all add: cout_def cerr_def sock_send_def fd_open_def close_socket_def)

lemma io_out_sock_send [simp]: "sends_all N \<Longrightarrow> io_out (sock_send N d i) = io_out i @ d"
  by (simp add: sock_send_all)

section \<open>The receive loop of a client\<close>

text \<open>
  The state is the client object, what it has done, and the state of the user's callback; the callback may
  throw, which leaves the loop and the calling method. \<open>chunks\<close> is what \<^verbatim>\<open>recv\<close> returns before it returns 0
  or less; then \<open>closed\<close> goes to the error stream and the method returns.
\<close>

type_synonym ('c, 'u) client = "'c \<times> io \<times> 'u"

definition receive ::
  "'m parser \<Rightarrow> (('c, 'u) client, 'm) handler \<Rightarrow> bytes \<Rightarrow> ('c, 'u) client \<Rightarrow> bytes list \<Rightarrow> (('c, 'u) client \<times> exn option) option" where
  "receive prs h closed st chunks =
     (case recv_chunks prs h st [] chunks of
        None \<Rightarrow> None
      | Some (st', _, Some x) \<Rightarrow> Some (st', Some x)
      | Some ((c, i, u), _, None) \<Rightarrow> Some ((c, cerr closed i, u), None))"

text \<open>The contract of a wire format towards a client: a codec in the sense of the framing theory.\<close>

locale client_codec = frame_codec prs render valid
  for prs :: "'m parser" and render :: "'m \<Rightarrow> bytes" and valid :: "'m \<Rightarrow> bool"
begin

text \<open>A client method always returns once the connection ends, whatever the bytes received.\<close>

lemma receive_returns: "\<exists>st' x. receive prs h closed st cs = Some (st', x)"
  using chunks_return [of h st "[]" cs] by (auto simp: receive_def split: option.splits)

text \<open>
  When the peer sends rendered messages and the callback does not throw, the loop folds the handler over the
  messages, however the stream was cut; bytes that the parser does not accept end what is handled.
\<close>

lemma receive_render_then:
  assumes "list_all valid ms" and "concat cs = concat (map render ms) @ t" and "t = [] \<or> prs t = Inr None"
    and "\<And>st m. m \<in> set ms \<Longrightarrow> h st m = (g st m, None)" and "foldl g st ms = (c, i, u)"
  shows "receive prs h closed st cs = Some ((c, cerr closed i, u), None)"
  using chunks_render_then [where h = h, OF assms(1-4), of st] assms(5) by (simp add: receive_def)

lemmas receive_render = receive_render_then [where t = "[]", simplified]

end

text \<open>A parameter for examples: every call succeeds.\<close>

definition demo_net :: net where
  "demo_net = \<lparr>net_socket = 3, net_inet_pton = (\<lambda>_. Some 0x7F000001), net_connect = (\<lambda>_ _ _. 0), net_send = (\<lambda>_ d. int (length d))\<rparr>"

lemma demo_net_sends [simp]: "sends_all demo_net"
  by (simp add: sends_all_def demo_net_def)

section \<open>Properties\<close>

text \<open>
  The constructors never throw and no descriptor is lost: whatever the system calls answer, the object exists
  with the socket or with -1, a failed constructor holds no descriptor, and what the destructor leaves open is
  what was open before.
\<close>

theorem connection_lifecycle:
  assumes "open_connection N name greeting host port i = (sock, i1)"
  shows "sock = (if net_socket N = -1 \<or>
       net_connect N (net_socket N) (server_address N host) (word_of_int port) = -1 then -1 else net_socket N) \<and>
    io_out i1 = io_out i \<and> io_fds i1 = (if sock = -1 then io_fds i else sock # io_fds i) \<and>
    io_fds (close_connection sock i1) = io_fds i"
  using assms by (auto simp: open_connection_def close_connection_def Let_def split: if_splits)

theorem connection_lifecycle_witness:
  "io_fds (close_connection 3 (snd (open_connection demo_net ''P'' [] ''localhost'' 6379 io_new))) = []"
proof -
  have "open_connection demo_net ''P'' [] ''localhost'' 6379 io_new =
      (3, snd (open_connection demo_net ''P'' [] ''localhost'' 6379 io_new))"
    by (simp add: open_connection_def demo_net_def Let_def)
  from connection_lifecycle [OF this] show ?thesis by (simp add: io_new_def)
qed

end
