(* ===== verification/Binary_Client.thy ===== *)
theory Binary_Client
  imports Binary_Protocol Signing Net_Client
begin

text \<open>
  \<^verbatim>\<open>src/binary_pubsub.cpp\<close>: \<^verbatim>\<open>BinaryPublisher\<close> and \<^verbatim>\<open>BinarySubscriber\<close>. A publisher numbers its frames, writes
  one frame per message and reads one reply; a subscriber writes a \<^verbatim>\<open>SUBSCRIBE\<close> frame that may carry a client
  id in front of the topic, then hands each message frame to the callback and acknowledges it. The lemmas
  show that the callback sees exactly the messages sent, in order, each acknowledged by its number, and what
  the frames written look like.
\<close>

section \<open>BinaryPublisher\<close>

record BinaryPublisher =
  pub_sock :: int
  pub_sequence :: uint64
  signing_enabled :: bool
  pub_secret_key :: SecretKey
  signing_key_id :: uint32

definition BinaryPublisher_new :: "net \<Rightarrow> bytes \<Rightarrow> int \<Rightarrow> io \<Rightarrow> BinaryPublisher \<times> io" where
  "BinaryPublisher_new N host port i =
     (let (sock, i1) = open_connection N ''BinaryPublisher''
            (''BinaryPublisher: CONNECTED (binary protocol)'' @ newline) host port i
      in (\<lparr>pub_sock = sock, pub_sequence = 0, signing_enabled = False,
           pub_secret_key = replicate 64 0, signing_key_id = 0\<rparr>, i1))"

definition BinaryPublisher_delete :: "BinaryPublisher \<times> io \<Rightarrow> io" where
  "BinaryPublisher_delete st = close_connection (pub_sock (fst st)) (snd st)"

text \<open>
  \<open>reply\<close> is what the one \<^verbatim>\<open>recv\<close> after the frame returns, \<open>None\<close> for a result of 0 or less. The parsed reply
  is only looked at by \<^verbatim>\<open>sendSigned\<close>, which prints a rejection.
\<close>

definition BinaryPublisher_send ::
  "net \<Rightarrow> bytes option \<Rightarrow> BinaryPublisher \<times> io \<Rightarrow> bytes \<Rightarrow> bytes \<Rightarrow> (BinaryPublisher \<times> io) \<times> exn option" where
  "BinaryPublisher_send N reply st topic payload =
     (let (p, i) = st
      in if pub_sock p = -1 then ((p, cerr (''BinaryPublisher: not connected'' @ newline) i), None)
         else
           let p1 = p\<lparr>pub_sequence := pub_sequence p + 1\<rparr>;
               data = serialize (publish_frame topic payload (pub_sequence p1));
               i1 = sock_send N data i
           in case reply of
                None \<Rightarrow> ((p1, i1), None)
              | Some ack_buffer \<Rightarrow>
                  (case parse ack_buffer of
                     Inl x \<Rightarrow> ((p1, i1), Some x)
                   | Inr _ \<Rightarrow> ((p1, i1), None)))"

definition setSigningKey :: "BinaryPublisher \<Rightarrow> SecretKey \<Rightarrow> uint32 \<Rightarrow> BinaryPublisher" where
  "setSigningKey p secret kid =
     p\<lparr>pub_secret_key := secret, signing_key_id := kid, signing_enabled := True\<rparr>"

definition isSigningEnabled :: "BinaryPublisher \<Rightarrow> bool" where
  "isSigningEnabled p = signing_enabled p"

definition sendSigned ::
  "'r sodium \<Rightarrow> net \<Rightarrow> bytes option \<Rightarrow> BinaryPublisher \<times> io \<Rightarrow> bytes \<Rightarrow> bytes \<Rightarrow> (BinaryPublisher \<times> io) \<times> exn option" where
  "sendSigned S N reply st topic payload =
     (let (p, i) = st
      in if pub_sock p = -1 then ((p, cerr (''BinaryPublisher: not connected'' @ newline) i), None)
         else if \<not> signing_enabled p then
           ((p, cerr (''BinaryPublisher: signing not configured (call setSigningKey first)'' @ newline) i), None)
         else
           let message_to_sign = topic @ payload;
               signature = sign S (map byte_of_char message_to_sign) (pub_secret_key p);
               p1 = p\<lparr>pub_sequence := pub_sequence p + 1\<rparr>;
               data = serialize (signed_publish_frame topic payload signature (signing_key_id p) (pub_sequence p1));
               i1 = sock_send N data i
           in case reply of
                None \<Rightarrow> ((p1, i1), None)
              | Some ack_buffer \<Rightarrow>
                  (case parse ack_buffer of
                     Inl x \<Rightarrow> ((p1, i1), Some x)
                   | Inr None \<Rightarrow> ((p1, i1), None)
                   | Inr (Some (f, _)) \<Rightarrow>
                       ((p1, if frame_command f = CMD_ERROR
                             then cerr (''BinaryPublisher: signed publish REJECTED: '' @ frame_payload f @ newline) i1
                             else i1), None)))"

section \<open>BinarySubscriber\<close>

record BinarySubscriber =
  sub_sock :: int
  sub_sequence :: uint64
  sub_client_id :: bytes
  auto_ack :: bool

text \<open>The two constructors.\<close>

definition BinarySubscriber_new :: "net \<Rightarrow> bytes \<Rightarrow> int \<Rightarrow> io \<Rightarrow> BinarySubscriber \<times> io" where
  "BinarySubscriber_new N host port i =
     (let (sock, i1) = open_connection N ''BinarySubscriber''
            (''BinarySubscriber: CONNECTED (binary protocol)'' @ newline) host port i
      in (\<lparr>sub_sock = sock, sub_sequence = 0, sub_client_id = [], auto_ack = True\<rparr>, i1))"

definition BinarySubscriber_new_client :: "net \<Rightarrow> bytes \<Rightarrow> bytes \<Rightarrow> int \<Rightarrow> io \<Rightarrow> BinarySubscriber \<times> io" where
  "BinarySubscriber_new_client N client host port i =
     (let (sock, i1) = open_connection N ''BinarySubscriber''
            (''BinarySubscriber: CONNECTED (binary protocol, client: '' @ client @ '')'' @ newline) host port i
      in (\<lparr>sub_sock = sock, sub_sequence = 0, sub_client_id = client, auto_ack = True\<rparr>, i1))"

definition BinarySubscriber_delete :: "BinarySubscriber \<times> io \<Rightarrow> io" where
  "BinarySubscriber_delete st = close_connection (sub_sock (fst st)) (snd st)"

definition setClientId :: "BinarySubscriber \<Rightarrow> bytes \<Rightarrow> BinarySubscriber" where
  "setClientId s client = s\<lparr>sub_client_id := client\<rparr>"

definition sendAck :: "net \<Rightarrow> BinarySubscriber \<Rightarrow> uint64 \<Rightarrow> io \<Rightarrow> io" where
  "sendAck N s seq i = (if sub_sock s = -1 then i else sock_send N (serialize (ack_frame seq)) i)"

text \<open>The topic field of the \<^verbatim>\<open>SUBSCRIBE\<close> frame: the client id, a NUL byte and the topic.\<close>

definition subscribe_topic :: "BinarySubscriber \<Rightarrow> bytes \<Rightarrow> bytes" where
  "subscribe_topic s topic =
     (if sub_client_id s \<noteq> [] then sub_client_id s @ [CHR 0x00] @ topic else topic)"

definition is_message :: "BinaryFrame \<Rightarrow> bool" where
  "is_message f \<longleftrightarrow> frame_command f = CMD_MESSAGE \<or> frame_command f = CMD_SIGNED_MESSAGE"

text \<open>The body of the receive loop of \<^verbatim>\<open>subscribe\<close>; \<open>cb\<close> is the user's callback with its state.\<close>

definition on_subscribed_frame ::
  "net \<Rightarrow> ('u \<Rightarrow> bytes \<Rightarrow> bytes \<Rightarrow> 'u \<times> exn option) \<Rightarrow> bytes \<Rightarrow> ((BinarySubscriber, 'u) client, BinaryFrame) handler" where
  "on_subscribed_frame N cb topic st f =
     (let (s, i, u) = st
      in if is_message f then
           (case cb u (frame_topic f) (frame_payload f) of
              (u', Some x) \<Rightarrow> ((s, i, u'), Some x)
            | (u', None) \<Rightarrow> ((s, if auto_ack s then sendAck N s (frame_sequence f) i else i, u'), None))
         else if frame_command f = CMD_ACK then
           ((s, cout (''BinarySubscriber: Subscribed to '' @ [CHR 0x27] @ topic @ [CHR 0x27] @
                (if sub_client_id s \<noteq> [] then '' (client: '' @ sub_client_id s @ '')'' else []) @ newline) i, u), None)
         else ((s, i, u), None))"

text \<open>What both subscribe methods do before their loop.\<close>

definition send_subscribe :: "net \<Rightarrow> BinarySubscriber \<Rightarrow> bytes \<Rightarrow> bool \<Rightarrow> io \<Rightarrow> BinarySubscriber \<times> io" where
  "send_subscribe N s topic ack i =
     (let s1 = s\<lparr>auto_ack := ack, sub_sequence := sub_sequence s + 1\<rparr>
      in (s1, sock_send N (serialize (subscribe_frame (subscribe_topic s1 topic) (sub_sequence s1))) i))"

definition BinarySubscriber_subscribe ::
  "net \<Rightarrow> ('u \<Rightarrow> bytes \<Rightarrow> bytes \<Rightarrow> 'u \<times> exn option) \<Rightarrow> (BinarySubscriber, 'u) client \<Rightarrow> bytes \<Rightarrow> bool \<Rightarrow> bytes list
    \<Rightarrow> ((BinarySubscriber, 'u) client \<times> exn option) option" where
  "BinarySubscriber_subscribe N cb st topic ack chunks =
     (let (s, i, u) = st
      in if sub_sock s = -1 then Some ((s, cerr (''BinarySubscriber: not connected'' @ newline) i, u), None)
         else let (s1, i1) = send_subscribe N s topic ack i
              in receive parse (on_subscribed_frame N cb topic) (''BinarySubscriber: connection closed'' @ newline) (s1, i1, u) chunks)"

record SignedMessageInfo =
  info_topic :: bytes
  info_payload :: bytes
  info_is_signed :: bool
  info_key_id :: uint32
  info_signature :: "uint8 list"
  info_sequence :: uint64

definition message_info :: "BinaryFrame \<Rightarrow> SignedMessageInfo" where
  "message_info f =
     \<lparr>info_topic = frame_topic f, info_payload = frame_payload f, info_is_signed = frame_is_signed f,
      info_key_id = frame_key_id f,
      info_signature = (if frame_is_signed f then frame_signature f else replicate 64 0),
      info_sequence = frame_sequence f\<rparr>"

definition on_signed_frame ::
  "net \<Rightarrow> ('u \<Rightarrow> SignedMessageInfo \<Rightarrow> 'u \<times> exn option) \<Rightarrow> bytes \<Rightarrow> ((BinarySubscriber, 'u) client, BinaryFrame) handler" where
  "on_signed_frame N cb topic st f =
     (let (s, i, u) = st
      in if is_message f then
           (case cb u (message_info f) of
              (u', Some x) \<Rightarrow> ((s, i, u'), Some x)
            | (u', None) \<Rightarrow> ((s, if auto_ack s then sendAck N s (frame_sequence f) i else i, u'), None))
         else if frame_command f = CMD_ACK then
           ((s, cout (''BinarySubscriber: Subscribed to '' @ [CHR 0x27] @ topic @ [CHR 0x27] @ newline) i, u), None)
         else ((s, i, u), None))"

definition subscribeSigned ::
  "net \<Rightarrow> ('u \<Rightarrow> SignedMessageInfo \<Rightarrow> 'u \<times> exn option) \<Rightarrow> (BinarySubscriber, 'u) client \<Rightarrow> bytes \<Rightarrow> bool \<Rightarrow> bytes list
    \<Rightarrow> ((BinarySubscriber, 'u) client \<times> exn option) option" where
  "subscribeSigned N cb st topic ack chunks =
     (let (s, i, u) = st
      in if sub_sock s = -1 then Some ((s, cerr (''BinarySubscriber: not connected'' @ newline) i, u), None)
         else let (s1, i1) = send_subscribe N s topic ack i
              in receive parse (on_signed_frame N cb topic) (''BinarySubscriber: connection closed'' @ newline) (s1, i1, u) chunks)"

text \<open>\<^verbatim>\<open>run\<close>: print every frame; nothing is printed when the connection ends.\<close>

definition frame_line :: "BinaryFrame \<Rightarrow> bytes" where
  "frame_line f =
     ''Frame received: cmd='' @ to_string (unat (command_byte (frame_command f))) @
     '' seq='' @ to_string (unat (frame_sequence f)) @ '' topic='' @ frame_topic f @
     '' payload_size='' @ to_string (length (frame_payload f)) @ newline"

definition BinarySubscriber_run ::
  "BinarySubscriber \<times> io \<Rightarrow> bytes list \<Rightarrow> ((BinarySubscriber, unit) client \<times> exn option) option" where
  "BinarySubscriber_run st chunks =
     (let (s, i) = st
      in if sub_sock s = -1 then Some ((s, cerr (''BinarySubscriber: not connected'' @ newline) i, ()), None)
         else receive parse (\<lambda>(s, i, u) f. ((s, cout (frame_line f) i, u), None)) []
                (s, cout (''BinarySubscriber: running (debug mode)...'' @ newline) i, ()) chunks)"

interpretation binary_client: client_codec parse serialize valid_frame
  by unfold_locales

section \<open>What the receive loop does to a stream of frames\<close>

text \<open>The abstract view: the messages among the frames, and the frames that acknowledge them.\<close>

definition deliveries :: "BinaryFrame list \<Rightarrow> (bytes \<times> bytes) list" where
  "deliveries fs = map (\<lambda>f. (frame_topic f, frame_payload f)) (filter is_message fs)"

definition acks_for :: "BinaryFrame list \<Rightarrow> bytes" where
  "acks_for fs = concat (map (\<lambda>f. serialize (ack_frame (frame_sequence f))) (filter is_message fs))"

definition log_callback :: "(bytes \<times> bytes) list \<Rightarrow> bytes \<Rightarrow> bytes \<Rightarrow> (bytes \<times> bytes) list \<times> exn option" where
  "log_callback ms t p = (ms @ [(t, p)], None)"

definition info_callback :: "SignedMessageInfo list \<Rightarrow> SignedMessageInfo \<Rightarrow> SignedMessageInfo list \<times> exn option" where
  "info_callback ms m = (ms @ [m], None)"

text \<open>The effect of one frame on what the subscriber has written, the same in both loops but for the line printed.\<close>

definition frame_io :: "net \<Rightarrow> BinarySubscriber \<Rightarrow> bytes \<Rightarrow> BinaryFrame \<Rightarrow> io \<Rightarrow> io" where
  "frame_io N s line f i =
     (if is_message f then if auto_ack s then sendAck N s (frame_sequence f) i else i
      else if frame_command f = CMD_ACK then cout line i else i)"

definition subscribed_line :: "BinarySubscriber \<Rightarrow> bytes \<Rightarrow> bytes" where
  "subscribed_line s topic =
     ''BinarySubscriber: Subscribed to '' @ [CHR 0x27] @ topic @ [CHR 0x27] @
     (if sub_client_id s \<noteq> [] then '' (client: '' @ sub_client_id s @ '')'' else []) @ newline"

lemma subscribed_step:
  "on_subscribed_frame N log_callback topic (s, i, ms) f =
     ((s, frame_io N s (subscribed_line s topic) f i, ms @ deliveries [f]), None)"
  by (cases "is_message f"; cases "frame_command f = CMD_ACK")
    (simp_all add: on_subscribed_frame_def frame_io_def subscribed_line_def log_callback_def deliveries_def)

lemma signed_step:
  "on_signed_frame N info_callback topic (s, i, ms) f =
     ((s, frame_io N s (''BinarySubscriber: Subscribed to '' @ [CHR 0x27] @ topic @ [CHR 0x27] @ newline) f i,
       ms @ map message_info (filter is_message [f])), None)"
  by (cases "is_message f"; cases "frame_command f = CMD_ACK")
    (simp_all add: on_signed_frame_def frame_io_def info_callback_def)

lemma frame_io_out:
  assumes "sends_all N" and "sub_sock s \<noteq> -1"
  shows "io_out (frame_io N s line f i) = io_out i @ (if auto_ack s then acks_for [f] else [])"
    "io_cerr (frame_io N s line f i) = io_cerr i"
  using assms by (simp_all add: frame_io_def sendAck_def acks_for_def)

lemma delivery_fold:
  assumes "sends_all N" and "sub_sock s \<noteq> -1"
    and "\<And>i ms f. g (s, i, ms) f = (s, frame_io N s line f i, ms @ map k (filter is_message [f]))"
  shows "\<exists>i'. foldl g (s, i, ms) fs = (s, i', ms @ map k (filter is_message fs)) \<and>
      io_out i' = io_out i @ (if auto_ack s then acks_for fs else []) \<and> io_cerr i' = io_cerr i"
proof (induction fs arbitrary: i ms)
  case (Cons f fs)
  have "acks_for (f # fs) = acks_for [f] @ acks_for fs" by (simp add: acks_for_def)
  then show ?case
    using Cons.IH [of "frame_io N s line f i" "ms @ map k (filter is_message [f])"]
    by (auto simp: assms(3) frame_io_out [OF assms(1,2)])
qed (simp add: acks_for_def)

text \<open>Hence the whole call: from a connected subscriber, over a stream of valid frames.\<close>

lemma receive_deliveries:
  assumes "sends_all N" and "sub_sock s \<noteq> -1" and "list_all valid_frame fs" and "concat chunks = concat (map serialize fs) @ rest"
    and "rest = [] \<or> parse rest = Inr None"
    and "\<And>i ms f. h (s, i, ms) f = ((s, frame_io N s line f i, ms @ map k (filter is_message [f])), None)"
    and "\<And>st f. snd (h st f) = None"
  shows "\<exists>i'. receive parse h closed (s, i, ms) chunks = Some ((s, i', ms @ map k (filter is_message fs)), None) \<and>
      io_out i' = io_out i @ (if auto_ack s then acks_for fs else []) \<and> io_cerr i' = io_cerr i @ closed"
proof -
  define g where "g = (\<lambda>st f. fst (h st f))"
  have g: "h st f = (g st f, None)" for st f using assms(7) [of st f] by (simp add: g_def prod_eq_iff)
  have step: "g (s, i, ms) f = (s, frame_io N s line f i, ms @ map k (filter is_message [f]))" for i ms f
    by (simp add: g_def assms(6))
  obtain i' where i': "foldl g (s, i, ms) fs = (s, i', ms @ map k (filter is_message fs))"
      "io_out i' = io_out i @ (if auto_ack s then acks_for fs else [])" "io_cerr i' = io_cerr i"
    using delivery_fold [where g = g, OF assms(1,2) step] by blast
  from binary_client.receive_render_then [OF assms(3-5) g i'(1), of closed] i' show ?thesis
    by (intro exI [of _ "cerr closed i'"]) simp
qed

lemma log_callback_total [simp]: "snd (on_subscribed_frame N log_callback topic st f) = None"
  by (cases st) (simp only: subscribed_step snd_conv)

lemma info_callback_total [simp]: "snd (on_signed_frame N info_callback topic st f) = None"
  by (cases st) (simp only: signed_step snd_conv)

section \<open>What a publisher writes\<close>

lemma publisher_send:
  assumes "sends_all N" and "pub_sock p \<noteq> -1"
  shows "BinaryPublisher_send N reply (p, i) topic payload =
      ((p\<lparr>pub_sequence := pub_sequence p + 1\<rparr>,
        sock_send N (serialize (publish_frame topic payload (pub_sequence p + 1))) i), None)"
  using assms parse_not_Inl by (auto simp: BinaryPublisher_send_def Let_def split: option.split sum.split)

lemma signed_send:
  assumes "sends_all N" and "pub_sock p \<noteq> -1"
  shows "\<exists>e. fst (sendSigned S N reply (setSigningKey p secret kid, i) topic payload) =
      ((setSigningKey p secret kid)\<lparr>pub_sequence := pub_sequence p + 1\<rparr>,
       cerr e (sock_send N (serialize (signed_publish_frame topic payload (sign S (map byte_of_char (topic @ payload)) secret)
         kid (pub_sequence p + 1))) i))"
proof -
  have nil: "cerr [] i = i" for i by (simp add: cerr_def)
  show ?thesis
    using assms parse_not_Inl
    by (auto simp: sendSigned_def setSigningKey_def Let_def nil split: option.split sum.split intro: exI [of _ "[]"])
qed

text \<open>A sequence of calls of \<^verbatim>\<open>send\<close>, each with the reply it reads, and the frames it amounts to.\<close>

fun send_many :: "net \<Rightarrow> BinaryPublisher \<times> io \<Rightarrow> (bytes option \<times> bytes \<times> bytes) list \<Rightarrow> BinaryPublisher \<times> io" where
  "send_many N st [] = st"
| "send_many N st ((reply, topic, payload) # ms) =
     send_many N (fst (BinaryPublisher_send N reply st topic payload)) ms"

fun numbered_frames :: "uint64 \<Rightarrow> (bytes option \<times> bytes \<times> bytes) list \<Rightarrow> BinaryFrame list" where
  "numbered_frames n [] = []"
| "numbered_frames n ((reply, topic, payload) # ms) = publish_frame topic payload (n + 1) # numbered_frames (n + 1) ms"

definition sendable :: "bytes option \<times> bytes \<times> bytes \<Rightarrow> bool" where
  "sendable m \<longleftrightarrow> length (fst (snd m)) \<le> unat MAX_TOPIC_LEN \<and> length (snd (snd m)) \<le> unat MAX_PAYLOAD_LEN"

lemma send_many_out:
  assumes "sends_all N"
  shows "pub_sock p \<noteq> -1 \<Longrightarrow>
    io_out (snd (send_many N (p, i) ms)) = io_out i @ concat (map serialize (numbered_frames (pub_sequence p) ms))"
proof (induction ms arbitrary: p i)
  case (Cons m ms)
  obtain reply topic payload where "m = (reply, topic, payload)" by (cases m)
  then show ?case
    using Cons.IH [of "p\<lparr>pub_sequence := pub_sequence p + 1\<rparr>"] Cons.prems by (simp add: publisher_send [OF assms] assms)
qed simp

lemma numbered_frames_valid: "list_all sendable ms \<Longrightarrow> list_all valid_frame (numbered_frames n ms)"
  by (induction ms arbitrary: n)
    (auto simp: sendable_def valid_frame_def frame_defs command_of_byte_def is_signed_cmd_def SIGNATURE_SIZE_def)

lemma subscriber_stream_then:
  assumes "sends_all N" and "sub_sock s \<noteq> -1"
    and "list_all valid_frame fs" and "concat chunks = concat (map serialize fs) @ rest" and "rest = [] \<or> parse rest = Inr None"
  shows "\<exists>s' i'. BinarySubscriber_subscribe N log_callback (s, i, []) topic ack chunks = Some ((s', i', deliveries fs), None) \<and>
    sub_sequence s' = sub_sequence s + 1 \<and>
    io_out i' = io_out i @ serialize (subscribe_frame (subscribe_topic s topic) (sub_sequence s + 1)) @
      (if ack then acks_for fs else [])"
proof -
  let ?s = "s\<lparr>auto_ack := ack, sub_sequence := sub_sequence s + 1\<rparr>"
  let ?i = "sock_send N (serialize (subscribe_frame (subscribe_topic s topic) (sub_sequence s + 1))) i"
  have "sub_sock ?s \<noteq> -1" using assms(2) by simp
  from receive_deliveries [where h = "on_subscribed_frame N log_callback topic" and i = ?i and ms = "[]",
      OF assms(1) this assms(3-5) subscribed_step [unfolded deliveries_def]]
  obtain i' where "receive parse (on_subscribed_frame N log_callback topic) (''BinarySubscriber: connection closed'' @ newline)
        (?s, ?i, []) chunks = Some ((?s, i', deliveries fs), None)"
      "io_out i' = io_out ?i @ (if ack then acks_for fs else [])"
    by (auto simp: deliveries_def)
  with assms(1,2) show ?thesis
    by (auto simp: BinarySubscriber_subscribe_def send_subscribe_def subscribe_topic_def Let_def)
qed

lemmas subscriber_stream = subscriber_stream_then [where rest = "[]", simplified]

section \<open>Properties\<close>

text \<open>
  A connected subscriber delivers exactly the messages of the stream: however TCP cuts the frames the broker
  sent, the callback sees the topics and payloads of all message frames, signed or not, in order and each
  once; the bytes written are the \<^verbatim>\<open>SUBSCRIBE\<close> frame followed, when acknowledging, by one acknowledgement
  per message with that message's number; and the call returns when the connection ends.
\<close>

theorem subscriber_delivers:
  assumes "sends_all N" and "sub_sock s \<noteq> -1"
    and "list_all valid_frame fs" and "concat chunks = concat (map serialize fs)"
  shows "\<exists>s' i'. BinarySubscriber_subscribe N log_callback (s, i, []) topic ack chunks = Some ((s', i', deliveries fs), None) \<and>
    sub_sequence s' = sub_sequence s + 1 \<and>
    io_out i' = io_out i @ serialize (subscribe_frame (subscribe_topic s topic) (sub_sequence s + 1)) @
      (if ack then acks_for fs else [])"
  using assms by (rule subscriber_stream)

theorem subscriber_delivers_witness:
  "\<exists>s' i'. BinarySubscriber_subscribe demo_net log_callback
      (fst (BinarySubscriber_new demo_net ''127.0.0.1'' 6379 io_new), io_new, []) ''t'' True
      [take 3 (serialize (message_frame ''t'' ''x'' 4)), drop 3 (serialize (message_frame ''t'' ''x'' 4))] =
     Some ((s', i', [(''t'', ''x'')]), None)"
proof -
  let ?s = "fst (BinarySubscriber_new demo_net ''127.0.0.1'' 6379 io_new)" and ?f = "message_frame ''t'' ''x'' 4"
  have s: "sub_sock ?s \<noteq> -1"
    by (simp add: BinarySubscriber_new_def open_connection_def demo_net_def Let_def)
  have v: "list_all valid_frame [?f]" by (simp add: valid_frame_eval)
  have c: "concat [take 3 (serialize ?f), drop 3 (serialize ?f)] = concat (map serialize [?f])" by simp
  have "deliveries [?f] = [(''t'', ''x'')]" by (simp add: deliveries_def is_message_def frame_defs)
  with subscriber_delivers [OF demo_net_sends s v c] show ?thesis by metis
qed

text \<open>
  \<^verbatim>\<open>subscribeSigned\<close> delivers the same messages with their metadata: signature and key number as published
  for signed messages, zeros for the others.
\<close>

theorem signed_subscriber_delivers:
  assumes "sends_all N" and "sub_sock s \<noteq> -1"
    and "list_all valid_frame fs" and "concat chunks = concat (map serialize fs)"
  shows "\<exists>s' i'. subscribeSigned N info_callback (s, i, []) topic ack chunks =
      Some ((s', i', map message_info (filter is_message fs)), None) \<and>
    io_out i' = io_out i @ serialize (subscribe_frame (subscribe_topic s topic) (sub_sequence s + 1)) @
      (if ack then acks_for fs else [])"
proof -
  let ?s = "s\<lparr>auto_ack := ack, sub_sequence := sub_sequence s + 1\<rparr>"
  let ?i = "sock_send N (serialize (subscribe_frame (subscribe_topic s topic) (sub_sequence s + 1))) i"
  have "sub_sock ?s \<noteq> -1" using assms(2) by simp
  from receive_deliveries [where h = "on_signed_frame N info_callback topic" 
      and i = ?i and ms = "[]" and rest = "[]", OF assms(1) this assms(3) _ _ signed_step] assms(4)
  obtain i' where "receive parse (on_signed_frame N info_callback topic) (''BinarySubscriber: connection closed'' @ newline)
        (?s, ?i, []) chunks = Some ((?s, i', map message_info (filter is_message fs)), None)"
      "io_out i' = io_out ?i @ (if ack then acks_for fs else [])"
    by auto
  with assms(1,2) show ?thesis
    by (auto simp: subscribeSigned_def send_subscribe_def subscribe_topic_def Let_def)
qed

text \<open>
  A connected publisher's calls reach the other side intact: whatever replies it reads, the bytes it has
  written parse, in any chunks, to one \<^verbatim>\<open>PUBLISH\<close> frame per call with its topic and payload, numbered
  consecutively from the publisher's counter.
\<close>

theorem publisher_stream:
  assumes "sends_all N" and "pub_sock p \<noteq> -1" and "list_all sendable ms"
    and "concat chunks = io_out (snd (send_many N (p, io_new) ms))"
  shows "recv_chunks parse collect [] [] chunks = Some (numbered_frames (pub_sequence p) ms, [], None)"
  using assms send_many_out [OF assms(1,2), of io_new ms]
  by (intro binary_codec.chunks_collect numbered_frames_valid) (simp_all add: io_new_def)

theorem publisher_stream_witness:
  "recv_chunks parse collect [] []
     [io_out (snd (send_many demo_net (BinaryPublisher_new demo_net ''127.0.0.1'' 6379 io_new) [(None, ''t'', ''x''), (Some [], ''u'', ''y'')]))] =
   Some ([publish_frame ''t'' ''x'' 1, publish_frame ''u'' ''y'' 2], [], None)"
proof -
  let ?p = "\<lparr>pub_sock = 3, pub_sequence = 0, signing_enabled = False, pub_secret_key = replicate 64 0, signing_key_id = 0\<rparr>"
  let ?ms = "[(None, ''t'', ''x''), (Some [], ''u'', ''y'')]"
  have new: "fst (BinaryPublisher_new demo_net ''127.0.0.1'' 6379 io_new) = ?p"
    "io_out (snd (BinaryPublisher_new demo_net ''127.0.0.1'' 6379 io_new)) = io_out io_new"
    by (simp_all add: BinaryPublisher_new_def open_connection_def demo_net_def Let_def)
  have "io_out (snd (send_many demo_net (BinaryPublisher_new demo_net ''127.0.0.1'' 6379 io_new) ?ms)) =
      io_out (snd (send_many demo_net (?p, io_new) ?ms))"
    using send_many_out [OF demo_net_sends, of ?p] new by (metis BinaryPublisher.select_convs(1) one_neq_neg_numeral prod.collapse numeral_neq_neg_one)
  then show ?thesis
    using publisher_stream [OF demo_net_sends, of ?p ?ms "[io_out (snd (send_many demo_net (?p, io_new) ?ms))]"]
    by (simp add: sendable_def size_defs del: send_many.simps)
qed

end
