(* ===== verification/Resp_Client.thy ===== *)
theory Resp_Client
  imports Resp_Parser Net_Client
begin

text \<open>
  \<^verbatim>\<open>src/pubsub.cpp\<close>: \<^verbatim>\<open>Publisher\<close> and \<^verbatim>\<open>Subscriber\<close>, the clients of the text protocol. The lemmas show that a
  subscriber's callback sees exactly the \<^verbatim>\<open>message\<close> arrays of the stream, and what the two clients write.
\<close>

record Publisher =
  rpub_sock :: int

record Subscriber =
  rsub_sock :: int
  last_seq :: "bytes \<rightharpoonup> uint64"

definition Publisher_new :: "net \<Rightarrow> bytes \<Rightarrow> int \<Rightarrow> io \<Rightarrow> Publisher \<times> io" where
  "Publisher_new N host port i =
     (let (sock, i1) = open_connection N ''Publisher'' [] host port i in (\<lparr>rpub_sock = sock\<rparr>, i1))"

definition Publisher_delete :: "Publisher \<times> io \<Rightarrow> io" where
  "Publisher_delete st = close_connection (rpub_sock (fst st)) (snd st)"

text \<open>The reply is read into a local buffer and not looked at.\<close>

definition Publisher_send :: "net \<Rightarrow> Publisher \<times> io \<Rightarrow> bytes \<Rightarrow> bytes \<Rightarrow> Publisher \<times> io" where
  "Publisher_send N st topic payload =
     (let (p, i) = st
      in if rpub_sock p = -1 then (p, cerr (''Publisher: not connected'' @ newline) i)
         else (p, sock_send N (resp_serialize (makeArray [''PUBLISH'', topic, payload])) i))"

definition Subscriber_new :: "net \<Rightarrow> bytes \<Rightarrow> int \<Rightarrow> io \<Rightarrow> Subscriber \<times> io" where
  "Subscriber_new N host port i =
     (let (sock, i1) = open_connection N ''Subscriber''
            (''Subscriber CONNECTED successfully to '' @ host @ '':'' @ show_int port @ newline) host port i
      in (\<lparr>rsub_sock = sock, last_seq = Map.empty\<rparr>, i1))"

definition Subscriber_delete :: "Subscriber \<times> io \<Rightarrow> io" where
  "Subscriber_delete st = close_connection (rsub_sock (fst st)) (snd st)"

definition on_resp_message ::
  "('u \<Rightarrow> bytes \<Rightarrow> bytes \<Rightarrow> 'u \<times> exn option) \<Rightarrow> ((Subscriber, 'u) client, RespValue) handler" where
  "on_resp_message cb st v =
     (let (s, i, u) = st; arr = asArray v
      in if isArray v \<and> 3 \<le> length arr \<and> asString (arr ! 0) = ''message''
         then (let (u', x) = cb u (asString (arr ! 1)) (asString (arr ! 2)) in ((s, i, u'), x))
         else ((s, i, u), None))"

definition Subscriber_subscribe ::
  "net \<Rightarrow> ('u \<Rightarrow> bytes \<Rightarrow> bytes \<Rightarrow> 'u \<times> exn option) \<Rightarrow> (Subscriber, 'u) client \<Rightarrow> bytes \<Rightarrow> bytes list
    \<Rightarrow> ((Subscriber, 'u) client \<times> exn option) option" where
  "Subscriber_subscribe N cb st topic chunks =
     (let (s, i, u) = st
      in if rsub_sock s = -1 then Some ((s, cerr (''Subscriber: not connected'' @ newline) i, u), None)
         else receive resp_parse (on_resp_message cb) (''Subscriber: connection closed'' @ newline)
                (s, sock_send N (resp_serialize (makeArray [''SUBSCRIBE'', topic])) i, u) chunks)"

definition Subscriber_run :: "Subscriber \<times> io \<Rightarrow> bytes list \<Rightarrow> ((Subscriber, unit) client \<times> exn option) option" where
  "Subscriber_run st chunks =
     (let (s, i) = st
      in if rsub_sock s = -1 then Some ((s, cerr (''Subscriber: not connected'' @ newline) i, ()), None)
         else receive resp_parse (\<lambda>(s, i, u) v. ((s, cout (''Raw RESP received: '' @ resp_serialize v) i, u), None))
                (''Subscriber: connection closed'' @ newline)
                (s, cout (''Subscriber running (blocking receive loop)...'' @ newline) i, ()) chunks)"

definition Subscriber_sendAck :: "net \<Rightarrow> Subscriber \<times> io \<Rightarrow> uint64 \<Rightarrow> Subscriber \<times> io" where
  "Subscriber_sendAck N st seq =
     (let (s, i) = st
      in if rsub_sock s = -1 then (s, i)
         else (s, sock_send N (resp_serialize (makeArray [''ACK'', to_string (unat seq)])) i))"

interpretation resp_client: client_codec resp_parse resp_serialize valid_resp
  by unfold_locales

section \<open>What a subscriber sees\<close>

fun resp_message :: "RespValue \<Rightarrow> (bytes \<times> bytes) list" where
  "resp_message (RArray (k # t # p # vs)) = (if asString k = ''message'' then [(asString t, asString p)] else [])"
| "resp_message _ = []"

definition resp_log :: "(bytes \<times> bytes) list \<Rightarrow> bytes \<Rightarrow> bytes \<Rightarrow> (bytes \<times> bytes) list \<times> exn option" where
  "resp_log ms t p = (ms @ [(t, p)], None)"

lemma resp_message_step: "on_resp_message resp_log (s, i, ms) v = ((s, i, ms @ resp_message v), None)"
  by (cases v rule: resp_message.cases) (simp_all add: on_resp_message_def resp_log_def Let_def)

lemma resp_message_total: "on_resp_message resp_log st v = (fst (on_resp_message resp_log st v), None)"
  by (cases st) (simp only: resp_message_step fst_conv)

lemma resp_message_fold:
  "foldl (\<lambda>st v. fst (on_resp_message resp_log st v)) (s, i, ms) vs = (s, i, ms @ concat (map resp_message vs))"
  by (induction vs arbitrary: ms) (simp_all add: resp_message_step)

section \<open>Properties\<close>

text \<open>
  A connected text subscriber's callback sees the topic and payload of exactly the \<^verbatim>\<open>message\<close> arrays among the
  values sent, in order, however the stream is cut; everything else, the confirmations included, is passed over.
\<close>

theorem resp_subscriber_delivers:
  assumes "sends_all N" and "rsub_sock s \<noteq> -1"
    and "list_all valid_resp vs" and "concat chunks = concat (map resp_serialize vs)"
  shows "\<exists>i'. Subscriber_subscribe N resp_log (s, i, []) topic chunks = Some ((s, i', concat (map resp_message vs)), None) \<and>
    io_out i' = io_out i @ resp_serialize (makeArray [''SUBSCRIBE'', topic])"
  using resp_client.receive_render [OF assms(3,4) resp_message_total resp_message_fold] assms(1,2)
  by (auto simp: Subscriber_subscribe_def)

theorem resp_subscriber_delivers_witness:
  "\<exists>i'. Subscriber_subscribe demo_net resp_log (\<lparr>rsub_sock = 3, last_seq = Map.empty\<rparr>, io_new, []) ''t''
      [resp_serialize (makeArray [''message'', ''t'', ''x''])] =
    Some ((\<lparr>rsub_sock = 3, last_seq = Map.empty\<rparr>, i', [(''t'', ''x'')]), None)"
proof -
  have v: "list_all valid_resp [makeArray [''message'', ''t'', ''x'']]"
    by (simp add: makeArray_def MAX_BULK_LEN_def MAX_ARRAY_COUNT_def)
  from resp_subscriber_delivers [OF demo_net_sends _ v, of "\<lparr>rsub_sock = 3, last_seq = Map.empty\<rparr>"
      "[resp_serialize (makeArray [''message'', ''t'', ''x''])]" io_new "''t''"]
  show ?thesis by (auto simp: makeArray_def)
qed

end
