(* ===== verification/Delivery.thy ===== *)
theory Delivery
  imports Output_Spec Binary_Client Resp_Client
begin

text \<open>
  What the callbacks of the subscriber libraries see, when their connections receive what the broker wrote: for any
  history the messages up to the first one in the other protocol, and for histories in one protocol exactly the
  messages that match. The scenarios of \<^verbatim>\<open>examples/exactly_once_test.cpp\<close> are such histories.
\<close>

section \<open>Streams in two protocols\<close>

text \<open>What a client of one protocol can read of a stream.\<close>

fun bin_prefix :: "packet list \<Rightarrow> BinaryFrame list" where
  "bin_prefix (Bin f # ps) = f # bin_prefix ps"
| "bin_prefix _ = []"

fun txt_prefix :: "packet list \<Rightarrow> RespValue list" where
  "txt_prefix (Txt v # ps) = v # txt_prefix ps"
| "txt_prefix _ = []"

lemma prefix_stops:
  "bin_prefix (ps @ Txt v # qs) = bin_prefix ps" "txt_prefix (ps @ Bin f # qs) = txt_prefix ps"
  by (induction ps rule: bin_prefix.induct; simp) (induction ps rule: txt_prefix.induct; simp)

fun packet_ok :: "packet \<Rightarrow> bool" where
  "packet_ok (Bin f) = valid_frame f"
| "packet_ok (Txt v) = valid_resp v"

lemma prefix_valid:
  "list_all packet_ok ps \<Longrightarrow> list_all valid_frame (bin_prefix ps)" "list_all packet_ok ps \<Longrightarrow> list_all valid_resp (txt_prefix ps)"
  by (induction ps rule: bin_prefix.induct; simp) (induction ps rule: txt_prefix.induct; simp)

text \<open>Neither parser gets past the first bytes of the other protocol.\<close>

lemma parse_text: "parse (resp_serialize v @ rest) = Inr None"
proof -
  have "\<exists>c s. resp_serialize v = c # s \<and> c \<in> set ''+-:$*''" by (cases v) auto
  then obtain c s where c: "resp_serialize v = c # s" "c \<in> set ''+-:$*''" by blast
  then have "byte_of_char c \<noteq> BINARY_PROTOCOL_VERSION" by (auto simp: byte_of_char_def BINARY_PROTOCOL_VERSION_def)
  with c(1) show ?thesis by (simp add: parse_def)
qed

lemma resp_parse_binary:
  assumes "frame_version f = BINARY_PROTOCOL_VERSION"
  shows "resp_parse (serialize f @ rest) = Inr None"
proof -
  have "char_of (Suc 0) = CHR 0x01" by (simp add: char_of_def bit_Suc_0_iff)
  then have "\<exists>s. serialize f = CHR 0x01 # s"
    using assms by (simp add: serialize_split frame_header_def size_defs char_of_byte_def)
  then show ?thesis by (auto simp: resp_parse.simps)
qed

lemma stream_split:
  assumes "list_all packet_ok ps"
  shows "\<exists>rest. concat (map packet_bytes ps) = concat (map serialize (bin_prefix ps)) @ rest \<and> (rest = [] \<or> parse rest = Inr None)"
    and "\<exists>rest. concat (map packet_bytes ps) = concat (map resp_serialize (txt_prefix ps)) @ rest \<and> (rest = [] \<or> resp_parse rest = Inr None)"
proof -
  show "\<exists>rest. concat (map packet_bytes ps) = concat (map serialize (bin_prefix ps)) @ rest \<and> (rest = [] \<or> parse rest = Inr None)"
    by (induction ps rule: bin_prefix.induct) (auto simp: parse_text simp del: resp_serialize.simps)
  show "\<exists>rest. concat (map packet_bytes ps) = concat (map resp_serialize (txt_prefix ps)) @ rest \<and> (rest = [] \<or> resp_parse rest = Inr None)"
    using assms
    by (induction ps rule: txt_prefix.induct) (auto simp: valid_frame_def resp_parse_binary simp del: resp_serialize.simps)
qed

section \<open>Valid histories\<close>

text \<open>Text commands whose replies fit the parsers' limits, and whose name could be quoted in a one-line error.\<close>

definition valid_command :: "RespValue \<Rightarrow> bool" where
  "valid_command v \<longleftrightarrow> int (length (asArray v)) \<le> MAX_ARRAY_COUNT \<and>
     (\<forall>w \<in> set (asArray v). int (length (asString w)) \<le> MAX_BULK_LEN) \<and>
     (case asArray v of [] \<Rightarrow> True | c # args \<Rightarrow> CHR 0x0D \<notin> set (asString c))"

definition valid_event :: "input \<Rightarrow> bool" where
  "valid_event inp \<longleftrightarrow> quiet_event inp \<and>
     (case inp of Frame f \<Rightarrow> valid_frame f | Command v \<Rightarrow> valid_command v | _ \<Rightarrow> True)"

definition valid_history :: "(session_id \<times> input) list \<Rightarrow> bool" where
  "valid_history evs \<longleftrightarrow> (\<forall>ev \<in> set evs. valid_event (snd ev))"

lemma valid_history_simps [simp]:
  "valid_history []" "valid_history (ev # evs) \<longleftrightarrow> valid_event (snd ev) \<and> valid_history evs"
  "valid_history (xs @ ys) \<longleftrightarrow> valid_history xs \<and> valid_history ys"
  by (auto simp: valid_history_def)

lemma frame_out_ok:
  assumes "valid_frame f"
  shows "list_all packet_ok (frame_out J p n i f r)"
proof -
  have len: "length (frame_topic f) \<le> unat MAX_TOPIC_LEN" "length (frame_payload f) \<le> unat MAX_PAYLOAD_LEN"
    "length (frame_signature f) = SIGNATURE_SIZE"
    using assms by (simp_all add: valid_frame_def)
  have "valid_frame (ack_frame q)" "valid_frame pong_frame" "valid_frame (error_frame ''Unknown command'')"
    "valid_frame (error_frame ''Invalid signature or unknown key'')" for q by (simp_all add: valid_frame_eval)
  moreover have "valid_frame (error_frame (secure_topic_error (frame_topic f)))"
    "valid_frame (error_frame (''Key not authorized for topic '' @ [CHR 0x27] @ frame_topic f @ [CHR 0x27]))"
    using len by (simp_all add: valid_frame_eval secure_topic_error_def)
  moreover have "valid_frame (message_frame (frame_topic f) (frame_payload f) q)"
    "valid_frame (signed_message_frame (frame_topic f) (frame_payload f) (frame_signature f) k q)" for q k
    using len by (simp_all add: valid_frame_eval)
  ultimately show ?thesis
    by (cases "frame_command f"; cases "J f") (auto simp: frame_out_def list_all_iff Let_def)
qed

lemma toupper_CR: "toupper c = CHR 0x0D \<longleftrightarrow> c = CHR 0x0D"
proof (cases "CHR ''a'' \<le> c \<and> c \<le> CHR ''z''")
  case True
  then have "97 \<le> (of_char c :: nat)" "(of_char c :: nat) \<le> 122" by (simp_all add: less_eq_char_def)
  then have "char_of ((of_char c :: nat) - 32) \<noteq> CHR 0x0D" by (simp add: char_of_eq_iff take_bit_eq_mod)
  moreover have "c \<noteq> CHR 0x0D" using True by (auto simp: less_eq_char_def)
  ultimately show ?thesis using True by (simp add: toupper_def)
qed (auto simp: toupper_def)

lemma confirmations_valid:
  assumes "\<forall>w \<in> set vs. int (length (asString w)) \<le> MAX_BULK_LEN" and "0 \<le> k" and "k + int (length vs) \<le> MAX_ARRAY_COUNT + 1"
  shows "list_all valid_resp (confirmations k vs)"
  using assms by (induction k vs rule: confirmations.induct) (auto simp: MAX_ARRAY_COUNT_def MAX_BULK_LEN_def)

lemma command_out_ok:
  assumes "valid_command v"
  shows "list_all packet_ok (command_out p i v r)"
proof -
  have short: "int (length (asString w)) \<le> MAX_BULK_LEN" if "w \<in> set (asArray v)" for w
    using assms that by (simp add: valid_command_def)
  have "valid_resp (text_message t x)" if "text_publish v = Some (t, x)" for t x
    using that short by (auto simp: text_publish_def text_message_def MAX_ARRAY_COUNT_def MAX_BULK_LEN_def split: list.splits if_splits)
  moreover have "list_all valid_resp (command_reply v)"
  proof (cases "isArray v \<and> asArray v \<noteq> []")
    case True
    then obtain c args where v: "isArray v" "asArray v = c # args" by (auto simp: neq_Nil_conv)
    define cmd where "cmd = map toupper (asString c)"
    have args: "\<forall>w \<in> set args. int (length (asString w)) \<le> MAX_BULK_LEN" "int (length args) < MAX_ARRAY_COUNT"
      using assms v(2) by (auto simp: valid_command_def)
    have "CHR 0x0D \<notin> set (asString c)" using assms v(2) by (simp add: valid_command_def)
    then have "CHR 0x0D \<notin> set cmd" by (simp add: cmd_def image_iff toupper_CR eq_commute [of "CHR 0x0D"])
    then have "crlf_in (''ERR unknown command '' @ [CHR 0x27] @ cmd @ [CHR 0x27]) = None" by (intro crlf_in_None) auto
    moreover have "list_all valid_resp (confirmations 1 args)" using args by (intro confirmations_valid) auto
    ultimately show ?thesis
      unfolding command_reply_def Let_def v(2) list.case cmd_def [symmetric] using v(1) args
      by (auto simp: list_all_iff MAX_ARRAY_COUNT_def MAX_BULK_LEN_def split: list.splits)
  qed (auto simp: command_reply_def)
  ultimately show ?thesis by (auto simp: command_out_def list_all_iff split: option.split)
qed

lemma packets_ok: "valid_history evs \<Longrightarrow> list_all packet_ok (packets_for J r p n evs)"
proof (induction evs arbitrary: p n)
  case (Cons ev evs)
  have "list_all packet_ok (pubsub_out J p n ev r)"
    using Cons.prems frame_out_ok command_out_ok
    by (auto simp: pubsub_out_def valid_event_def split: prod.splits input.splits)
  with Cons show ?case by simp
qed simp

section \<open>The callbacks of the subscribers\<close>

text \<open>What the callback of a subscriber has seen when its connection received what was written to \<open>r\<close>.\<close>

definition callback_log ::
  "net \<Rightarrow> ('e, 't, 'r) ambient \<Rightarrow> 'e \<Rightarrow> TrustedKeyStore \<Rightarrow> (session_id \<times> input) list \<Rightarrow> BinarySubscriber \<Rightarrow> session_id \<Rightarrow> bytes \<Rightarrow> (bytes \<times> bytes) list" where
  "callback_log N A e keys evs s r topic =
     (case BinarySubscriber_subscribe N log_callback (s, io_new, []) topic True
        [wire r (sent (sys_broker (sv_sys (server_run A (server_start (amb_lmdb A) e keys) evs))))] of
        Some ((_, _, log), _) \<Rightarrow> log
      | None \<Rightarrow> [])"

definition text_log ::
  "net \<Rightarrow> ('e, 't, 'r) ambient \<Rightarrow> 'e \<Rightarrow> TrustedKeyStore \<Rightarrow> (session_id \<times> input) list \<Rightarrow> Subscriber \<Rightarrow> session_id \<Rightarrow> bytes \<Rightarrow> (bytes \<times> bytes) list" where
  "text_log N A e keys evs s r topic =
     (case Subscriber_subscribe N resp_log (s, io_new, []) topic
        [wire r (sent (sys_broker (sv_sys (server_run A (server_start (amb_lmdb A) e keys) evs))))] of
        Some ((_, _, log), _) \<Rightarrow> log
      | None \<Rightarrow> [])"

lemma logs_eq:
  assumes "lmdb_engine (amb_lmdb A) eview tview" and "eview e = Map.empty" and "valid_history evs" and "sends_all N"
    and "ps = packets_for (signed_verdict (amb_sodium A) keys) r pubsub_init (\<lambda>_. 0) evs"
  shows "sub_sock s \<noteq> -1 \<Longrightarrow> callback_log N A e keys evs s r topic = deliveries (bin_prefix ps)"
    and "rsub_sock u \<noteq> -1 \<Longrightarrow> text_log N A e keys evs u r topic = concat (map resp_message (txt_prefix ps))"
proof -
  let ?w = "wire r (sent (sys_broker (sv_sys (server_run A (server_start (amb_lmdb A) e keys) evs))))"
  have ok: "list_all packet_ok ps" unfolding assms(5) by (rule packets_ok [OF assms(3)])
  have w: "?w = concat (map packet_bytes ps)"
    using client_stream [OF assms(1,2), of evs r keys] assms(3,5) by (simp add: valid_history_def valid_event_def)
  show "callback_log N A e keys evs s r topic = deliveries (bin_prefix ps)" if sock: "sub_sock s \<noteq> -1"
  proof -
    obtain rest where "concat [?w] = concat (map serialize (bin_prefix ps)) @ rest" "rest = [] \<or> parse rest = Inr None"
      using stream_split(1) [OF ok] w by auto
    from subscriber_stream_then [OF assms(4) sock prefix_valid(1) [OF ok] this, of io_new topic True] show ?thesis
      by (auto simp: callback_log_def)
  qed
  show "text_log N A e keys evs u r topic = concat (map resp_message (txt_prefix ps))" if "rsub_sock u \<noteq> -1"
  proof -
    obtain rest where "concat [?w] = concat (map resp_serialize (txt_prefix ps)) @ rest" "rest = [] \<or> resp_parse rest = Inr None"
      using stream_split(2) [OF ok] w by auto
    from resp_client.receive_render_then [OF prefix_valid(2) [OF ok] this resp_message_total resp_message_fold] that show ?thesis
      by (auto simp: text_log_def Subscriber_subscribe_def)
  qed
qed

section \<open>Histories in one protocol\<close>

text \<open>The message that an event publishes, and the messages that reach \<open>r\<close> over a history.\<close>

definition event_message :: "(BinaryFrame \<Rightarrow> verdict) \<Rightarrow> input \<Rightarrow> (bytes \<times> bytes) option" where
  "event_message J inp =
     (case inp of
        Frame f \<Rightarrow> if numbers J f then Some (frame_topic f, frame_payload f) else None
      | Command v \<Rightarrow> map_option (\<lambda>(t, x). (asString t, asString x)) (text_publish v)
      | _ \<Rightarrow> None)"

definition event_delivers :: "(BinaryFrame \<Rightarrow> verdict) \<Rightarrow> session_id \<Rightarrow> pubsub \<Rightarrow> session_id \<times> input \<Rightarrow> (bytes \<times> bytes) list" where
  "event_delivers J r p ev =
     (case event_message J (snd ev) of
        Some (t, x) \<Rightarrow> if fst ev \<in> live p then replicate (matches p r t) (t, x) else []
      | None \<Rightarrow> [])"

fun delivered :: "(BinaryFrame \<Rightarrow> verdict) \<Rightarrow> session_id \<Rightarrow> pubsub \<Rightarrow> (session_id \<times> input) list \<Rightarrow> (bytes \<times> bytes) list" where
  "delivered J r p [] = []"
| "delivered J r p (ev # evs) = event_delivers J r p ev @ delivered J r (pubsub_step p ev) evs"

definition binary_only :: "(session_id \<times> input) list \<Rightarrow> bool" where
  "binary_only evs \<longleftrightarrow> list_all (\<lambda>ev. case snd ev of Command _ \<Rightarrow> False | _ \<Rightarrow> True) evs"

definition text_only :: "(session_id \<times> input) list \<Rightarrow> bool" where
  "text_only evs \<longleftrightarrow> list_all (\<lambda>ev. case snd ev of Frame _ \<Rightarrow> False | _ \<Rightarrow> True) evs"

lemma deliveries_simps [simp]: "deliveries [] = []" "deliveries (fs @ gs) = deliveries fs @ deliveries gs"
  by (simp_all add: deliveries_def)

lemma confirmations_silent: "concat (map resp_message (confirmations k vs)) = []"
  by (induction k vs rule: confirmations.induct) auto

lemma replies_silent: "concat (map resp_message (command_reply v)) = []"
proof (cases "asArray v")
  case (Cons c args)
  define cmd where "cmd = map toupper (asString c)"
  show ?thesis
    unfolding command_reply_def Let_def Cons list.case cmd_def [symmetric]
    using confirmations_silent [of 1 args] by (auto simp: comp_def split: list.split)
qed (auto simp: command_reply_def)

lemma frame_out_delivers:
  "\<exists>fs. frame_out J p n i f r = map Bin fs \<and>
     deliveries fs = (if numbers J f then replicate (matches p r (frame_topic f)) (frame_topic f, frame_payload f) else [])"
proof -
  have *: "frame_out J p n i f r = map Bin [g. Bin g \<leftarrow> frame_out J p n i f r]"
    by (cases "frame_command f"; cases "J f") (auto simp: frame_out_def Let_def)
  show ?thesis
    by (rule exI, rule conjI, rule *)
      (cases "frame_command f"; cases "J f"; auto simp: frame_out_def numbers_def deliveries_def is_message_def frame_defs Let_def)
qed

lemma binary_delivers:
  "binary_only evs \<Longrightarrow> \<exists>fs. packets_for J r p n evs = map Bin fs \<and> deliveries fs = delivered J r p evs"
proof (induction evs arbitrary: p n)
  case (Cons ev evs)
  obtain fs where fs: "packets_for J r (pubsub_step p ev) (pubsub_count J p n ev) evs = map Bin fs"
    "deliveries fs = delivered J r (pubsub_step p ev) evs"
    using Cons by (fastforce simp: binary_only_def)
  obtain i inp where ev: "ev = (i, inp)" by fastforce
  have "\<exists>gs. pubsub_out J p n ev r = map Bin gs \<and> deliveries gs = event_delivers J r p ev"
  proof (cases inp)
    case (Frame f)
    show ?thesis
      using frame_out_delivers [of J p "n i + 1" i f r]
      by (auto simp: ev Frame pubsub_out_def event_delivers_def event_message_def)
  qed (use Cons.prems in \<open>auto simp: ev binary_only_def pubsub_out_def event_delivers_def event_message_def\<close>)
  then obtain gs where "pubsub_out J p n ev r = map Bin gs" "deliveries gs = event_delivers J r p ev" by blast
  with fs show ?case by (intro exI [of _ "gs @ fs"]) simp
qed simp

lemma text_delivers:
  "text_only evs \<Longrightarrow> \<exists>vs. packets_for J r p n evs = map Txt vs \<and> concat (map resp_message vs) = delivered J r p evs"
proof (induction evs arbitrary: p n)
  case (Cons ev evs)
  obtain vs where vs: "packets_for J r (pubsub_step p ev) (pubsub_count J p n ev) evs = map Txt vs"
    "concat (map resp_message vs) = delivered J r (pubsub_step p ev) evs"
    using Cons by (fastforce simp: text_only_def)
  obtain i inp where ev: "ev = (i, inp)" by fastforce
  have "\<exists>ws. pubsub_out J p n ev r = map Txt ws \<and> concat (map resp_message ws) = event_delivers J r p ev"
  proof (cases inp)
    case (Command v)
    let ?ms = "case text_publish v of None \<Rightarrow> [] | Some (t, x) \<Rightarrow> replicate (matches p r (asString t)) (text_message t x)"
    let ?ws = "if i \<in> live p then ?ms @ (if r = i then command_reply v else []) else []"
    have "pubsub_out J p n ev r = map Txt ?ws"
      by (auto simp: ev Command pubsub_out_def command_out_def split: option.split)
    moreover have "concat (map resp_message ?ws) = event_delivers J r p ev"
      using replies_silent [of v]
      by (auto simp: ev Command event_delivers_def event_message_def text_message_def concat_replicate_single split: option.split)
    ultimately show ?thesis by blast
  qed (use Cons.prems in \<open>auto simp: ev text_only_def pubsub_out_def event_delivers_def event_message_def\<close>)
  then obtain ws where "pubsub_out J p n ev r = map Txt ws" "concat (map resp_message ws) = event_delivers J r p ev" by blast
  with vs show ?case by (intro exI [of _ "ws @ vs"]) simp
qed simp

lemma prefix_map [simp]: "bin_prefix (map Bin fs) = fs" "txt_prefix (map Txt vs) = vs"
  by (induction fs) (simp_all, induction vs, simp_all)

lemma logs_delivered:
  assumes "lmdb_engine (amb_lmdb A) eview tview" and "eview e = Map.empty" and "valid_history evs" and "sends_all N"
  shows "binary_only evs \<Longrightarrow> sub_sock s \<noteq> -1 \<Longrightarrow>
      callback_log N A e keys evs s r topic = delivered (signed_verdict (amb_sodium A) keys) r pubsub_init evs"
    and "text_only evs \<Longrightarrow> rsub_sock u \<noteq> -1 \<Longrightarrow>
      text_log N A e keys evs u r topic = delivered (signed_verdict (amb_sodium A) keys) r pubsub_init evs"
  using logs_eq [OF assms refl] binary_delivers [of evs] text_delivers [of evs] by (metis prefix_map)+

section \<open>Building histories\<close>

text \<open>The frames of a binary publisher, and the commands of a text one, that send the messages \<open>ms\<close> one after the other.\<close>

fun published :: "session_id \<Rightarrow> uint64 \<Rightarrow> (bytes \<times> bytes) list \<Rightarrow> (session_id \<times> input) list" where
  "published i q [] = []"
| "published i q ((t, x) # ms) = (i, Frame (publish_frame t x (q + 1))) # published i (q + 1) ms"

definition text_published :: "session_id \<Rightarrow> (bytes \<times> bytes) list \<Rightarrow> (session_id \<times> input) list" where
  "text_published i ms = map (\<lambda>(t, x). (i, Command (makeArray [''PUBLISH'', t, x]))) ms"

lemma text_publish_array: "text_publish (makeArray [''PUBLISH'', t, x]) = Some (BulkString t, BulkString x)"
  by (simp add: text_publish_def makeArray_def toupper_def)

lemma pubsub_step_publish:
  "pubsub_step p (i, Frame (publish_frame t x q)) = p" "pubsub_step p (i, Command (makeArray [''PUBLISH'', t, x])) = p"
  by (simp_all add: pubsub_step_def pubsub_frame_def pubsub_command_def makeArray_def frame_defs toupper_def Let_def)

lemma event_delivers_publish:
  "\<not> starts_with t ''secure/'' \<Longrightarrow> i \<in> live p \<Longrightarrow>
     event_delivers J r p (i, Frame (publish_frame t x q)) = replicate (matches p r t) (t, x)"
  "i \<in> live p \<Longrightarrow> event_delivers J r p (i, Command (makeArray [''PUBLISH'', t, x])) = replicate (matches p r t) (t, x)"
  by (simp_all add: event_delivers_def event_message_def numbers_def text_publish_array) (simp add: frame_defs)

lemma delivered_published:
  assumes "i \<in> live p"
  shows "\<forall>(t, x) \<in> set ms. \<not> starts_with t ''secure/'' \<Longrightarrow> delivered J r p (published i q ms @ evs) =
      concat (map (\<lambda>(t, x). replicate (matches p r t) (t, x)) ms) @ delivered J r p evs"
    and "delivered J r p (text_published i ms @ evs) =
      concat (map (\<lambda>(t, x). replicate (matches p r t) (t, x)) ms) @ delivered J r p evs"
proof -
  show "delivered J r p (published i q ms @ evs) = concat (map (\<lambda>(t, x). replicate (matches p r t) (t, x)) ms) @ delivered J r p evs"
    if "\<forall>(t, x) \<in> set ms. \<not> starts_with t ''secure/''"
    using that assms by (induction i q ms rule: published.induct) (auto simp: pubsub_step_publish event_delivers_publish)
  show "delivered J r p (text_published i ms @ evs) = concat (map (\<lambda>(t, x). replicate (matches p r t) (t, x)) ms) @ delivered J r p evs"
    using assms by (induction ms) (auto simp: text_published_def pubsub_step_publish event_delivers_publish)
qed

definition sendable_as_text :: "bytes \<times> bytes \<Rightarrow> bool" where
  "sendable_as_text m \<longleftrightarrow> int (length (fst m)) \<le> MAX_BULK_LEN \<and> int (length (snd m)) \<le> MAX_BULK_LEN \<and>
     CHR 0x00 \<notin> set (fst m)"

lemma published_valid:
  "\<forall>(t, x) \<in> set ms. length t \<le> unat MAX_TOPIC_LEN \<and> length x \<le> unat MAX_PAYLOAD_LEN \<and> CHR 0x00 \<notin> set t \<Longrightarrow>
     valid_history (published i q ms)"
  "list_all sendable_as_text ms \<Longrightarrow> valid_history (text_published i ms)"
proof -
  show "\<forall>(t, x) \<in> set ms. length t \<le> unat MAX_TOPIC_LEN \<and> length x \<le> unat MAX_PAYLOAD_LEN \<and> CHR 0x00 \<notin> set t \<Longrightarrow>
      valid_history (published i q ms)"
    by (induction i q ms rule: published.induct)
      (auto simp: valid_event_def quiet_event_def nul_free_topics_def valid_frame_eval)
  show "list_all sendable_as_text ms \<Longrightarrow> valid_history (text_published i ms)"
    by (auto simp: valid_history_def text_published_def valid_event_def quiet_event_def nul_free_topics_def valid_command_def
        sendable_as_text_def makeArray_def list_all_iff MAX_ARRAY_COUNT_def MAX_BULK_LEN_def)
qed

text \<open>A client that connects and subscribes: binary with a client id, or text.\<close>

definition client_subscribe :: "session_id \<Rightarrow> bytes \<Rightarrow> bytes \<Rightarrow> (session_id \<times> input) list" where
  "client_subscribe r client topic = [(r, Connect 0), (r, Frame (subscribe_frame (client @ [CHR 0x00] @ topic) 1))]"

definition text_subscribe :: "session_id \<Rightarrow> bytes \<Rightarrow> (session_id \<times> input) list" where
  "text_subscribe r topic = [(r, Connect 0), (r, Command (makeArray [''SUBSCRIBE'', topic]))]"

lemma subscribe_valid:
  "length c + length t < 200 \<Longrightarrow> quiet_topic (c @ t) \<Longrightarrow> valid_history (client_subscribe r c t)"
  "int (length t) \<le> MAX_BULK_LEN \<Longrightarrow> quiet_topic t \<Longrightarrow> valid_history (text_subscribe r t)"
  by (auto simp: client_subscribe_def text_subscribe_def valid_event_def quiet_event_def quiet_topic_def nul_free_topics_def
      valid_frame_eval valid_command_def makeArray_def MAX_ARRAY_COUNT_def MAX_BULK_LEN_def)

lemma connect_valid [simp]: "valid_event (Connect now)"
  by (simp add: valid_event_def quiet_event_def nul_free_topics_def)

lemma protocol_append [simp]:
  "binary_only (xs @ ys) \<longleftrightarrow> binary_only xs \<and> binary_only ys" "text_only (xs @ ys) \<longleftrightarrow> text_only xs \<and> text_only ys"
  by (simp_all add: binary_only_def text_only_def)

lemma protocol_simps [simp]:
  "binary_only []" "binary_only ((i, Connect now) # ys) = binary_only ys"
  "binary_only (client_subscribe r c t)"
  "text_only []" "text_only ((i, Connect now) # ys) = text_only ys"
  "text_only (text_published i ms)" "text_only (text_subscribe r t)"
  by (simp_all add: binary_only_def text_only_def client_subscribe_def text_subscribe_def text_published_def list.pred_map comp_def split_beta list.pred_True)

lemma published_binary [simp]: "binary_only (published i q ms)"
  by (induction i q ms rule: published.induct) (simp_all add: binary_only_def)

text \<open>The state that such first events lead to.\<close>

definition joined :: "(session_id \<times> bytes) list \<Rightarrow> session_id list \<Rightarrow> pubsub" where
  "joined ss cs = \<lparr>live = set (map fst ss) \<union> set cs, subs = set ss, down = False\<rparr>"

lemma pubsub_init_joined: "pubsub_init = joined [] []"
  by (simp add: pubsub_init_def joined_def)

lemma subscribe_target_client [simp]: "CHR 0x00 \<notin> set c \<Longrightarrow> subscribe_target (c @ CHR 0x00 # t) = t"
  by (simp add: subscribe_target_def str_find_mid)

lemma live_joined: "live (joined ss cs) = set (map fst ss) \<union> set cs"
  by (simp add: joined_def)

lemma joined_room: "length ss + length cs < MAX_CONNECTIONS \<Longrightarrow> card (set (map fst ss) \<union> set cs) < MAX_CONNECTIONS"
  using card_length [of "map fst ss @ cs"] by simp

lemma delivered_connect:
  assumes "length ss + length cs < MAX_CONNECTIONS" and "i \<notin> set (map fst ss) \<union> set cs"
  shows "delivered J r (joined ss cs) ((i, Connect now) # evs) = delivered J r (joined ss (i # cs)) evs"
proof -
  have "pubsub_step (joined ss cs) (i, Connect now) = joined ss (i # cs)"
    using assms joined_room [OF assms(1)] by (simp add: pubsub_step_def joined_def)
  then show ?thesis by (simp add: event_delivers_def event_message_def)
qed

lemma delivered_subscribe:
  assumes "length ss + length cs < MAX_CONNECTIONS" and "i \<notin> set (map fst ss) \<union> set cs"
  shows "CHR 0x00 \<notin> set c \<Longrightarrow>
      delivered J r (joined ss cs) (client_subscribe i c t @ evs) = delivered J r (joined ((i, t) # ss) cs) evs"
    and "delivered J r (joined ss cs) (text_subscribe i t @ evs) = delivered J r (joined ((i, t) # ss) cs) evs"
proof -
  show "delivered J r (joined ss cs) (client_subscribe i c t @ evs) = delivered J r (joined ((i, t) # ss) cs) evs"
    if "CHR 0x00 \<notin> set c"
  proof -
    let ?f = "subscribe_frame (c @ [CHR 0x00] @ t) 1"
    have "pubsub_step (joined ss (i # cs)) (i, Frame ?f) = joined ((i, t) # ss) cs"
      using that by (auto simp: pubsub_step_def pubsub_frame_def joined_def frame_defs)
    then show ?thesis
      using delivered_connect [OF assms, of J r 0 "(i, Frame ?f) # evs"]
      by (simp add: client_subscribe_def event_delivers_def event_message_def numbers_def) (simp add: frame_defs)
  qed
  show "delivered J r (joined ss cs) (text_subscribe i t @ evs) = delivered J r (joined ((i, t) # ss) cs) evs"
  proof -
    let ?v = "makeArray [''SUBSCRIBE'', t]"
    have "pubsub_step (joined ss (i # cs)) (i, Command ?v) = joined ((i, t) # ss) cs"
      by (auto simp: pubsub_step_def pubsub_command_def joined_def makeArray_def toupper_def Let_def)
    then show ?thesis
      using delivered_connect [OF assms, of J r 0 "(i, Command ?v) # evs"]
      by (simp add: text_subscribe_def event_delivers_def event_message_def text_publish_def makeArray_def)
  qed
qed

section \<open>The delivery tests\<close>

text \<open>
  The scenarios of \<^verbatim>\<open>examples/exactly_once_test.cpp\<close>, each on a fresh broker, in the order that their waiting times
  intend. Connection 1 (in the third test also 3) is the subscriber, connection 2 the publisher.
\<close>

definition numbered :: "bytes \<Rightarrow> bytes \<Rightarrow> nat \<Rightarrow> (bytes \<times> bytes) list" where
  "numbered topic text n = map (\<lambda>i. (topic, text @ to_string i)) [0..<n]"

definition test1_basic_ack_flow :: "(session_id \<times> input) list" where
  "test1_basic_ack_flow =
     client_subscribe 1 ''test-client-1'' ''test/ack'' @ [(2, Connect 0)] @ published 2 0 (numbered ''test/ack'' ''Message '' 10)"

text \<open>Up to the first connection, which waits for 25 messages.\<close>

definition test2_no_duplicates_on_reconnect :: "(session_id \<times> input) list" where
  "test2_no_duplicates_on_reconnect =
     [(2, Connect 0)] @ published 2 0 (numbered ''test/reconnect'' ''Msg-'' 50) @ client_subscribe 1 ''test-client-2'' ''test/reconnect''"

definition test3_multiple_clients :: "(session_id \<times> input) list" where
  "test3_multiple_clients =
     client_subscribe 1 ''client-A'' ''test/multi'' @ client_subscribe 3 ''client-B'' ''test/multi'' @ [(2, Connect 0)] @
     published 2 0 (numbered ''test/multi'' ''Multi-'' 20)"

definition test4_sequential_ack_tracking :: "(session_id \<times> input) list" where
  "test4_sequential_ack_tracking =
     [(2, Connect 0)] @ published 2 0 (numbered ''test/sequential'' ''Seq-'' 100) @ client_subscribe 1 ''test-client-seq'' ''test/sequential''"

definition test5_wildcard_with_ack :: "(session_id \<times> input) list" where
  "test5_wildcard_with_ack =
     client_subscribe 1 ''test-client-wildcard'' ''#'' @ [(2, Connect 0)] @
     published 2 0 [(''sensors/temp'', ''25.5''), (''sensors/humidity'', ''60%''), (''alerts/critical'', ''High temp!''), (''status/ok'', ''All good'')]"

text \<open>
  What each test prints from the number of messages that its callbacks have counted. The second test first waits until
  25 have come, which is \<open>None\<close> while they have not.
\<close>

definition PASSED :: bytes where "PASSED = [CHR 0xE2, CHR 0x9C, CHR 0x85] @ '' PASSED: ''"
definition FAILED :: bytes where "FAILED = [CHR 0xE2, CHR 0x9D, CHR 0x8C] @ '' FAILED''"

definition test1_result :: "nat \<Rightarrow> bytes" where
  "test1_result received_count =
     ''Test 1 Result: Received '' @ to_string received_count @ '' messages (expected 10)'' @ newline @
     (if received_count = 10 then PASSED @ ''All messages received'' @ newline
      else FAILED @ '': Expected 10, got '' @ to_string received_count @ newline)"

definition test2_result :: "nat \<Rightarrow> nat \<Rightarrow> bytes option" where
  "test2_result count count2 =
     (if count < 25 then None
      else Some (''Test 2 Result: Second connection received '' @ to_string count2 @ '' messages (expected 25)'' @ newline @
        (if count2 = 25 then PASSED @ ''No duplicates, received exactly remaining 25'' @ newline
         else FAILED @ '': Expected 25, got '' @ to_string count2 @ '' (duplicates!)'' @ newline)))"

definition test3_result :: "nat \<Rightarrow> nat \<Rightarrow> bytes" where
  "test3_result count_A count_B =
     ''Test 3 Result:'' @ newline @ ''  Client A received: '' @ to_string count_A @ '' (expected 20)'' @ newline @
     ''  Client B received: '' @ to_string count_B @ '' (expected 20)'' @ newline @
     (if count_A = 20 \<and> count_B = 20 then PASSED @ ''Both clients received all messages'' @ newline else FAILED @ newline)"

definition test4_result :: "nat \<Rightarrow> bytes" where
  "test4_result count =
     ''Test 4 Result: Received '' @ to_string count @ '' messages (expected 100)'' @ newline @
     (if count = 100 then PASSED @ ''All messages delivered and ACK'' @ [CHR 0x27] @ ''d'' @ newline
      else FAILED @ '': Expected 100, got '' @ to_string count @ newline)"

definition test5_result :: "nat \<Rightarrow> bytes" where
  "test5_result count =
     ''Test 5 Result: Received '' @ to_string count @ '' messages (expected 4)'' @ newline @
     (if count = 4 then PASSED @ ''Wildcard subscription works with ACK'' @ newline
      else FAILED @ '': Expected 4, got '' @ to_string count @ newline)"

text \<open>The tests in order: a test that waits keeps the later ones from running.\<close>

definition exactly_once_main :: "nat \<Rightarrow> nat \<times> nat \<Rightarrow> nat \<times> nat \<Rightarrow> nat \<Rightarrow> nat \<Rightarrow> bytes option" where
  "exactly_once_main n1 n2 n3 n4 n5 =
     (case test2_result (fst n2) (snd n2) of
        None \<Rightarrow> None
      | Some out2 \<Rightarrow> Some (test1_result n1 @ out2 @ test3_result (fst n3) (snd n3) @ test4_result n4 @ test5_result n5))"

lemma published_numbered_valid:
  assumes "n \<le> 1000" and "length topic \<le> 200" and "length text \<le> 200" and "CHR 0x00 \<notin> set topic"
  shows "valid_history (published i q (numbered topic text n))"
proof (rule published_valid)
  have "length (text @ to_string k) \<le> unat MAX_PAYLOAD_LEN" if "k < n" for k
    using that assms(1,3) to_string_len_le [of k 2] by (simp add: size_defs)
  then show "\<forall>(t, x) \<in> set (numbered topic text n). length t \<le> unat MAX_TOPIC_LEN \<and> length x \<le> unat MAX_PAYLOAD_LEN \<and> CHR 0x00 \<notin> set t"
    using assms(2,4) by (auto simp: numbered_def size_defs)
qed

lemma tests_valid:
  "valid_history test1_basic_ack_flow" "valid_history test2_no_duplicates_on_reconnect" "valid_history test3_multiple_clients"
  "valid_history test4_sequential_ack_tracking" "valid_history test5_wildcard_with_ack"
proof -
  note ok = subscribe_valid quiet_topic_def size_defs
  show "valid_history test1_basic_ack_flow" "valid_history test2_no_duplicates_on_reconnect" "valid_history test3_multiple_clients"
    "valid_history test4_sequential_ack_tracking"
    by (simp_all add: test1_basic_ack_flow_def test2_no_duplicates_on_reconnect_def test3_multiple_clients_def
        test4_sequential_ack_tracking_def ok published_numbered_valid)
  show "valid_history test5_wildcard_with_ack"
    by (simp add: test5_wildcard_with_ack_def ok published_valid(1) del: published.simps)
qed

text \<open>What each subscriber receives.\<close>

lemma delivered_numbered:
  assumes "i \<in> set (map fst ss) \<union> set cs" and "\<not> starts_with topic ''secure/''"
  shows "length (delivered J r (joined ss cs) (published i q (numbered topic text k) @ evs)) =
    k * matches (joined ss cs) r topic + length (delivered J r (joined ss cs) evs)"
proof -
  have "\<forall>(t, x) \<in> set (numbered topic text k). \<not> starts_with t ''secure/''" using assms(2) by (auto simp: numbered_def)
  moreover have "length (concat (map (\<lambda>(t, x). replicate (matches p r t) (t, x)) (numbered topic text k))) = k * matches p r topic" for p
    by (induction k) (simp_all add: numbered_def)
  ultimately show ?thesis using delivered_published(1) [of i "joined ss cs"] assms(1) by (simp add: live_joined)
qed

lemmas delivery_simps =
  delivered_connect delivered_subscribe delivered_numbered delivered_published live_joined MAX_CONNECTIONS_def starts_with_def
  delivered_numbered [where evs = "[]", simplified] delivered_subscribe [where evs = "[]", simplified]
  delivered_published [where evs = "[]", simplified]

lemma tests_count:
  "length (delivered J 1 pubsub_init test1_basic_ack_flow) = 10"
  "length (delivered J 1 pubsub_init test2_no_duplicates_on_reconnect) = 0"
  "r \<in> {1, 3} \<Longrightarrow> length (delivered J r pubsub_init test3_multiple_clients) = 20"
  "length (delivered J 1 pubsub_init test4_sequential_ack_tracking) = 0"
  "length (delivered J 1 pubsub_init test5_wildcard_with_ack) = 4"
proof -
  show "length (delivered J 1 pubsub_init test1_basic_ack_flow) = 10"
    unfolding test1_basic_ack_flow_def pubsub_init_joined
    by (simp add: delivery_simps del: delivered.simps(2)) (simp add: matches_def joined_def)
  show "length (delivered J 1 pubsub_init test2_no_duplicates_on_reconnect) = 0"
    unfolding test2_no_duplicates_on_reconnect_def pubsub_init_joined
    by (simp add: delivery_simps del: delivered.simps(2)) (simp add: matches_def joined_def)
  show "r \<in> {1, 3} \<Longrightarrow> length (delivered J r pubsub_init test3_multiple_clients) = 20"
    unfolding test3_multiple_clients_def pubsub_init_joined
    by (simp add: delivery_simps del: delivered.simps(2)) (auto simp: matches_def joined_def)
  show "length (delivered J 1 pubsub_init test4_sequential_ack_tracking) = 0"
    unfolding test4_sequential_ack_tracking_def pubsub_init_joined
    by (simp add: delivery_simps del: delivered.simps(2)) (simp add: matches_def joined_def)
  show "length (delivered J 1 pubsub_init test5_wildcard_with_ack) = 4"
    unfolding test5_wildcard_with_ack_def pubsub_init_joined
    by (simp add: delivery_simps del: delivered.simps(2) published.simps) (simp add: matches_def joined_def)
qed

text \<open>The acknowledgements that the subscribers send in between change nothing of what is delivered.\<close>

definition is_ack :: "input \<Rightarrow> bool" where
  "is_ack inp = (case inp of Frame f \<Rightarrow> frame_command f = CMD_ACK | _ \<Rightarrow> False)"

definition without_acks :: "(session_id \<times> input) list \<Rightarrow> (session_id \<times> input) list" where
  "without_acks evs = filter (\<lambda>ev. \<not> is_ack (snd ev)) evs"

lemma delivered_without_acks: "delivered J r p (without_acks evs) = delivered J r p evs"
proof (induction evs arbitrary: p)
  case (Cons ev evs)
  have "event_delivers J r p ev = []" "pubsub_step p ev = p" if "is_ack (snd ev)"
    using that by (cases ev; auto simp: is_ack_def event_delivers_def event_message_def numbers_def pubsub_step_def pubsub_frame_def
      split: input.splits)+
  with Cons show ?case by (cases "is_ack (snd ev)") (simp_all add: without_acks_def)
qed (simp add: without_acks_def)

lemma binary_without_acks: "binary_only (without_acks evs) \<Longrightarrow> binary_only evs"
  by (fastforce simp: without_acks_def binary_only_def is_ack_def list_all_iff split: input.splits)

lemma without_acks_tests:
  "without_acks test1_basic_ack_flow = test1_basic_ack_flow" "without_acks test4_sequential_ack_tracking = test4_sequential_ack_tracking"
proof -
  have pub: "without_acks (published i q ms) = published i q ms" for i q ms
    by (induction i q ms rule: published.induct) (simp_all add: without_acks_def is_ack_def frame_defs)
  have *: "without_acks (xs @ ys) = without_acks xs @ without_acks ys" "without_acks [(i, Connect now)] = [(i, Connect now)]"
    "without_acks (client_subscribe r c t) = client_subscribe r c t" for xs ys i now r c t
    by (simp_all add: without_acks_def client_subscribe_def is_ack_def frame_defs)
  show "without_acks test1_basic_ack_flow = test1_basic_ack_flow" "without_acks test4_sequential_ack_tracking = test4_sequential_ack_tracking"
    unfolding test1_basic_ack_flow_def test4_sequential_ack_tracking_def by (simp_all only: * pub)
qed

lemma tests_binary:
  "binary_only test1_basic_ack_flow" "binary_only test2_no_duplicates_on_reconnect" "binary_only test3_multiple_clients"
  "binary_only test4_sequential_ack_tracking" "binary_only test5_wildcard_with_ack"
  by (simp_all add: test1_basic_ack_flow_def test2_no_duplicates_on_reconnect_def test3_multiple_clients_def
      test4_sequential_ack_tracking_def test5_wildcard_with_ack_def del: published.simps)

section \<open>Properties\<close>

lemma packets_for_append:
  "\<exists>n'. packets_for J r p n (evs @ evs') = packets_for J r p n evs @ packets_for J r (pubsub_run p evs) n' evs'"
proof (induction evs arbitrary: p n)
  case Nil
  show ?case by (auto simp: pubsub_run_def)
next
  case (Cons ev evs)
  from Cons [of "pubsub_step p ev" "pubsub_count J p n ev"] show ?case by (auto simp: pubsub_run_def)
qed

text \<open>
  (C31) One message in the other protocol silences a subscriber. When a text client publishes to a topic that a binary
  subscriber has subscribed to, the callback of that subscriber sees nothing more for the rest of the connection,
  whatever is published afterwards; and a binary publish does the same to a text subscriber. The broker forwards the
  publisher's bytes unchanged, and the other parser waits for ever in front of them.
\<close>

theorem foreign_message_silences:
  assumes "lmdb_engine (amb_lmdb A) eview tview" and "eview e = Map.empty" and "sends_all N"
    and "i \<in> live (pubsub_run pubsub_init evs)" and "0 < matches (pubsub_run pubsub_init evs) r t" and "valid_history (evs @ ev # evs')"
  shows "(ev = (i, Command (makeArray [''PUBLISH'', t, x])) \<and> sub_sock s \<noteq> -1 \<longrightarrow>
      callback_log N A e keys (evs @ ev # evs') s r topic = callback_log N A e keys evs s r topic) \<and>
    (ev = (i, Frame (publish_frame t x q)) \<and> \<not> starts_with t ''secure/'' \<and> rsub_sock u \<noteq> -1 \<longrightarrow>
      text_log N A e keys (evs @ ev # evs') u r topic = text_log N A e keys evs u r topic)"
proof -
  let ?J = "signed_verdict (amb_sodium A) keys" and ?p = "pubsub_run pubsub_init evs"
  obtain n where app: "packets_for ?J r pubsub_init (\<lambda>_. 0) (evs @ ev # evs') =
      packets_for ?J r pubsub_init (\<lambda>_. 0) evs @ packets_for ?J r ?p n (ev # evs')"
    using packets_for_append by blast
  have valid: "valid_history evs" using assms(6) by simp
  note logs = logs_eq [OF assms(1,2) assms(6) assms(3) refl] logs_eq [OF assms(1,2) valid assms(3) refl]
  obtain k where k: "matches ?p r t = Suc k" using assms(5) by (cases "matches ?p r t") auto
  have "\<exists>ps. packets_for ?J r ?p n (ev # evs') = Txt (text_message (BulkString t) (BulkString x)) # ps"
    if "ev = (i, Command (makeArray [''PUBLISH'', t, x]))"
    using that assms(4) k by (simp add: pubsub_out_def command_out_def text_publish_array)
  moreover have "\<exists>f ps. packets_for ?J r ?p n (ev # evs') = Bin f # ps"
    if "ev = (i, Frame (publish_frame t x q))" "\<not> starts_with t ''secure/''"
    using that assms(4) k by (cases "r = i") (auto simp: pubsub_out_def frame_out_def publish_frame_def new_frame_def Let_def)
  ultimately show ?thesis using app logs by (auto simp: prefix_stops)
qed

theorem foreign_message_silences_witness:
  "callback_log demo_net demo_ambient RBT.empty ks_new
     (client_subscribe 1 ''c'' ''t'' @ [(2, Connect 0)] @ (2, Command (makeArray [''PUBLISH'', ''t'', ''x''])) # published 2 0 [(''t'', ''y'')])
     (fst (BinarySubscriber_new demo_net ''127.0.0.1'' 6379 io_new)) 1 ''t'' =
   callback_log demo_net demo_ambient RBT.empty ks_new (client_subscribe 1 ''c'' ''t'' @ [(2, Connect 0)])
     (fst (BinarySubscriber_new demo_net ''127.0.0.1'' 6379 io_new)) 1 ''t''"
proof -
  let ?evs = "client_subscribe 1 ''c'' ''t'' @ [(2, Connect 0)]" and ?ev = "(2, Command (makeArray [''PUBLISH'', ''t'', ''x'']))"
  have e: "lmdb_engine (amb_lmdb demo_ambient) RBT.lookup RBT.lookup" by (rule demo_engine)
  have s: "sub_sock (fst (BinarySubscriber_new demo_net ''127.0.0.1'' 6379 io_new)) \<noteq> -1"
    by (simp add: BinarySubscriber_new_def open_connection_def demo_net_def Let_def)
  have p: "pubsub_run pubsub_init ?evs = \<lparr>live = {1, 2}, subs = {(1, ''t'')}, down = False\<rparr>"
    by (auto simp: pubsub_run_def pubsub_step_def pubsub_frame_def pubsub_init_def client_subscribe_def frame_defs
        subscribe_target_def MAX_CONNECTIONS_def)
  have "valid_history (text_published 2 [(''t'', ''x'')])"
    by (rule published_valid) (simp add: sendable_as_text_def MAX_BULK_LEN_def)
  then have v: "valid_history (?evs @ ?ev # published 2 0 [(''t'', ''y'')])"
    by (simp add: text_published_def subscribe_valid quiet_topic_def published_valid(1) size_defs del: published.simps)
  have "2 \<in> live (pubsub_run pubsub_init ?evs)" "0 < matches (pubsub_run pubsub_init ?evs) 1 ''t''"
    unfolding p by (simp_all add: matches_def)
  from foreign_message_silences [OF e _ demo_net_sends this v, of RBT.empty "''x''" _ ks_new "''t''"] s show ?thesis by auto
qed



end
