(* ===== verification/Queue_Client.thy ===== *)
theory Queue_Client
  imports Binary_Client
begin

text \<open>
  \<^verbatim>\<open>src/queue.cpp\<close>: \<^verbatim>\<open>QueueProducer\<close> and \<^verbatim>\<open>QueueConsumer\<close>. A queue is the topic with \<^verbatim>\<open>q:\<close> in front of its name; a
  push is a publish on it and a pull a subscription. The lemmas show which frames reach the callback of a
  consumer and that a consumer acknowledges nothing.
\<close>

record QueueProducer =
  prod_sock :: int
  prod_sequence :: uint64

record QueueConsumer =
  cons_sock :: int
  cons_sequence :: uint64

definition QueueProducer_new :: "net \<Rightarrow> bytes \<Rightarrow> int \<Rightarrow> io \<Rightarrow> QueueProducer \<times> io" where
  "QueueProducer_new N host port i =
     (let (sock, i1) = open_connection N ''QueueProducer'' (''QueueProducer: CONNECTED (queue mode)'' @ newline) host port i
      in (\<lparr>prod_sock = sock, prod_sequence = 0\<rparr>, i1))"

definition QueueProducer_delete :: "QueueProducer \<times> io \<Rightarrow> io" where
  "QueueProducer_delete st = close_connection (prod_sock (fst st)) (snd st)"

definition queue_push ::
  "net \<Rightarrow> bytes option \<Rightarrow> QueueProducer \<times> io \<Rightarrow> bytes \<Rightarrow> bytes \<Rightarrow> (QueueProducer \<times> io) \<times> exn option" where
  "queue_push N reply st queue_name payload =
     (let (p, i) = st
      in if prod_sock p = -1 then ((p, cerr (''QueueProducer: not connected'' @ newline) i), None)
         else
           let p1 = p\<lparr>prod_sequence := prod_sequence p + 1\<rparr>;
               data = serialize (publish_frame (''q:'' @ queue_name) payload (prod_sequence p1));
               i1 = sock_send N data i
           in case reply of
                None \<Rightarrow> ((p1, i1), None)
              | Some ack_buffer \<Rightarrow>
                  (case parse ack_buffer of
                     Inl x \<Rightarrow> ((p1, i1), Some x)
                   | Inr _ \<Rightarrow> ((p1, i1), None)))"

definition QueueConsumer_new :: "net \<Rightarrow> bytes \<Rightarrow> int \<Rightarrow> io \<Rightarrow> QueueConsumer \<times> io" where
  "QueueConsumer_new N host port i =
     (let (sock, i1) = open_connection N ''QueueConsumer'' (''QueueConsumer: CONNECTED (queue mode)'' @ newline) host port i
      in (\<lparr>cons_sock = sock, cons_sequence = 0\<rparr>, i1))"

definition QueueConsumer_delete :: "QueueConsumer \<times> io \<Rightarrow> io" where
  "QueueConsumer_delete st = close_connection (cons_sock (fst st)) (snd st)"

definition on_queue_frame ::
  "('u \<Rightarrow> bytes \<Rightarrow> 'u \<times> exn option) \<Rightarrow> bytes \<Rightarrow> ((QueueConsumer, 'u) client, BinaryFrame) handler" where
  "on_queue_frame cb queue_name st f =
     (let (c, i, u) = st
      in if frame_command f = CMD_MESSAGE then
           (if take 2 (frame_topic f) = ''q:'' then (let (u', x) = cb u (frame_payload f) in ((c, i, u'), x))
            else ((c, i, u), None))
         else if frame_command f = CMD_ACK then
           ((c, cout (''QueueConsumer: Pulled from '' @ [CHR 0x27] @ queue_name @ [CHR 0x27] @ newline) i, u), None)
         else ((c, i, u), None))"

definition queue_pull ::
  "net \<Rightarrow> ('u \<Rightarrow> bytes \<Rightarrow> 'u \<times> exn option) \<Rightarrow> (QueueConsumer, 'u) client \<Rightarrow> bytes \<Rightarrow> bytes list
    \<Rightarrow> ((QueueConsumer, 'u) client \<times> exn option) option" where
  "queue_pull N cb st queue_name chunks =
     (let (c, i, u) = st
      in if cons_sock c = -1 then Some ((c, cerr (''QueueConsumer: not connected'' @ newline) i, u), None)
         else
           let c1 = c\<lparr>cons_sequence := cons_sequence c + 1\<rparr>;
               i1 = sock_send N (serialize (subscribe_frame (''q:'' @ queue_name) (cons_sequence c1))) i
           in receive parse (on_queue_frame cb queue_name) (''QueueConsumer: connection closed'' @ newline) (c1, i1, u) chunks)"

definition queue_run :: "QueueConsumer \<times> io \<Rightarrow> bytes list \<Rightarrow> ((QueueConsumer, unit) client \<times> exn option) option" where
  "queue_run st chunks =
     (let (c, i) = st
      in if cons_sock c = -1 then Some ((c, cerr (''QueueConsumer: not connected'' @ newline) i, ()), None)
         else receive parse
                (\<lambda>(c, i, u) f. ((c, cout (''Queue task: '' @ frame_topic f @ '' = '' @ frame_payload f @ newline) i, u), None))
                [] (c, cout (''QueueConsumer: running (debug mode)...'' @ newline) i, ()) chunks)"

section \<open>What a consumer sees\<close>

definition is_task :: "BinaryFrame \<Rightarrow> bool" where
  "is_task f \<longleftrightarrow> frame_command f = CMD_MESSAGE \<and> starts_with (frame_topic f) ''q:''"

definition task_callback :: "bytes list \<Rightarrow> bytes \<Rightarrow> bytes list \<times> exn option" where
  "task_callback ps p = (ps @ [p], None)"

lemma queue_step:
  "on_queue_frame task_callback q (c, i, ps) f =
     ((c, if frame_command f = CMD_ACK then cout (''QueueConsumer: Pulled from '' @ [CHR 0x27] @ q @ [CHR 0x27] @ newline) i else i,
       ps @ map frame_payload (filter is_task [f])), None)"
  by (cases "frame_command f = CMD_MESSAGE"; cases "frame_command f = CMD_ACK")
    (auto simp: on_queue_frame_def task_callback_def is_task_def starts_with_def numeral_2_eq_2 Let_def)

definition pulled_io :: "bytes \<Rightarrow> BinaryFrame \<Rightarrow> io \<Rightarrow> io" where
  "pulled_io q f i =
     (if frame_command f = CMD_ACK then cout (''QueueConsumer: Pulled from '' @ [CHR 0x27] @ q @ [CHR 0x27] @ newline) i else i)"

lemma queue_fold:
  "\<exists>i'. foldl (\<lambda>st f. fst (on_queue_frame task_callback q st f)) (c, i, ps) fs =
      (c, i', ps @ map frame_payload (filter is_task fs)) \<and> io_out i' = io_out i"
proof (induction fs arbitrary: i ps)
  case (Cons f fs)
  show ?case
    using Cons.IH [of "pulled_io q f i" "ps @ map frame_payload (filter is_task [f])"]
    by (auto simp: queue_step [folded pulled_io_def] pulled_io_def)
qed simp

lemma queue_step_total: "on_queue_frame task_callback q st f = (fst (on_queue_frame task_callback q st f), None)"
  by (cases st) (simp only: queue_step fst_conv)

lemma consumer_stream:
  assumes "sends_all N" and "cons_sock c \<noteq> -1"
    and "list_all valid_frame fs" and "concat chunks = concat (map serialize fs)"
  shows "\<exists>c' i'. queue_pull N task_callback (c, i, []) q chunks = Some ((c', i', map frame_payload (filter is_task fs)), None) \<and>
    io_out i' = io_out i @ serialize (subscribe_frame (''q:'' @ q) (cons_sequence c + 1))"
proof -
  let ?c = "c\<lparr>cons_sequence := cons_sequence c + 1\<rparr>"
  let ?i = "sock_send N (serialize (subscribe_frame (''q:'' @ q) (cons_sequence c + 1))) i"
  obtain i' where i': "foldl (\<lambda>st f. fst (on_queue_frame task_callback q st f)) (?c, ?i, []) fs =
      (?c, i', map frame_payload (filter is_task fs))" "io_out i' = io_out ?i"
    using queue_fold [of q ?c ?i "[]" fs] by auto
  from binary_client.receive_render [OF assms(3,4) queue_step_total i'(1)] i'(2) assms(1,2) show ?thesis
    by (auto simp: queue_pull_def Let_def)
qed

lemma queue_producer_send:
  assumes "sends_all N" and "prod_sock p \<noteq> -1"
  shows "queue_push N reply (p, i) q payload =
      ((p\<lparr>prod_sequence := prod_sequence p + 1\<rparr>,
        sock_send N (serialize (publish_frame (''q:'' @ q) payload (prod_sequence p + 1))) i), None)"
  using assms parse_not_Inl by (auto simp: queue_push_def Let_def split: option.split sum.split)

section \<open>Properties\<close>

text \<open>
  A consumer's callback gets the payloads of exactly the unsigned messages on queue topics, in order, however
  the stream is cut. The name of the queue is not compared, signed messages are passed over, and the consumer
  writes nothing but its subscription, in particular no acknowledgement.
\<close>

theorem consumer_delivers:
  assumes "sends_all N" and "cons_sock c \<noteq> -1"
    and "list_all valid_frame fs" and "concat chunks = concat (map serialize fs)"
  shows "\<exists>c' i'. queue_pull N task_callback (c, i, []) q chunks = Some ((c', i', map frame_payload (filter is_task fs)), None) \<and>
    io_out i' = io_out i @ serialize (subscribe_frame (''q:'' @ q) (cons_sequence c + 1))"
  using assms by (rule consumer_stream)

theorem consumer_delivers_witness:
  "\<exists>c' i'. queue_pull demo_net task_callback (\<lparr>cons_sock = 3, cons_sequence = 0\<rparr>, io_new, []) ''jobs''
      [serialize (message_frame ''q:jobs'' ''x'' 1) @ serialize (message_frame ''t'' ''y'' 2)] = Some ((c', i', [''x'']), None)"
proof -
  let ?fs = "[message_frame ''q:jobs'' ''x'' 1, message_frame ''t'' ''y'' 2]"
  have v: "list_all valid_frame ?fs" by (simp add: valid_frame_eval)
  have t: "map frame_payload (filter is_task ?fs) = [''x'']" by (simp add: is_task_def starts_with_def frame_defs)
  from consumer_delivers [OF demo_net_sends _ v, of "\<lparr>cons_sock = 3, cons_sequence = 0\<rparr>"
      "[serialize (message_frame ''q:jobs'' ''x'' 1) @ serialize (message_frame ''t'' ''y'' 2)]" io_new "''jobs''"] t
  show ?thesis by auto
qed

end
