(* ===== verification/Devices.thy ===== *)
theory Devices
  imports Session
begin

text \<open>
  The device programs: the ESP32 sketch (\<^verbatim>\<open>wokwi/metricmq-esp32-demo/sketch.ino\<close>), which builds its own binary
  frames, the ESP8266 sketch (\<^verbatim>\<open>metricmq-wokwi-esp8266/sketch.ino\<close>), which speaks the text protocol, and the
  PlatformIO test program (\<^verbatim>\<open>metricmq-platformio-test/src/main.cpp\<close>) over the external MetricMQ device library.
  What the Arduino environment answers during one pass of \<^verbatim>\<open>loop\<close> is an argument; serial output and delays
  are left out. The lemmas compare what the sketches write with what the broker reads, and show that the
  timers survive the wrap-around of \<^verbatim>\<open>millis\<close>.
\<close>

section \<open>ESP32 sketch\<close>

text \<open>The fixed frame buffer of \<^verbatim>\<open>sendBinaryPublish\<close>; \<open>None\<close> when the copies run past its 512 bytes.\<close>

definition ESP32_BUFFER :: nat where "ESP32_BUFFER = 512"

definition esp32_frame :: "bytes \<Rightarrow> bytes \<Rightarrow> bytes" where
  "esp32_frame topic payload =
     (let topic_len = word_of_nat (length topic) :: uint16; payload_len = word_of_nat (length payload) :: uint32;
          b1 = [char_of_byte BINARY_PROTOCOL_VERSION, char_of_byte 0x03];
          b2 = writeUint16 b1 topic_len;
          b3 = b2 @ take (unat topic_len) topic;
          b4 = writeUint32 b3 payload_len
      in b4 @ take (unat payload_len) payload)"

text \<open>
  \<open>connected\<close> is what \<^verbatim>\<open>client.connected()\<close> says and \<open>written\<close> what \<^verbatim>\<open>client.write\<close> returns for the frame; the
  value is the function's result and the bytes handed to \<^verbatim>\<open>write\<close>.
\<close>

definition sendBinaryPublish :: "bool \<Rightarrow> (bytes \<Rightarrow> nat) \<Rightarrow> bytes \<Rightarrow> bytes \<Rightarrow> (bool \<times> bytes) option" where
  "sendBinaryPublish connected written topic payload =
     (if \<not> connected then Some (False, [])
      else let frame = esp32_frame topic payload
           in if ESP32_BUFFER < length frame then None
              else Some (written frame = length frame, frame))"

record esp32 =
  esp_connected :: bool
  esp_client_id :: bytes
  esp_last_publish :: uint32
  esp_last_reconnect :: uint32
  led_publish :: bool
  led_connect :: bool

text \<open>
  One pass: the WiFi status, the answers of \<^verbatim>\<open>client.connected()\<close> in \<^verbatim>\<open>loop\<close> and in \<^verbatim>\<open>sendBinaryPublish\<close>, of
  \<^verbatim>\<open>client.connect\<close> and \<^verbatim>\<open>client.write\<close>, the clock at the top and when the payload is built, and the sensor: its
  status and its readings as \<^verbatim>\<open>String(x, 1)\<close> prints them.
\<close>

record esp_pass =
  ps_wifi :: bool
  ps_connected :: bool
  ps_connected2 :: bool
  ps_connect :: bool
  ps_written :: "bytes \<Rightarrow> nat"
  ps_millis :: uint32
  ps_millis2 :: uint32
  ps_dht_status :: int
  ps_temperature :: bytes
  ps_humidity :: bytes

text \<open>\<^verbatim>\<open>String(n, HEX)\<close>: lower case, no leading zeros.\<close>

fun hex_string :: "nat \<Rightarrow> bytes" where
  "hex_string n = (if n < 16 then [hex_digit n] else hex_string (n div 16) @ [hex_digit (n mod 16)])"

declare hex_string.simps [simp del]

abbreviation (input) quote :: bytes where "quote \<equiv> [CHR 0x22]"

definition esp32_payload :: "bytes \<Rightarrow> bytes \<Rightarrow> bytes \<Rightarrow> uint32 \<Rightarrow> bytes" where
  "esp32_payload temperature humidity client millis =
     ''{'' @ quote @ ''temperature'' @ quote @ '':'' @ temperature @ '','' @
     quote @ ''humidity'' @ quote @ '':'' @ humidity @ '','' @
     quote @ ''client_id'' @ quote @ '':'' @ quote @ client @ quote @ '','' @
     quote @ ''uptime'' @ quote @ '':'' @ to_string (unat (millis div 1000)) @ ''}''"

definition esp32_topic :: bytes where "esp32_topic = ''sensors/wokwi/dht22''"

definition PUBLISH_INTERVAL :: uint32 where "PUBLISH_INTERVAL = 10000"
definition RECONNECT_INTERVAL :: uint32 where "RECONNECT_INTERVAL = 5000"

text \<open>\<^verbatim>\<open>setup\<close>: the MAC address gives the client id; \<open>wifi\<close> is the WiFi status after at most 20 polls.\<close>

definition esp32_setup :: "uint64 \<Rightarrow> bool \<Rightarrow> esp32" where
  "esp32_setup chipid wifi =
     \<lparr>esp_connected = False, esp_client_id = ''wokwi_esp32_'' @ hex_string (unat (ucast chipid :: uint32)),
      esp_last_publish = 0, esp_last_reconnect = 0, led_publish = False, led_connect = False\<rparr>"

definition connectToBroker :: "bool \<Rightarrow> esp32 \<Rightarrow> esp32 \<times> bool" where
  "connectToBroker ok d = (if ok then (d\<lparr>esp_connected := True, led_connect := True\<rparr>, True) else (d, False))"

definition publishSensorData :: "esp_pass \<Rightarrow> esp32 \<Rightarrow> (esp32 \<times> bytes) option" where
  "publishSensorData ps d =
     (if ps_dht_status ps \<noteq> 0 then Some (d, [])
      else
        let payload = esp32_payload (ps_temperature ps) (ps_humidity ps) (esp_client_id d) (ps_millis2 ps)
        in case sendBinaryPublish (ps_connected2 ps) (ps_written ps) esp32_topic payload of
             None \<Rightarrow> None
           | Some (True, out) \<Rightarrow> Some (d\<lparr>led_publish := False\<rparr>, out)
           | Some (False, out) \<Rightarrow> Some (d, out))"

text \<open>The value is the new state and the bytes given to the TCP client.\<close>

definition esp32_loop :: "esp_pass \<Rightarrow> esp32 \<Rightarrow> (esp32 \<times> bytes) option" where
  "esp32_loop ps d =
     (if \<not> ps_wifi ps then Some (d, [])
      else if \<not> ps_connected ps then
        let d1 = d\<lparr>esp_connected := False, led_connect := False\<rparr>; now = ps_millis ps
        in if RECONNECT_INTERVAL \<le> now - esp_last_reconnect d1
           then Some (fst (connectToBroker (ps_connect ps) (d1\<lparr>esp_last_reconnect := now\<rparr>)), [])
           else Some (d1, [])
      else
        let d1 = (if esp_connected d then d\<lparr>led_connect := True\<rparr> else d); now = ps_millis ps
        in if PUBLISH_INTERVAL \<le> now - esp_last_publish d1
           then publishSensorData ps (d1\<lparr>esp_last_publish := now\<rparr>)
           else Some (d1, []))"

section \<open>ESP8266 sketch\<close>

definition makePublish :: "bytes \<Rightarrow> bytes \<Rightarrow> bytes" where
  "makePublish topic payload =
     ''*3'' @ CRLF @ ''$7'' @ CRLF @ ''PUBLISH'' @ CRLF @ ''$'' @ to_string (length topic) @ CRLF @ topic @ CRLF @
     ''$'' @ to_string (length payload) @ CRLF @ payload @ CRLF"

definition makeSubscribe :: "bytes \<Rightarrow> bytes" where
  "makeSubscribe topic =
     ''*2'' @ CRLF @ ''$9'' @ CRLF @ ''SUBSCRIBE'' @ CRLF @ ''$'' @ to_string (length topic) @ CRLF @ topic @ CRLF"

definition esp8266_payload :: "bytes \<Rightarrow> bytes \<Rightarrow> uint32 \<Rightarrow> uint32 \<Rightarrow> bytes" where
  "esp8266_payload temperature humidity millis chip =
     ''{'' @ quote @ ''temperature'' @ quote @ '':'' @ temperature @ '','' @
     quote @ ''humidity'' @ quote @ '':'' @ humidity @ '','' @
     quote @ ''uptime'' @ quote @ '':'' @ to_string (unat (millis div 1000)) @ '','' @
     quote @ ''chip_id'' @ quote @ '':'' @ quote @ hex_string (unat chip) @ quote @ ''}''"

text \<open>The bytes that \<^verbatim>\<open>setup\<close> sends, by the outcome of the connection attempt.\<close>

definition esp8266_setup :: "bool \<Rightarrow> bytes" where
  "esp8266_setup connected = (if connected then makeSubscribe ''esp8266/commands'' else [])"

text \<open>
  One pass of \<^verbatim>\<open>loop\<close> with its own static \<^verbatim>\<open>lastPublish\<close>: the new timer, the bytes sent and whether the chip
  restarts. The two readings of the clock are \<open>now\<close> and \<open>later\<close>; \<open>up\<close> and \<open>up_end\<close> are the answers of
  \<^verbatim>\<open>connected()\<close> before the publish and at the end of the pass, and \<open>data\<close> is what \<^verbatim>\<open>publishSensorData\<close> sends.
\<close>

definition esp8266_publish :: "int \<Rightarrow> bytes \<Rightarrow> bytes \<Rightarrow> uint32 \<Rightarrow> uint32 \<Rightarrow> bytes" where
  "esp8266_publish status temperature humidity millis chip =
     (if status \<noteq> 0 then []
      else makePublish ''sensors/esp8266/dht22'' (esp8266_payload temperature humidity millis chip))"

definition esp8266_loop ::
  "uint32 \<Rightarrow> uint32 \<Rightarrow> bool \<Rightarrow> bool \<Rightarrow> bytes \<Rightarrow> uint32 \<Rightarrow> uint32 \<times> bytes \<times> bool" where
  "esp8266_loop now later up up_end data lastPublish =
     (let (last, out) =
        (if 10000 < now - lastPublish then (if up then (later, data) else (lastPublish, []))
         else (lastPublish, []))
      in (last, out, \<not> up_end))"

section \<open>PlatformIO test program\<close>

text \<open>The external device library: an opaque client object with the operations the program calls.\<close>

record 'c MetricMQClient =
  mq_begin :: "'c \<Rightarrow> bytes \<Rightarrow> uint16 \<Rightarrow> 'c"
  mq_setCallback :: "'c \<Rightarrow> (bytes \<Rightarrow> bytes \<Rightarrow> uint64 \<Rightarrow> bytes) \<Rightarrow> 'c"
  mq_connected :: "'c \<Rightarrow> bool"
  mq_connect :: "'c \<Rightarrow> 'c \<times> bool"
  mq_subscribe :: "'c \<Rightarrow> bytes \<Rightarrow> 'c"
  mq_publish :: "'c \<Rightarrow> bytes \<Rightarrow> bytes \<Rightarrow> 'c \<times> bool"
  mq_loop :: "'c \<Rightarrow> 'c"

record 'c pio =
  pio_client :: 'c
  pio_last_publish :: uint32
  pio_led :: bool

text \<open>
  What \<^verbatim>\<open>onMessage\<close> prints: \<^verbatim>\<open>%s\<close> stops at a NUL byte of the topic, the payload is printed byte by byte.
\<close>

definition pio_onMessage :: "bytes \<Rightarrow> bytes \<Rightarrow> uint64 \<Rightarrow> bytes" where
  "pio_onMessage topic payload sequence =
     [CHR 0xF0, CHR 0x9F, CHR 0x93, CHR 0xA5] @ '' Received on '' @ takeWhile (\<lambda>c. c \<noteq> CHR 0x00) topic @ '' (seq: '' @
     to_string (unat sequence) @ ''): '' @ payload @ CRLF"

text \<open>\<^verbatim>\<open>setup\<close>: \<open>status k\<close> is the answer of the \<open>k\<close>-th \<^verbatim>\<open>WiFi.status()\<close>, polled at most 20 times before going on.\<close>

function wifi_wait :: "(nat \<Rightarrow> bool) \<Rightarrow> nat \<Rightarrow> nat" where
  "wifi_wait status attempts =
     (if \<not> status attempts \<and> attempts < 20 then wifi_wait status (attempts + 1) else attempts)"
  by auto
termination by (relation "measure (\<lambda>(status, attempts). 20 - attempts)") auto

declare wifi_wait.simps [simp del]

definition pio_setup :: "'c MetricMQClient \<Rightarrow> 'c \<Rightarrow> (nat \<Rightarrow> bool) \<Rightarrow> 'c pio \<times> bool" where
  "pio_setup M c status =
     (let attempts = wifi_wait status 0; wifi = status (attempts + 1)
      in (\<lparr>pio_client = mq_setCallback M (mq_begin M c ''192.168.1.100'' 6379) pio_onMessage,
           pio_last_publish = 0, pio_led = True\<rparr>, wifi))"

text \<open>The JSON text; \<open>temperature\<close> is the formatted reading of the analogue pin.\<close>

definition pio_payload :: "uint32 \<Rightarrow> uint32 \<Rightarrow> uint32 \<Rightarrow> int \<Rightarrow> bytes \<Rightarrow> bytes" where
  "pio_payload millis free_heap chip rssi temperature =
     ''{'' @ quote @ ''uptime'' @ quote @ '':'' @ to_string (unat (millis div 1000)) @ '','' @
     quote @ ''free_heap'' @ quote @ '':'' @ to_string (unat free_heap) @ '','' @
     quote @ ''chip_id'' @ quote @ '':'' @ quote @ hex_string (unat chip) @ quote @ '','' @
     quote @ ''wifi_rssi'' @ quote @ '':'' @ show_int rssi @ '','' @
     quote @ ''temperature'' @ quote @ '':'' @ temperature @ ''}''"

text \<open>\<open>led\<close> is the level of the pin; the built-in LED is on when it is low. \<open>payload\<close> is the JSON text.\<close>

definition pio_publishData :: "'c MetricMQClient \<Rightarrow> bytes \<Rightarrow> 'c pio \<Rightarrow> 'c pio" where
  "pio_publishData M payload d =
     (let (c, ok) = mq_publish M (pio_client d) ''sensors/esp8266'' payload
      in if ok then d\<lparr>pio_client := c, pio_led := False\<rparr> else d\<lparr>pio_client := c\<rparr>)"

definition pio_loop :: "'c MetricMQClient \<Rightarrow> bool \<Rightarrow> uint32 \<Rightarrow> bytes \<Rightarrow> 'c pio \<Rightarrow> 'c pio" where
  "pio_loop M wifi now payload d =
     (if \<not> wifi then d
      else if \<not> mq_connected M (pio_client d) then
        let (c, ok) = mq_connect M (pio_client d)
        in if ok then d\<lparr>pio_client := mq_subscribe M c ''esp8266/commands'', pio_led := False\<rparr>
           else d\<lparr>pio_client := c, pio_led := True\<rparr>
      else
        let d1 = (if PUBLISH_INTERVAL \<le> now - pio_last_publish d
                  then pio_publishData M payload (d\<lparr>pio_last_publish := now\<rparr>) else d)
        in d1\<lparr>pio_client := mq_loop M (pio_client d1)\<rparr>)"

section \<open>The bytes against the broker\<close>

lemma to_string_small: "to_string 2 = ''2''" "to_string 3 = ''3''" "to_string 7 = ''7''" "to_string 9 = ''9''"
  by (simp_all add: to_string.simps)

lemma makePublish_eq: "makePublish topic payload = resp_serialize (makeArray [''PUBLISH'', topic, payload])"
  using to_string_small by (simp add: makePublish_def makeArray_def numeral_eq_Suc)

lemma makeSubscribe_eq: "makeSubscribe topic = resp_serialize (makeArray [''SUBSCRIBE'', topic])"
  using to_string_small by (simp add: makeSubscribe_def makeArray_def numeral_eq_Suc)

text \<open>One whole text command arriving on an idle connection that is not a binary one.\<close>

lemma detect_resp_array: "detectProtocol (resp_serialize (RArray vs)) = RESP"
  by (simp add: detectProtocol_def)

lemma on_data_resp:
  assumes "valid_resp (RArray vs)" and "length (resp_serialize (RArray vs)) \<le> MAX_RECV_BUFFER"
    and "recv_buffer ses = []" and "protocol_type ses \<noteq> BINARY"
    and "handleCommand A (ses\<lparr>last_activity := now, recv_buffer := resp_serialize (RArray vs), protocol_type := RESP\<rparr>, sys) (RArray vs) =
      ((ses', sys'), None)"
  shows "on_data A (ses, sys) now (resp_serialize (RArray vs)) = Some ((ses'\<lparr>recv_buffer := []\<rparr>, sys'), Waiting)"
proof -
  let ?d = "resp_serialize (RArray vs)"
  let ?ses = "ses\<lparr>last_activity := now, recv_buffer := ?d, protocol_type := RESP\<rparr>"
  have "resp_parse ?d = Inr (Some (RArray vs, length ?d))" "?d \<noteq> []"
    using resp_codec.roundtrip [OF assms(1), of "[]"] resp_codec.render_not_Nil [OF assms(1)] by simp_all
  then have "recv_loop resp_parse (handleCommand A) (?ses, sys) ?d = Some ((ses', sys'), [], None)"
    using assms(5) by (simp add: recv_loop_step del: resp_serialize.simps)
  then have drained: "drain A (?ses, sys) = Some ((ses', sys'), [], None)" by (simp add: drain_def)
  have "ses\<lparr>last_activity := now, recv_buffer := ?d\<rparr> = ?ses" if "protocol_type ses = RESP"
    using that by (cases ses) simp
  with drained assms(2-4) detect_resp_array [of vs] show ?thesis
    by (cases "protocol_type ses") (simp_all add: on_data_def Let_def del: resp_serialize.simps)
qed

text \<open>Where the broker looks for the topic length, the ESP32 frame has two characters of the topic.\<close>

lemma esp32_topic_len: "readUint16 (esp32_frame esp32_topic payload) 10 = Inr 0x732F"
  by (simp add: esp32_frame_def esp32_topic_def write_defs readUint16_def byte_of_char_def Let_def)

lemma esp32_frame_blocks: "parse (esp32_frame esp32_topic payload @ rest) = Inr None"
proof (rule parse_bad_header)
  show "16 \<le> length (esp32_frame esp32_topic payload)"
    by (simp add: esp32_frame_def esp32_topic_def Let_def)
qed (use esp32_topic_len in \<open>simp add: size_defs\<close>)

lemma esp32_frame_first: "\<exists>r. esp32_frame t p = CHR 0x01 # r"
proof -
  have "char_of_byte BINARY_PROTOCOL_VERSION = CHR 0x01"
    by (simp add: char_of_byte_def BINARY_PROTOCOL_VERSION_def char_of_eq_iff)
  then show ?thesis by (simp add: esp32_frame_def write_defs Let_def)
qed

section \<open>Properties\<close>

text \<open>
  The ESP32 sketch cannot talk to the broker: its frames lack the sequence number, so the broker reads two
  characters of the topic as the topic length and waits for more bytes for ever. Whatever the payload, however
  the bytes are cut and whatever follows, the broker keeps them in the receive buffer, changes nothing and
  handles nothing on that connection.
\<close>

theorem esp32_publish_never_handled:
  assumes "recv_buffer ses @ data = esp32_frame esp32_topic payload @ rest" and "length (recv_buffer ses @ data) \<le> MAX_RECV_BUFFER"
    and "protocol_type ses \<noteq> RESP"
  shows "\<exists>ses'. on_data A (ses, sys) now data = Some ((ses', sys), Waiting) \<and>
    recv_buffer ses' = recv_buffer ses @ data \<and> protocol_type ses' = BINARY"
proof -
  let ?b = "recv_buffer ses @ data"
  obtain r where r: "?b = CHR 0x01 # r" using esp32_frame_first [of esp32_topic payload] assms(1) by auto
  have det: "detectProtocol ?b = BINARY" unfolding r
    by (simp add: detectProtocol_def byte_of_char_def BINARY_PROTOCOL_VERSION_def)
  have wait: "parse ?b = Inr None" unfolding assms(1) by (rule esp32_frame_blocks)
  show ?thesis
    using assms(2,3) det
    by (cases "protocol_type ses") (simp_all add: on_data_def drain_def recv_loop_wait [where parse = parse, OF wait] Let_def)
qed

theorem esp32_publish_never_handled_witness:
  "\<exists>ses'. on_data demo_ambient (session_new 7 0, demo_system ks_new) 1 (esp32_frame esp32_topic ''{}'') = Some ((ses', demo_system ks_new), Waiting)"
  using esp32_publish_never_handled [of "session_new 7 0" "esp32_frame esp32_topic ''{}''" "''{}''" "[]" demo_ambient "demo_system ks_new" 1]
  by (auto simp: session_new_def MAX_RECV_BUFFER_def esp32_frame_def esp32_topic_def Let_def)

text \<open>
  The ESP8266 sketch builds its commands by hand; they are exactly what the library's serializer produces, for
  every topic and payload.
\<close>

theorem esp8266_commands_equal_library:
  "makePublish topic payload = resp_serialize (makeArray [''PUBLISH'', topic, payload]) \<and>
   makeSubscribe topic = resp_serialize (makeArray [''SUBSCRIBE'', topic])"
  by (simp only: makePublish_eq makeSubscribe_eq)

text \<open>
  A publish of the ESP8266 sketch arriving on a fresh or text connection is fanned out: every subscriber of the
  topic and of \<^verbatim>\<open>#\<close> is sent the text message, and the device the integer 1.
\<close>

theorem esp8266_publish_reaches_subscribers:
  assumes "int (length t) \<le> MAX_BULK_LEN" and "int (length p) \<le> MAX_BULK_LEN"
    and "length (makePublish t p) \<le> MAX_RECV_BUFFER"
    and "recv_buffer ses = []" and "protocol_type ses \<noteq> BINARY"
  shows "\<exists>ses' sys'. on_data A (ses, sys) now (makePublish t p) = Some ((ses', sys'), Waiting) \<and> recv_buffer ses' = [] \<and>
    sent (sys_broker sys') = sent (sys_broker sys) @
      map (\<lambda>s. (s, resp_serialize (RArray [BulkString ''message'', BulkString t, BulkString p])))
        (subscribers (sys_broker sys) t @ subscribers (sys_broker sys) ''#'') @
      [(ses_id ses, resp_serialize (RInteger 1))]"
proof -
  let ?vs = "map BulkString [''PUBLISH'', t, p]"
  have d: "makePublish t p = resp_serialize (RArray ?vs)" by (simp only: makePublish_eq makeArray_def)
  have v: "valid_resp (RArray ?vs)" using assms(1,2) by (simp add: MAX_ARRAY_COUNT_def MAX_BULK_LEN_def)
  let ?ses = "ses\<lparr>last_activity := now, recv_buffer := resp_serialize (RArray ?vs), protocol_type := RESP\<rparr>"
  obtain ses' sys' x where h: "handleCommand A (?ses, sys) (RArray ?vs) = ((ses', sys'), x)" by (metis surj_pair)
  have cmd: "map toupper ''PUBLISH'' = ''PUBLISH''" by (simp add: toupper_def less_eq_char_def)
  have "x = None \<and> sent (sys_broker sys') = sent (sys_broker sys) @
      map (\<lambda>s. (s, resp_serialize (RArray [BulkString ''message'', BulkString t, BulkString p])))
        (subscribers (sys_broker sys) t @ subscribers (sys_broker sys) ''#'') @
      [(ses_id ses, resp_serialize (RInteger 1))]"
    using h unfolding handleCommand_def Let_def
    by (auto simp: cmd [simplified] sendResp_def send_to_def publish_eq simp del: resp_serialize.simps)
  moreover from this have "on_data A (ses, sys) now (resp_serialize (RArray ?vs)) = Some ((ses'\<lparr>recv_buffer := []\<rparr>, sys'), Waiting)"
    using h assms(3) by (intro on_data_resp [OF v _ assms(4,5)]) (simp_all only: d)
  ultimately show ?thesis unfolding d by auto
qed

theorem esp8266_publish_reaches_subscribers_witness:
  "\<exists>ses' sys'. on_data demo_ambient (session_new 7 0, demo_system ks_new) 1
      (makePublish ''sensors/esp8266/dht22'' (esp8266_payload ''21.5'' ''40.0'' 12000 0xAB)) = Some ((ses', sys'), Waiting)"
  using esp8266_publish_reaches_subscribers [of "''sensors/esp8266/dht22''" "esp8266_payload ''21.5'' ''40.0'' 12000 0xAB"
      "session_new 7 0" demo_ambient "demo_system ks_new" 1]
  by (auto simp: session_new_def MAX_RECV_BUFFER_def MAX_BULK_LEN_def makePublish_def esp8266_payload_def to_string.simps hex_string.simps)

text \<open>
  The publish timer of the ESP32 sketch survives the wrap-around of the 32-bit millisecond clock: with
  \<open>elapsed\<close> milliseconds since the last publish, fewer than \<open>2\<^sup>3\<^sup>2\<close>, a pass with everything up publishes exactly
  when ten seconds have gone by, whatever the clock shows, and then restarts the timer.
\<close>

theorem esp32_timer_wraps:
  assumes "ps_wifi ps" and "ps_connected ps" and "ps_connected2 ps" and "ps_dht_status ps = 0"
    and "ps_millis ps = esp_last_publish d + word_of_nat elapsed" and "elapsed < 2 ^ 32"
    and "length (esp32_frame esp32_topic (esp32_payload (ps_temperature ps) (ps_humidity ps) (esp_client_id d) (ps_millis2 ps))) \<le> ESP32_BUFFER"
  shows "\<exists>d' out. esp32_loop ps d = Some (d', out) \<and> (out \<noteq> [] \<longleftrightarrow> 10000 \<le> elapsed) \<and>
    esp_last_publish d' = (if 10000 \<le> elapsed then ps_millis ps else esp_last_publish d)"
proof -
  have "PUBLISH_INTERVAL \<le> ps_millis ps - esp_last_publish d \<longleftrightarrow> 10000 \<le> elapsed"
    using assms(5,6) by (simp add: PUBLISH_INTERVAL_def word_le_nat_alt unat_of_nat)
  moreover have "esp32_frame t p \<noteq> []" for t p using esp32_frame_first [of t p] by auto
  ultimately show ?thesis
    using assms
    by (cases "ps_written ps (esp32_frame esp32_topic (esp32_payload (ps_temperature ps) (ps_humidity ps) (esp_client_id d) (ps_millis2 ps))) =
        length (esp32_frame esp32_topic (esp32_payload (ps_temperature ps) (ps_humidity ps) (esp_client_id d) (ps_millis2 ps)))")
      (auto simp: esp32_loop_def publishSensorData_def sendBinaryPublish_def Let_def)
qed

theorem esp32_timer_wraps_witness:
  "\<exists>d' out. esp32_loop \<lparr>ps_wifi = True, ps_connected = True, ps_connected2 = True, ps_connect = True, ps_written = length,
      ps_millis = 4000, ps_millis2 = 4000, ps_dht_status = 0, ps_temperature = ''21.5'', ps_humidity = ''40.0''\<rparr>
     ((esp32_setup 0xAB True)\<lparr>esp_last_publish := - 6000\<rparr>) = Some (d', out) \<and> out \<noteq> []"
proof -
  let ?ps = "\<lparr>ps_wifi = True, ps_connected = True, ps_connected2 = True, ps_connect = True, ps_written = length,
      ps_millis = 4000, ps_millis2 = 4000, ps_dht_status = 0, ps_temperature = ''21.5'', ps_humidity = ''40.0''\<rparr>"
  let ?d = "(esp32_setup 0xAB True)\<lparr>esp_last_publish := - 6000\<rparr>"
  have id: "esp_client_id ?d = ''wokwi_esp32_ab''"
    by (simp add: esp32_setup_def hex_string.simps hex_digit_def char_of_eq_iff)
  have "\<exists>d' out. esp32_loop ?ps ?d = Some (d', out) \<and> (out \<noteq> [] \<longleftrightarrow> 10000 \<le> (10000 :: nat)) \<and>
      esp_last_publish d' = (if 10000 \<le> (10000 :: nat) then ps_millis ?ps else esp_last_publish ?d)"
    by (rule esp32_timer_wraps)
      (simp_all add: id esp32_payload_def esp32_frame_def esp32_topic_def ESP32_BUFFER_def to_string.simps Let_def)
  then show ?thesis by auto
qed

lemma wifi_wait_bound: "attempts \<le> 20 \<Longrightarrow> wifi_wait status attempts \<le> 20"
  by (induction status attempts rule: wifi_wait.induct) (subst wifi_wait.simps, simp)

lemma wifi_wait_stops: "attempts \<le> 20 \<Longrightarrow> status (wifi_wait status attempts) \<or> wifi_wait status attempts = 20"
  by (induction status attempts rule: wifi_wait.induct) (subst (1 2) wifi_wait.simps, auto)

text \<open>
  The PlatformIO program: the set-up polls the WiFi at most 20 times and hands the library the broker's address and the
  callback whether or not it came up; afterwards a pass with WiFi and broker connected publishes the JSON text exactly when
  ten seconds have gone by, across the wrap-around of the clock, and lets the library run once.
\<close>

theorem pio_pass:
  assumes "mq_connected M (pio_client d)" and "now = pio_last_publish d + word_of_nat elapsed" and "elapsed < 2 ^ 32"
  shows "wifi_wait status 0 \<le> 20 \<and> pio_client (fst (pio_setup M c status)) = mq_setCallback M (mq_begin M c ''192.168.1.100'' 6379) pio_onMessage \<and>
    pio_client (pio_loop M True now payload d) =
      mq_loop M (if 10000 \<le> elapsed then fst (mq_publish M (pio_client d) ''sensors/esp8266'' payload) else pio_client d) \<and>
    pio_last_publish (pio_loop M True now payload d) = (if 10000 \<le> elapsed then now else pio_last_publish d)"
proof -
  have "PUBLISH_INTERVAL \<le> now - pio_last_publish d \<longleftrightarrow> 10000 \<le> elapsed"
    using assms(2,3) by (simp add: PUBLISH_INTERVAL_def word_le_nat_alt unat_of_nat)
  then show ?thesis
    using assms(1) wifi_wait_bound [of 0 status]
    by (auto simp: pio_setup_def pio_loop_def pio_publishData_def Let_def split: prod.splits)
qed

end
