(* ===== verification/Examples.thy ===== *)
theory Examples
  imports Session Resp_Client
begin

text \<open>
  The programs of the repository that exercise the library without a broker: the message size comparison of
  \<^verbatim>\<open>benchmark/protocol_benchmark.cpp\<close>, and the signing programs \<^verbatim>\<open>examples/signed_publish_test.cpp\<close> and
  \<^verbatim>\<open>examples/crypto_demo.cpp\<close>. The lemmas show that the size formulas are those of the real encoders, that the
  binary form is always smaller, and which checks of the test program succeed.
\<close>

section \<open>Message sizes\<close>

definition calculateRespSize :: "bytes \<Rightarrow> bytes \<Rightarrow> nat" where
  "calculateRespSize topic payload =
     (let header = 4;
          header = header + 13;
          header = header + (1 + length (to_string (length topic)) + 2 + length topic + 2);
          header = header + (1 + length (to_string (length payload)) + 2 + length payload + 2)
      in header)"

definition calculateBinarySize :: "bytes \<Rightarrow> bytes \<Rightarrow> nat" where
  "calculateBinarySize topic payload = 16 + length topic + length payload"

text \<open>The wire size in the result of \<^verbatim>\<open>benchmarkMessageSize\<close>; its other fields are constants.\<close>

definition benchmarkMessageSize :: "bytes \<Rightarrow> nat \<Rightarrow> nat" where
  "benchmarkMessageSize protocol payload_size =
     (let topic = ''benchmark''; payload = replicate payload_size (CHR ''X'')
      in if protocol = ''RESP'' then calculateRespSize topic payload else calculateBinarySize topic payload)"

section \<open>The signing programs\<close>

definition demo_topic :: bytes where "demo_topic = ''sensors/temperature''"

abbreviation (input) dq :: bytes where "dq \<equiv> [CHR 0x22]"

definition test_payload :: bytes where
  "test_payload = ''{'' @ dq @ ''temp'' @ dq @ '':24.5,'' @ dq @ ''humidity'' @ dq @ '':62,'' @ dq @ ''device'' @ dq @ '':'' @
     dq @ ''esp32-sensor-001'' @ dq @ ''}''"

definition tampered_payload :: bytes where
  "tampered_payload = ''{'' @ dq @ ''temp'' @ dq @ '':99.9,'' @ dq @ ''hacked'' @ dq @ '':true}''"

text \<open>
  The verdicts that \<^verbatim>\<open>signed_publish_test\<close> prints, its exit status, and the two ways it can end otherwise: a
  failed assertion or an exception.
\<close>

record test_report =
  rep_key_id :: uint32
  rep_size :: nat
  rep_valid :: bool
  rep_tampered_valid :: bool
  rep_unknown_key :: bool
  rep_disabled_key :: bool
  rep_keys :: TrustedKeyStore

datatype test_outcome = Exit int "test_report option" | Abort | Throws exn

definition signed_publish_test :: "'r sodium \<Rightarrow> int \<Rightarrow> 'r \<Rightarrow> (nat \<Rightarrow> uint64) \<Rightarrow> TrustedKeyStore \<Rightarrow> test_outcome" where
  "signed_publish_test S sodium_rc rnd clock ks =
     (if \<not> fst (crypto_init sodium_rc False) then Exit 1 None
      else
        let device_keypair = generate_keypair S rnd;
            (ks1, kid) = register_key (clock 0) ks (public_key device_keypair) ''esp32-sensor-001'' ''sensors/*'';
            message_to_sign = demo_topic @ test_payload;
            signature = sign_string S message_to_sign (secret_key device_keypair);
            serialized = serialize (signed_publish_frame demo_topic test_payload signature kid 1)
        in case parse serialized of
             Inl x \<Rightarrow> Throws x
           | Inr None \<Rightarrow> Exit 1 None
           | Inr (Some (frame, bytes_consumed)) \<Rightarrow>
               if frame_command frame \<noteq> CMD_SIGNED_PUBLISH \<or> \<not> frame_is_signed frame \<or> frame_key_id frame \<noteq> kid then Abort
               else
                 let verify_message = frame_topic frame @ frame_payload frame;
                     (ks2, valid) = verify_with_key S (clock 1) ks1 (frame_key_id frame) (map byte_of_char verify_message) (frame_signature frame);
                     tampered = frame_topic frame @ tampered_payload;
                     (ks3, tampered_valid) = verify_with_key S (clock 2) ks2 (frame_key_id frame) (map byte_of_char tampered) (frame_signature frame);
                     (ks4, unknown_key) = verify_with_key S (clock 3) ks3 999 (map byte_of_char verify_message) (frame_signature frame);
                     ks5 = fst (set_enabled ks4 kid False);
                     (ks6, disabled_key) = verify_with_key S (clock 4) ks5 (frame_key_id frame) (map byte_of_char verify_message) (frame_signature frame);
                     ks7 = fst (set_enabled ks6 kid True)
                 in Exit 0 (Some \<lparr>rep_key_id = kid, rep_size = length serialized, rep_valid = valid, rep_tampered_valid = tampered_valid,
                      rep_unknown_key = unknown_key, rep_disabled_key = disabled_key, rep_keys = ks7\<rparr>))"

definition crypto_payload :: "bytes \<Rightarrow> bytes" where
  "crypto_payload temp = ''{'' @ dq @ ''device'' @ dq @ '':'' @ dq @ ''esp32-001'' @ dq @ '','' @ dq @ ''temp'' @ dq @ '':'' @ temp @
     '','' @ dq @ ''humidity'' @ dq @ '':65}''"

text \<open>\<^verbatim>\<open>crypto_demo\<close>: the exit status and the two verdicts.\<close>

definition crypto_demo :: "'r sodium \<Rightarrow> int \<Rightarrow> 'r \<Rightarrow> int \<times> (bool \<times> bool) option" where
  "crypto_demo S sodium_rc rnd =
     (if \<not> fst (crypto_init sodium_rc False) then (1, None)
      else
        let keypair = generate_keypair S rnd;
            signature = sign_string S (demo_topic @ crypto_payload ''23.5'') (secret_key keypair);
            valid = verify_string S (demo_topic @ crypto_payload ''23.5'') signature (public_key keypair);
            tampered_valid = verify_string S (demo_topic @ crypto_payload ''99.9'') signature (public_key keypair)
        in (0, Some (valid, tampered_valid)))"

section \<open>Properties\<close>

lemma to_string_nonempty: "1 \<le> length (to_string n)"
  by (subst to_string.simps) simp

text \<open>
  The size formulas of the benchmark are the lengths of what the two publishers really write, and the
  binary form of a publish is at least 13 bytes shorter than the text form, whatever the topic and payload.
\<close>

theorem size_formulas_exact:
  "calculateRespSize topic payload = length (resp_serialize (makeArray [''PUBLISH'', topic, payload])) \<and>
   calculateBinarySize topic payload = length (serialize (publish_frame topic payload n)) \<and>
   calculateBinarySize topic payload + 13 \<le> calculateRespSize topic payload"
proof (intro conjI)
  have "length (to_string (length [''PUBLISH'', topic, payload])) = 1" "length (to_string (length ''PUBLISH'')) = 1"
    by (simp_all add: to_string.simps)
  then show "calculateRespSize topic payload = length (resp_serialize (makeArray [''PUBLISH'', topic, payload]))"
    by (simp add: calculateRespSize_def makeArray_def)
  show "calculateBinarySize topic payload = length (serialize (publish_frame topic payload n))"
    by (simp add: calculateBinarySize_def serialize_split frame_defs frame_trailer_def)
  show "calculateBinarySize topic payload + 13 \<le> calculateRespSize topic payload"
    using to_string_nonempty [of "length topic"] to_string_nonempty [of "length payload"]
    by (simp add: calculateBinarySize_def calculateRespSize_def)
qed

text \<open>
  \<^verbatim>\<open>signed_publish_test\<close> against an empty registry: for every libsodium that verifies its own signatures of 64
  bytes, the frame is parsed back, the assertions hold, the signature is accepted, an unknown number and the
  disabled key are rejected, and the program exits with 0. Whether the changed payload is rejected is
  libsodium's answer alone, and the program exits with 0 for either answer.
\<close>

theorem signed_publish_test_verdicts:
  assumes "sodium_correct S" and "\<forall>m k. length (crypto_sign_detached S m k) = SIGNATURE_SIZE" and "0 \<le> rc"
  shows "\<exists>r. signed_publish_test S rc rnd clock ks_new = Exit 0 (Some r) \<and> rep_key_id r = 1 \<and> rep_valid r \<and>
    \<not> rep_unknown_key r \<and> \<not> rep_disabled_key r \<and> rep_size r = 158 \<and>
    rep_tampered_valid r = verify_string S (demo_topic @ tampered_payload)
      (sign_string S (demo_topic @ test_payload) (secret_key (generate_keypair S rnd))) (public_key (generate_keypair S rnd))"
proof -
  obtain pk sk where k: "crypto_sign_keypair S rnd = (pk, sk)" by fastforce
  let ?m = "map byte_of_char (demo_topic @ test_payload)"
  define sig where "sig = crypto_sign_detached S ?m sk"
  define f where "f = signed_publish_frame demo_topic test_payload sig 1 1"
  have len: "length demo_topic = 19" "length test_payload = 55" by (simp_all add: demo_topic_def test_payload_def)
  have v: "valid_frame f" using assms(2) len by (simp add: f_def valid_frame_eval sig_def)
  have p: "parse (serialize f) = Inr (Some (f, length (serialize f)))" using parse_serialize_gen [OF v, of "[]"] by simp
  have size: "length (serialize f) = 158"
    using length_serialize [OF v] len by (simp add: f_def frame_defs calculateFrameSize_def size_defs is_signed_cmd_def)
  have ok: "crypto_sign_verify_detached S sig ?m pk = 0"
    unfolding sig_def by (rule sodium_correct.random_pair [OF assms(1) k])
  have sels: "frame_command f = CMD_SIGNED_PUBLISH" "frame_is_signed f" "frame_key_id f = 1" "frame_topic f = demo_topic"
    "frame_payload f = test_payload" "frame_signature f = sig" by (simp_all add: f_def frame_defs)
  have sig: "sign_string S (demo_topic @ test_payload) (secret_key (generate_keypair S rnd)) = sig"
    by (simp add: sign_string_def sign_def generate_keypair_def k sig_def)
  have reg: "register_key (clock 0) ks_new (public_key (generate_keypair S rnd)) ''esp32-sensor-001'' ''sensors/*'' =
      (\<lparr>ks_keys = [(1, new_key (clock 0) pk 1 ''esp32-sensor-001'' ''sensors/*'')], ks_next_key_id = 2\<rparr>, 1)"
    by (simp add: register_key_def ks_new_def generate_keypair_def k Let_def)
  show ?thesis
    unfolding signed_publish_test_def Let_def reg prod.case sig f_def [symmetric] p sum.case option.case sels size verify_string_def
    using assms(3) ok sels(2)
    by (cases "crypto_sign_verify_detached S sig (map byte_of_char (demo_topic @ tampered_payload)) pk = 0")
      (simp_all add: crypto_init_def verify_with_key_def touch_def set_enabled_def verify_def new_key_def generate_keypair_def k
        Let_def del: map_append)
qed

theorem signed_publish_test_verdicts_witness:
  "\<exists>r. signed_publish_test sized_sodium 0 () (\<lambda>_. 5) ks_new = Exit 0 (Some r) \<and> rep_valid r \<and> \<not> rep_disabled_key r"
proof -
  have "\<forall>m k. length (crypto_sign_detached sized_sodium m k) = SIGNATURE_SIZE"
    by (simp add: sized_sodium_def SIGNATURE_SIZE_def min_def)
  from signed_publish_test_verdicts [OF sized.sodium_correct_axioms this, of 0 "()" "\<lambda>_. 5"] show ?thesis by auto
qed

end
