(* ===== verification/Metrics_Server.thy ===== *)
theory Metrics_Server
  imports Metrics
begin

text \<open>
  \<^verbatim>\<open>src/metrics_server.cpp\<close>: the HTTP endpoint around \<^verbatim>\<open>exportPrometheus\<close>. Poco's server, sockets and thread pool
  are external; what they do is the outcome of the two calls that can throw. The lemmas give the answer to every
  request and the life cycle of the server object under any sequence of calls.
\<close>

section \<open>Requests\<close>

record http_request =
  req_method :: bytes
  req_uri :: bytes

record http_response =
  resp_status :: nat
  resp_content_type :: bytes
  resp_content_length :: nat
  resp_body :: bytes

text \<open>A response object as Poco hands it over: status 200, no body.\<close>

definition http_response_new :: http_response where
  "http_response_new = \<lparr>resp_status = 200, resp_content_type = [], resp_content_length = 0, resp_body = []\<rparr>"

definition handleRequest :: "Metrics \<Rightarrow> http_request \<Rightarrow> http_response \<Rightarrow> http_response" where
  "handleRequest m request response =
     (if req_method request \<noteq> ''GET'' then response\<lparr>resp_status := 405\<rparr>
      else
        let metrics = exportPrometheus m
        in response\<lparr>resp_content_type := ''text/plain; version=0.0.4'', resp_content_length := length metrics,
             resp_status := 200, resp_body := metrics\<rparr>)"

text \<open>The factory: \<open>None\<close> is the null pointer, for which Poco answers by itself.\<close>

datatype http_handler = MetricsHandler

definition createRequestHandler :: "http_request \<Rightarrow> http_handler option" where
  "createRequestHandler request =
     (if req_uri request = ''/metrics'' \<or> req_uri request = ''/metrics/'' then Some MetricsHandler else None)"

text \<open>One request through factory and handler; \<open>no_handler\<close> is Poco's own response.\<close>

definition serve :: "(http_request \<Rightarrow> http_response) \<Rightarrow> Metrics \<Rightarrow> http_request \<Rightarrow> http_response" where
  "serve no_handler m request =
     (case createRequestHandler request of
        Some MetricsHandler \<Rightarrow> handleRequest m request http_response_new
      | None \<Rightarrow> no_handler request)"

section \<open>Life cycle\<close>

record http_params =
  max_queued :: nat
  max_threads :: nat
  keep_alive :: bool
  timeout_s :: nat

record MetricsServer =
  ms_port :: int
  ms_server :: "http_params option"
  ms_running :: bool

definition MetricsServer_new :: "int \<Rightarrow> MetricsServer" where
  "MetricsServer_new port = \<lparr>ms_port = port, ms_server = None, ms_running = False\<rparr>"

text \<open>
  Where \<^verbatim>\<open>start\<close> can be left by an exception: opening the server socket, before the server object exists, and
  starting it, after it was stored.
\<close>

datatype start_outcome = Socket_throws exn | Server_throws exn | Started

definition ms_start :: "start_outcome \<Rightarrow> MetricsServer \<Rightarrow> MetricsServer \<times> exn option" where
  "ms_start out s =
     (if ms_running s then (s, None)
      else case out of
        Socket_throws x \<Rightarrow> (s, Some x)
      | _ \<Rightarrow>
          let s1 = s\<lparr>ms_server := Some \<lparr>max_queued = 100, max_threads = 4, keep_alive = True, timeout_s = 60\<rparr>\<rparr>
          in case out of Server_throws x \<Rightarrow> (s1, Some x) | _ \<Rightarrow> (s1\<lparr>ms_running := True\<rparr>, None))"

definition ms_stop :: "MetricsServer \<Rightarrow> MetricsServer" where
  "ms_stop s =
     (if \<not> ms_running s then s
      else (if ms_server s \<noteq> None then s\<lparr>ms_server := None\<rparr> else s)\<lparr>ms_running := False\<rparr>)"

definition MetricsServer_delete :: "MetricsServer \<Rightarrow> MetricsServer" where
  "MetricsServer_delete s = ms_stop s"

definition isRunning :: "MetricsServer \<Rightarrow> bool" where
  "isRunning s = ms_running s"

datatype ms_op = Op_start start_outcome | Op_stop

fun ms_step :: "MetricsServer \<Rightarrow> ms_op \<Rightarrow> MetricsServer" where
  "ms_step s (Op_start out) = fst (ms_start out s)"
| "ms_step s Op_stop = ms_stop s"

definition ms_inv :: "MetricsServer \<Rightarrow> bool" where
  "ms_inv s \<longleftrightarrow> (ms_running s \<longrightarrow> ms_server s \<noteq> None)"

lemma ms_step_inv: "ms_inv s \<Longrightarrow> ms_inv (ms_step s op)"
  by (cases op) (auto simp: ms_inv_def ms_start_def ms_stop_def split: start_outcome.splits)

lemma ms_run_inv: "ms_inv s \<Longrightarrow> ms_inv (foldl ms_step s ops)"
  by (induction ops arbitrary: s) (auto simp: ms_step_inv)

lemma ms_stop_stopped [simp]: "\<not> ms_running (ms_stop s)"
  by (simp add: ms_stop_def)

text \<open>The abstract life cycle: a flag that a start raises when nothing throws and a stop lowers.\<close>

fun flag_step :: "bool \<Rightarrow> ms_op \<Rightarrow> bool" where
  "flag_step r (Op_start Started) = True"
| "flag_step r (Op_start _) = r"
| "flag_step r Op_stop = False"

lemma ms_step_flag: "ms_running (ms_step s op) = flag_step (ms_running s) op"
  by (cases "(ms_running s, op)" rule: flag_step.cases) (auto simp: ms_start_def ms_stop_def)

section \<open>Properties\<close>

text \<open>
  Every request is answered as the Prometheus text format asks for: a \<^verbatim>\<open>GET\<close> on the metrics path gets status 200,
  the exposition content type and the export as its body with the right length; any other method there gets 405
  and no body, and every other path is left to Poco.
\<close>

theorem metrics_endpoint:
  "(req_uri r \<in> {''/metrics'', ''/metrics/''} \<and> req_method r = ''GET'' \<longrightarrow>
      resp_status (serve nh m r) = 200 \<and> resp_body (serve nh m r) = exportPrometheus m \<and>
      resp_content_length (serve nh m r) = length (resp_body (serve nh m r)) \<and>
      resp_content_type (serve nh m r) = ''text/plain; version=0.0.4'') \<and>
   (req_uri r \<in> {''/metrics'', ''/metrics/''} \<and> req_method r \<noteq> ''GET'' \<longrightarrow>
      resp_status (serve nh m r) = 405 \<and> resp_body (serve nh m r) = []) \<and>
   (req_uri r \<notin> {''/metrics'', ''/metrics/''} \<longrightarrow> serve nh m r = nh r)"
  by (simp add: serve_def createRequestHandler_def handleRequest_def http_response_new_def Let_def)

theorem metrics_endpoint_witness:
  "resp_status (serve (\<lambda>_. http_response_new) metrics_zero \<lparr>req_method = ''POST'', req_uri = ''/metrics''\<rparr>) = 405"
  using metrics_endpoint [of "\<lparr>req_method = ''POST'', req_uri = ''/metrics''\<rparr>" "\<lambda>_. http_response_new" metrics_zero] by simp

text \<open>
  The life cycle refines a flag: after any sequence of starts, with any of them failing, and stops, the server
  reports running exactly when the last successful start was not followed by a stop, and while it reports running
  there is a server object.
\<close>

theorem metrics_server_lifecycle:
  "isRunning (foldl ms_step (MetricsServer_new port) ops) = foldl flag_step False ops \<and>
   ms_inv (foldl ms_step (MetricsServer_new port) ops)"
proof -
  have "ms_running (foldl ms_step s ops) = foldl flag_step (ms_running s) ops" for s
    by (induction ops arbitrary: s) (simp_all add: ms_step_flag)
  moreover have "ms_inv (MetricsServer_new port)" by (simp add: ms_inv_def MetricsServer_new_def)
  ultimately show ?thesis by (simp add: isRunning_def ms_run_inv) (simp add: MetricsServer_new_def)
qed

end
