(* ===== verification/Logger.thy ===== *)
theory Logger
  imports Prelude
begin

text \<open>
  \<^verbatim>\<open>src/logger.cpp\<close>: the logging singleton over spdlog, which is external. Of spdlog the model has what the source
  relies on: a logger passes a message on when its level is at least the logger's, a sink takes it when it is at
  least the sink's, creating the file sink can throw, and registering a name twice throws. The lemmas say which
  sinks get a message and what repeated or failed initialisation leaves behind.
\<close>

datatype level = Trace | Debug | Info | Warn | Err | Critical

fun level_num :: "level \<Rightarrow> nat" where
  "level_num Trace = 0"
| "level_num Debug = 1"
| "level_num Info = 2"
| "level_num Warn = 3"
| "level_num Err = 4"
| "level_num Critical = 5"

instantiation level :: linorder
begin

definition less_eq_level :: "level \<Rightarrow> level \<Rightarrow> bool" where
  "a \<le> b \<longleftrightarrow> level_num a \<le> level_num b"

definition less_level :: "level \<Rightarrow> level \<Rightarrow> bool" where
  "a < b \<longleftrightarrow> level_num a < level_num b"

instance
proof
  fix a b :: level
  show "a \<le> b \<Longrightarrow> b \<le> a \<Longrightarrow> a = b" by (cases a; cases b) (simp_all add: less_eq_level_def)
qed (auto simp: less_eq_level_def less_level_def)

end

text \<open>The static pointer, as the level of the logger it holds, spdlog's registry, and the error stream.\<close>

record Logger =
  logger_ptr :: "level option"
  registered :: bool
  log_cerr :: nat

definition logger_start :: Logger where
  "logger_start = \<lparr>logger_ptr = None, registered = False, log_cerr = 0\<rparr>"

text \<open>
  \<^verbatim>\<open>init\<close>: \<open>dirs\<close> is the outcome of creating the directory, which is not a spdlog exception and escapes, \<open>file\<close>
  that of opening the log file.
\<close>

definition Logger_init :: "exn option \<Rightarrow> bool \<Rightarrow> level \<Rightarrow> Logger \<Rightarrow> Logger \<times> exn option" where
  "Logger_init dirs file lvl s =
     (case dirs of
        Some x \<Rightarrow> (s, Some x)
      | None \<Rightarrow>
          if \<not> file then (s\<lparr>log_cerr := log_cerr s + 1\<rparr>, None)
          else
            let s1 = s\<lparr>logger_ptr := Some lvl\<rparr>
            in if registered s1 then (s1\<lparr>log_cerr := log_cerr s1 + 1\<rparr>, None)
               else (s1\<lparr>registered := True\<rparr>, None))"

definition Logger_get :: "exn option \<Rightarrow> bool \<Rightarrow> Logger \<Rightarrow> (Logger \<times> level option) \<times> exn option" where
  "Logger_get dirs file s =
     (if logger_ptr s = None then (case Logger_init dirs file Info s of (s', x) \<Rightarrow> ((s', logger_ptr s'), x))
      else ((s, logger_ptr s), None))"

datatype sink = Console | File

fun sink_level :: "sink \<Rightarrow> level" where
  "sink_level Console = Info"
| "sink_level File = Trace"

text \<open>A \<^verbatim>\<open>LOG_\<close> macro: the sinks that write the message; \<open>None\<close> when it goes through a null pointer.\<close>

definition log_message :: "level option \<Rightarrow> level \<Rightarrow> sink list option" where
  "log_message ptr l =
     (case ptr of
        None \<Rightarrow> None
      | Some lvl \<Rightarrow> Some (if lvl \<le> l then filter (\<lambda>k. sink_level k \<le> l) [Console, File] else []))"

text \<open>
  With the level that the broker's \<^verbatim>\<open>main\<close> sets, everything from debug on reaches the file, and the console gets
  what is at least informational.
\<close>

theorem broker_log_levels:
  "log_message (logger_ptr (fst (Logger_init None True Debug logger_start))) l =
     Some (if l = Trace then [] else if l = Debug then [File] else [Console, File])"
  by (cases l) (simp_all add: Logger_init_def logger_start_def log_message_def less_eq_level_def)

text \<open>
  A second initialisation is not ignored: it replaces the logger with one of the new level and only then fails to
  register it, which is reported on the error stream.
\<close>

theorem second_init_replaces:
  "logger_ptr (fst (Logger_init None True b (fst (Logger_init None True a logger_start)))) = Some b \<and>
   log_cerr (fst (Logger_init None True b (fst (Logger_init None True a logger_start)))) = 1"
  by (simp add: Logger_init_def logger_start_def)

text \<open>
  When the log file cannot be opened, \<^verbatim>\<open>get\<close> hands out a null pointer, and the logging macros go through it.
\<close>

theorem unwritable_log_crashes:
  "\<exists>s'. Logger_get None False logger_start = ((s', None), None) \<and> log_message None l = None"
  by (simp add: Logger_get_def Logger_init_def logger_start_def log_message_def)

end
