(* ===== verification/Broker_Main.thy ===== *)
theory Broker_Main
  imports Broker Metrics_Server Logger Signing
begin

text \<open>
  \<^verbatim>\<open>src/main.cpp\<close>: the start-up sequence of the broker process, the signal handler and the shutdown. The process is
  a state machine whose program counter is the statement of \<^verbatim>\<open>main\<close> reached; a signal can arrive between any two
  statements. The lemmas give the exit codes, what a clean exit leaves behind, and when a signal is lost.
\<close>

section \<open>State\<close>

text \<open>
  \<open>Killed\<close> is the default action of a signal before the handlers are installed, \<open>Aborted\<close> an exception that
  leaves \<^verbatim>\<open>main\<close>.
\<close>

datatype phase = At_logger | At_crypto | At_signals | At_metrics | At_broker | At_store | At_run | In_loop | At_stop
  | Exited int | Killed | Aborted

record 'e proc =
  pc :: phase
  g_broker :: bool
  g_shutdown_requested :: bool
  p_logger :: Logger
  p_crypto :: bool
  p_metrics :: MetricsServer
  p_broker :: "'e Broker option"

definition proc_new :: "'e proc" where
  "proc_new =
     \<lparr>pc = At_logger, g_broker = False, g_shutdown_requested = False, p_logger = logger_start, p_crypto = False,
      p_metrics = MetricsServer_new 9091, p_broker = None\<rparr>"

definition terminated :: "phase \<Rightarrow> bool" where
  "terminated ph \<longleftrightarrow> (case ph of Exited _ \<Rightarrow> True | Killed \<Rightarrow> True | Aborted \<Rightarrow> True | _ \<Rightarrow> False)"

section \<open>Signals\<close>

text \<open>The handler; it is only reached once it is installed, and a second signal ends the process with status 1.\<close>

definition signal_handler :: "'e proc \<Rightarrow> 'e proc" where
  "signal_handler p =
     (if g_shutdown_requested p then p\<lparr>pc := Exited 1\<rparr>
      else
        let p1 = p\<lparr>g_shutdown_requested := True\<rparr>
        in if g_broker p1 then p1\<lparr>p_broker := map_option stop (p_broker p1)\<rparr> else p1)"

definition handlers_installed :: "phase \<Rightarrow> bool" where
  "handlers_installed ph \<longleftrightarrow> ph \<notin> {At_logger, At_crypto, At_signals}"

definition deliver_signal :: "'e proc \<Rightarrow> 'e proc" where
  "deliver_signal p = (if handlers_installed (pc p) then signal_handler p else p\<lparr>pc := Killed\<rparr>)"

section \<open>The statements of main\<close>

text \<open>
  What the calls made by one statement answer: the logger's directory and file, \<^verbatim>\<open>sodium_init\<close>, the start of the
  metrics server, the broker's constructor (an exception or the broker), and inside \<^verbatim>\<open>run\<close> the results of
  \<^verbatim>\<open>socket\<close>, \<^verbatim>\<open>bind\<close> and \<^verbatim>\<open>listen\<close> and the next event of the accept loop.
\<close>

record 'e answers =
  an_dirs :: "exn option"
  an_file :: bool
  an_sodium :: int
  an_metrics :: start_outcome
  an_broker :: "exn + 'e Broker"
  an_fd :: int
  an_bind :: int
  an_listen :: int
  an_event :: accept_event

definition main_step :: "'e answers \<Rightarrow> 'e proc \<Rightarrow> 'e proc" where
  "main_step a p =
     (case pc p of
        At_logger \<Rightarrow>
          (case Logger_init (an_dirs a) (an_file a) Debug (p_logger p) of
             (lg, Some x) \<Rightarrow> p\<lparr>p_logger := lg, pc := Aborted\<rparr>
           | (lg, None) \<Rightarrow> p\<lparr>p_logger := lg, pc := At_crypto\<rparr>)
      | At_crypto \<Rightarrow>
          (case crypto_init (an_sodium a) (p_crypto p) of
             (False, g) \<Rightarrow> p\<lparr>p_crypto := g, pc := Exited 1\<rparr>
           | (True, g) \<Rightarrow> p\<lparr>p_crypto := g, pc := At_signals\<rparr>)
      | At_signals \<Rightarrow> p\<lparr>pc := At_metrics\<rparr>
      | At_metrics \<Rightarrow> p\<lparr>p_metrics := fst (ms_start (an_metrics a) (p_metrics p)), pc := At_broker\<rparr>
      | At_broker \<Rightarrow>
          (case an_broker a of
             Inl x \<Rightarrow> p\<lparr>pc := Aborted\<rparr>
           | Inr b \<Rightarrow> p\<lparr>p_broker := Some b, pc := At_store\<rparr>)
      | At_store \<Rightarrow> p\<lparr>g_broker := True, pc := At_run\<rparr>
      | At_run \<Rightarrow>
          (if an_fd a < 0 \<or> an_bind a < 0 \<or> an_listen a < 0 then p\<lparr>pc := At_stop\<rparr>
           else p\<lparr>p_broker := map_option (\<lambda>b. b\<lparr>server_fd := an_fd a\<rparr>) (p_broker p), pc := In_loop\<rparr>)
      | In_loop \<Rightarrow>
          (case p_broker p of
             None \<Rightarrow> p
           | Some b \<Rightarrow>
               if shutdown_requested b then p\<lparr>pc := At_stop\<rparr>
               else case accept_step b (an_event a) of
                      (b', True) \<Rightarrow> p\<lparr>p_broker := Some b'\<rparr>
                    | (b', False) \<Rightarrow> p\<lparr>p_broker := Some b', pc := At_stop\<rparr>)
      | At_stop \<Rightarrow> p\<lparr>p_metrics := ms_stop (p_metrics p), pc := Exited 0\<rparr>
      | _ \<Rightarrow> p)"

text \<open>
  The process: a statement of \<^verbatim>\<open>main\<close>, a signal, or, once the broker runs, anything its sessions make it do, which
  never touches the shutdown flag. A freshly constructed broker has not been asked to shut down.
\<close>

definition session_step :: "('e, 't) lmdb \<Rightarrow> (uint64 set \<Rightarrow> uint64 list) \<Rightarrow> (uint64 \<Rightarrow> int) \<Rightarrow> 'e Broker \<Rightarrow> 'e Broker \<Rightarrow> bool" where
  "session_step L ord lat b b' \<longleftrightarrow> broker_step L ord lat b b' \<and> shutdown_requested b' = shutdown_requested b"

inductive proc_step :: "('e, 't) lmdb \<Rightarrow> (uint64 set \<Rightarrow> uint64 list) \<Rightarrow> (uint64 \<Rightarrow> int) \<Rightarrow> 'e proc \<Rightarrow> 'e proc \<Rightarrow> bool"
  for L ord lat where
  go: "\<not> terminated (pc p) \<Longrightarrow> (\<And>b. an_broker a = Inr b \<Longrightarrow> \<not> shutdown_requested b) \<Longrightarrow> proc_step L ord lat p (main_step a p)"
| signal: "\<not> terminated (pc p) \<Longrightarrow> proc_step L ord lat p (deliver_signal p)"
| session: "pc p \<in> {In_loop, At_stop} \<Longrightarrow> p_broker p = Some b \<Longrightarrow> session_step L ord lat b b' \<Longrightarrow>
    proc_step L ord lat p (p\<lparr>p_broker := Some b'\<rparr>)"

inductive_cases proc_stepE: "proc_step L ord lat p p'"

definition proc_reachable :: "('e, 't) lmdb \<Rightarrow> (uint64 set \<Rightarrow> uint64 list) \<Rightarrow> (uint64 \<Rightarrow> int) \<Rightarrow> 'e proc \<Rightarrow> bool" where
  "proc_reachable L ord lat p = (proc_step L ord lat)\<^sup>*\<^sup>* proc_new p"

section \<open>Invariant\<close>

text \<open>
  The pointer the handler uses is only set when there is a broker, and there is one from its construction on;
  the broker is asked to stop only by a signal; and the exit status tells how the process ended.
\<close>

definition proc_inv :: "'e proc \<Rightarrow> bool" where
  "proc_inv p \<longleftrightarrow>
     (g_broker p \<longrightarrow> p_broker p \<noteq> None) \<and>
     (pc p \<in> {At_run, In_loop, At_stop} \<longrightarrow> g_broker p) \<and> (pc p = At_store \<longrightarrow> p_broker p \<noteq> None \<and> \<not> g_broker p) \<and>
     (pc p \<in> {At_logger, At_crypto, At_signals, At_metrics, At_broker} \<longrightarrow> p_broker p = None \<and> \<not> g_broker p) \<and>
     (\<forall>b. p_broker p = Some b \<longrightarrow> shutdown_requested b \<longrightarrow> g_shutdown_requested p) \<and>
     (pc p \<in> {At_logger, At_crypto, At_signals} \<longrightarrow> \<not> g_shutdown_requested p) \<and>
     ms_inv (p_metrics p) \<and>
     (pc p \<notin> {At_logger, At_crypto, Exited 1, Killed, Aborted} \<longrightarrow> p_crypto p) \<and>
     (\<forall>n. pc p = Exited n \<longrightarrow> n = 0 \<and> \<not> ms_running (p_metrics p) \<or> n = 1 \<and> (\<not> p_crypto p \<or> g_shutdown_requested p))"

lemma proc_inv_new: "proc_inv proc_new"
  by (simp add: proc_inv_def proc_new_def ms_inv_def MetricsServer_new_def)

lemma accept_shutdown [simp]: "shutdown_requested (fst (accept_step b ev)) = shutdown_requested b"
  by (simp add: accept_step_def update_metrics_def Let_def split: accept_event.split)

lemma stop_effect [simp]: "shutdown_requested (stop b)" "persistence (stop b) = None" "server_fd (stop b) = -1"
  by (simp_all add: stop_def Let_def split: option.split)

lemma ms_inv_ops: "ms_inv s \<Longrightarrow> ms_inv (fst (ms_start out s))" "ms_inv s \<Longrightarrow> ms_inv (ms_stop s)"
  using ms_step_inv [of s "Op_start out"] ms_step_inv [of s Op_stop] by simp_all

lemma proc_inv_signal: "proc_inv p \<Longrightarrow> \<not> terminated (pc p) \<Longrightarrow> proc_inv (deliver_signal p)"
  by (cases "pc p") (auto simp: proc_inv_def deliver_signal_def signal_handler_def handlers_installed_def terminated_def Let_def)

lemma proc_inv_go:
  assumes "proc_inv p" and "\<not> terminated (pc p)" and "\<And>b. an_broker a = Inr b \<Longrightarrow> \<not> shutdown_requested b"
  shows "proc_inv (main_step a p)"
proof (cases "pc p")
  case At_logger
  with assms(1) show ?thesis by (auto simp: proc_inv_def main_step_def split: prod.split option.split)
next
  case At_crypto
  with assms(1) show ?thesis by (auto simp: proc_inv_def main_step_def crypto_init_def)
next
  case At_broker
  with assms(1,3) show ?thesis by (auto simp: proc_inv_def main_step_def split: sum.split)
next
  case In_loop
  then obtain b where b: "p_broker p = Some b" using assms(1) by (auto simp: proc_inv_def)
  obtain b' c where acc: "accept_step b (an_event a) = (b', c)" by fastforce
  then have "shutdown_requested b' = shutdown_requested b" using accept_shutdown [of b "an_event a"] by simp
  with assms(1) In_loop b acc show ?thesis by (cases c) (auto simp: proc_inv_def main_step_def)
qed (use assms(1,2) in \<open>auto simp: proc_inv_def main_step_def terminated_def ms_inv_ops\<close>)

lemma proc_inv_step: "proc_step L ord lat p p' \<Longrightarrow> proc_inv p \<Longrightarrow> proc_inv p'"
proof (induction rule: proc_step.induct)
  case (session p b b')
  then show ?case by (auto simp: proc_inv_def session_step_def)
qed (simp_all add: proc_inv_go proc_inv_signal)

lemma proc_reachable_inv: "proc_reachable L ord lat p \<Longrightarrow> proc_inv p"
  unfolding proc_reachable_def by (induction rule: rtranclp_induct) (auto simp: proc_inv_new proc_inv_step)

section \<open>Properties\<close>


text \<open>The answers of a run in which every call succeeds, on the broker \<open>b\<close>.\<close>

definition all_ok :: "'e Broker \<Rightarrow> 'e answers" where
  "all_ok b =
     \<lparr>an_dirs = None, an_file = True, an_sodium = 0, an_metrics = Started, an_broker = Inr b, an_fd = 3, an_bind = 0,
      an_listen = 0, an_event = Select_timeout\<rparr>"

lemma go_ok: "\<not> terminated (pc p) \<Longrightarrow> \<not> shutdown_requested b \<Longrightarrow> proc_step L ord lat p (main_step (all_ok b) p)"
  by (rule go) (simp_all add: all_ok_def)

definition main_run :: "'e answers list \<Rightarrow> 'e proc \<Rightarrow> 'e proc" where
  "main_run as p = foldl (\<lambda>p a. main_step a p) p as"

lemma main_run_steps:
  assumes "\<not> shutdown_requested b"
  shows "(proc_step L ord lat)\<^sup>*\<^sup>* p (main_run (replicate n (all_ok b)) p)"
proof (induction n arbitrary: p)
  case (Suc n)
  have "(proc_step L ord lat)\<^sup>*\<^sup>* p (main_step (all_ok b) p)"
  proof (cases "terminated (pc p)")
    case True
    then have "main_step (all_ok b) p = p" by (cases "pc p") (simp_all add: terminated_def main_step_def)
    then show ?thesis by simp
  qed (simp add: go_ok [OF _ assms] r_into_rtranclp)
  with Suc [of "main_step (all_ok b) p"] show ?case by (simp add: main_run_def)
qed (simp add: main_run_def)


text \<open>
  (C38) Graceful shutdown: the first signal while the broker accepts connections makes the process exit with status 0
  after two more statements of \<^verbatim>\<open>main\<close>, whatever the calls answer, with the metrics server stopped, the listening
  socket closed and the store released.
\<close>

theorem graceful_shutdown:
  assumes "proc_reachable L ord lat p" and "pc p = In_loop" and "\<not> g_shutdown_requested p"
  shows "let q = main_step a2 (main_step a1 (deliver_signal p))
    in pc q = Exited 0 \<and> \<not> isRunning (p_metrics q) \<and>
       (\<exists>b. p_broker q = Some b \<and> shutdown_requested b \<and> persistence b = None \<and> server_fd b = -1)"
proof -
  have "g_broker p" "p_broker p \<noteq> None" using proc_reachable_inv [OF assms(1)] assms(2) by (auto simp: proc_inv_def)
  then show ?thesis
    using assms(2,3)
    by (auto simp: deliver_signal_def handlers_installed_def signal_handler_def main_step_def isRunning_def Let_def)
qed

theorem graceful_shutdown_witness:
  "pc (main_step (all_ok (broker_new (rbt_lmdb (\<lambda>_. False)) RBT.empty)) (main_step (all_ok (broker_new (rbt_lmdb (\<lambda>_. False)) RBT.empty))
     (deliver_signal (main_run (replicate 7 (all_ok (broker_new (rbt_lmdb (\<lambda>_. False)) RBT.empty))) proc_new)))) = Exited 0"
proof -
  let ?b = "broker_new (rbt_lmdb (\<lambda>_. False)) RBT.empty"
  let ?p = "main_run (replicate 7 (all_ok ?b)) proc_new"
  have "proc_reachable (rbt_lmdb (\<lambda>_. False)) sorted_list_of_set (\<lambda>_. 0) ?p"
    unfolding proc_reachable_def by (rule main_run_steps) (simp add: broker_new_def)
  moreover have "pc ?p = In_loop" "\<not> g_shutdown_requested ?p"
    by (simp_all add: main_run_def numeral_eq_Suc main_step_def proc_new_def all_ok_def Logger_init_def logger_start_def
        crypto_init_def Let_def)
  ultimately show ?thesis using graceful_shutdown by (metis (mono_tags, lifting))
qed

text \<open>
  A signal is lost between the installation of the handlers and the store of the broker pointer: it only sets the
  flag. The process can then go on to accept connections with the broker not asked to stop, and the next signal,
  taken for a second one, ends it at once with status 1, the metrics server running and the store still open.
\<close>

theorem early_signal_lost:
  fixes p :: "'e proc" and b :: "'e Broker"
  assumes "proc_reachable L ord lat p" and "pc p \<in> {At_metrics, At_broker, At_store}" and "\<not> g_shutdown_requested p"
    and "\<not> shutdown_requested b"
  shows "\<exists>q c. (proc_step L ord lat)\<^sup>*\<^sup>* (deliver_signal p) q \<and> pc q = In_loop \<and> p_broker q = Some c \<and>
    g_shutdown_requested q \<and> \<not> shutdown_requested c \<and>
    pc (deliver_signal q) = Exited 1 \<and> p_metrics (deliver_signal q) = p_metrics q \<and> p_broker (deliver_signal q) = Some c"
proof -
  define q where "q n = main_run (replicate n (all_ok b)) (deliver_signal p)" for n
  have inv: "proc_inv p" by (rule proc_reachable_inv [OF assms(1)])
  obtain n c where "pc (q n) = In_loop" "p_broker (q n) = Some c" "\<not> shutdown_requested c" "g_shutdown_requested (q n)"
  proof -
    have "pc p = At_metrics \<or> pc p = At_broker \<or> pc p = At_store" using assms(2) by auto
    then have "\<exists>n c. pc (q n) = In_loop \<and> p_broker (q n) = Some c \<and> \<not> shutdown_requested c \<and> g_shutdown_requested (q n)"
      using inv assms(3,4)
      by (elim disjE; intro exI [of _ "if pc p = At_metrics then 4 else if pc p = At_broker then 3 else 2"])
        (auto simp: q_def main_run_def deliver_signal_def handlers_installed_def signal_handler_def main_step_def all_ok_def
          proc_inv_def numeral_eq_Suc Let_def)
    then show ?thesis using that by blast
  qed
  moreover have "(proc_step L ord lat)\<^sup>*\<^sup>* (deliver_signal p) (q n)"
    unfolding q_def by (rule main_run_steps [OF assms(4)])
  ultimately show ?thesis
    by (intro exI [of _ "q n"] exI [of _ c])
      (simp add: deliver_signal_def [of "q n"] handlers_installed_def signal_handler_def)
qed

theorem early_signal_lost_witness:
  "\<exists>q c. pc q = In_loop \<and> p_broker q = Some c \<and> \<not> shutdown_requested c \<and> g_shutdown_requested q \<and>
     (proc_step (rbt_lmdb (\<lambda>_. False)) sorted_list_of_set (\<lambda>_. 0))\<^sup>*\<^sup>*
       (deliver_signal (main_run (replicate 3 (all_ok (broker_new (rbt_lmdb (\<lambda>_. False)) RBT.empty))) proc_new)) q"
proof -
  let ?b = "broker_new (rbt_lmdb (\<lambda>_. False)) RBT.empty"
  let ?p = "main_run (replicate 3 (all_ok ?b)) proc_new"
  have b: "\<not> shutdown_requested ?b" by (simp add: broker_new_def)
  have "proc_reachable (rbt_lmdb (\<lambda>_. False)) sorted_list_of_set (\<lambda>_. 0) ?p"
    unfolding proc_reachable_def by (rule main_run_steps [OF b])
  moreover have "pc ?p = At_metrics" "\<not> g_shutdown_requested ?p"
    by (simp_all add: main_run_def numeral_eq_Suc main_step_def proc_new_def all_ok_def Logger_init_def logger_start_def
        crypto_init_def Let_def)
  ultimately show ?thesis using early_signal_lost [OF _ _ _ b] by fastforce
qed

end
