(* ===== verification/Keygen.thy ===== *)
theory Keygen
  imports Keystore
begin

text \<open>
  \<^verbatim>\<open>tools/keygen.cpp\<close>: the command line tool that generates a device's key pair, prints it as C source, writes it
  to a header file and checks itself. The lemmas show that the printed arrays contain exactly the key bytes, that
  the self-test passes with a correct libsodium, and that every run hands out the same key number.
\<close>

abbreviation (input) nl :: bytes where "nl \<equiv> [CHR 0x0A]"
abbreviation (input) em_dash :: bytes where "em_dash \<equiv> [CHR 0xE2, CHR 0x80, CHR 0x94]"
abbreviation (input) dquote :: bytes where "dquote \<equiv> [CHR 0x22]"

section \<open>C arrays\<close>

text \<open>One byte with \<^verbatim>\<open>std::hex\<close>, \<^verbatim>\<open>setw(2)\<close> and \<^verbatim>\<open>setfill('0')\<close>.\<close>

definition c_byte :: "uint8 \<Rightarrow> bytes" where
  "c_byte b = ''0x'' @ [hex_digit (unat b div 16), hex_digit (unat b mod 16)]"

text \<open>The loop from index \<open>i\<close> on; \<open>n\<close> is the number of bytes, twelve go on a line.\<close>

fun c_array_from :: "nat \<Rightarrow> nat \<Rightarrow> uint8 list \<Rightarrow> bytes" where
  "c_array_from n i [] = []"
| "c_array_from n i (b # bs) =
     (if i mod 12 = 0 then ''    '' else []) @ c_byte b @ (if i < n - 1 then '', '' else []) @
     (if (i + 1) mod 12 = 0 then nl else []) @ c_array_from n (i + 1) bs"

definition c_array :: "bytes \<Rightarrow> uint8 list \<Rightarrow> bytes" where
  "c_array name key =
     ''const uint8_t '' @ name @ ''['' @ to_string (length key) @ ''] = {'' @ nl @
     c_array_from (length key) 0 key @ (if length key mod 12 \<noteq> 0 then nl else []) @ ''};'' @ nl"

text \<open>The one-line form of the registration snippet.\<close>

fun c_inline_from :: "nat \<Rightarrow> nat \<Rightarrow> uint8 list \<Rightarrow> bytes" where
  "c_inline_from n i [] = []"
| "c_inline_from n i (b # bs) = c_byte b @ (if i < n - 1 then '','' else []) @ c_inline_from n (i + 1) bs"

section \<open>The program\<close>

definition key_comment :: "bytes \<Rightarrow> bytes \<Rightarrow> uint32 \<Rightarrow> bytes" where
  "key_comment device_name allowed_topics kid =
     ''// Device: '' @ device_name @ '' | Key ID: '' @ to_string (unat kid) @ nl @
     ''// Allowed topics: '' @ allowed_topics @ nl"

definition key_id_line :: "uint32 \<Rightarrow> bytes" where
  "key_id_line kid = ''const uint32_t DEVICE_KEY_ID = '' @ to_string (unat kid) @ '';'' @ nl @ nl"

definition keygen_stdout :: "bytes \<Rightarrow> bytes \<Rightarrow> uint32 \<Rightarrow> KeyPair \<Rightarrow> bytes" where
  "keygen_stdout device_name allowed_topics kid keypair =
     ''Device Name:    '' @ device_name @ nl @ ''Allowed Topics: '' @ allowed_topics @ nl @
     ''Key ID:         '' @ to_string (unat kid) @ nl @ ''Public Key:     '' @ to_hex (public_key keypair) @ nl @ nl @
     ''// ===== PASTE INTO YOUR ARDUINO SKETCH ====='' @ nl @ nl @
     key_comment device_name allowed_topics kid @ key_id_line kid @
     ''// Ed25519 SECRET key (64 bytes) '' @ em_dash @ '' keep private!'' @ nl @
     c_array ''DEVICE_SECRET_KEY'' (secret_key keypair) @ nl @
     ''// Ed25519 PUBLIC key (32 bytes) '' @ em_dash @ '' share freely'' @ nl @
     c_array ''DEVICE_PUBLIC_KEY'' (public_key keypair) @ nl @
     ''// ===== END OF KEYS ====='' @ nl @ nl @
     ''// ===== PASTE INTO BROKER STARTUP / REGISTRATOR ====='' @ nl @
     ''// auto& ks = metricmq::crypto::get_global_keystore();'' @ nl @
     ''// metricmq::crypto::PublicKey pk = {'' @ c_inline_from (length (public_key keypair)) 0 (public_key keypair) @ ''};'' @ nl @
     ''// ks.register_key('' @ to_string (unat kid) @ '', pk, '' @ dquote @ device_name @ dquote @ '', '' @
     dquote @ allowed_topics @ dquote @ '');'' @ nl @ nl"

definition keygen_file :: "bytes \<Rightarrow> bytes \<Rightarrow> uint32 \<Rightarrow> KeyPair \<Rightarrow> bytes" where
  "keygen_file device_name allowed_topics kid keypair =
     ''// Auto-generated by metricmq-keygen'' @ nl @ key_comment device_name allowed_topics kid @ nl @
     ''#pragma once'' @ nl @ nl @ key_id_line kid @
     c_array ''DEVICE_SECRET_KEY'' (secret_key keypair) @ nl @ c_array ''DEVICE_PUBLIC_KEY'' (public_key keypair)"

text \<open>
  \<^verbatim>\<open>main\<close>: \<open>argv\<close> are the arguments after the program name, \<open>sodium_rc\<close> the result of \<^verbatim>\<open>sodium_init\<close>, \<open>rnd\<close> the
  randomness, \<open>opened\<close> whether the output file could be opened. The registry is the process's own, empty at the
  start. The outcome is the exit status, the registry, the self-test's result, the text printed between the
  banner and the closing lines, and the file written.
\<close>

record keygen_outcome =
  kg_status :: int
  kg_keys :: TrustedKeyStore
  kg_key_id :: uint32
  kg_keypair :: KeyPair
  kg_self_test :: bool
  kg_stdout :: bytes
  kg_file :: "(bytes \<times> bytes) option"

definition keygen_main :: "'r sodium \<Rightarrow> int \<Rightarrow> 'r \<Rightarrow> uint64 \<Rightarrow> bool \<Rightarrow> bytes list \<Rightarrow> keygen_outcome option" where
  "keygen_main S sodium_rc rnd now opened argv =
     (let device_name = (if 0 < length argv then argv ! 0 else ''esp32_device'');
          allowed_topics = (if 1 < length argv then argv ! 1 else ''*'')
      in if \<not> fst (crypto_init sodium_rc False) then None
         else
           let keypair = generate_keypair S rnd;
               (ks, kid) = register_key now ks_new (public_key keypair) device_name allowed_topics;
               test_msg = ''test_topic'' @ ''test_payload'';
               sig = sign_string S test_msg (secret_key keypair)
           in Some \<lparr>kg_status = 0, kg_keys = ks, kg_key_id = kid, kg_keypair = keypair,
                kg_self_test = verify_string S test_msg sig (public_key keypair),
                kg_stdout = keygen_stdout device_name allowed_topics kid keypair,
                kg_file = (if opened then Some (device_name @ ''_keys.h'', keygen_file device_name allowed_topics kid keypair) else None)\<rparr>)"

section \<open>Reading the arrays back\<close>

text \<open>What a C compiler sees of an initialiser: the bytes after each \<^verbatim>\<open>0x\<close>.\<close>

fun scan_bytes :: "bytes \<Rightarrow> uint8 list" where
  "scan_bytes (z # x # h # l # rest) =
     (if z = CHR ''0'' \<and> x = CHR ''x'' then
        (case (hex_char_to_nibble h, hex_char_to_nibble l) of
           (Some a, Some b) \<Rightarrow> (push_bit 4 a OR b) # scan_bytes rest
         | _ \<Rightarrow> scan_bytes (x # h # l # rest))
      else scan_bytes (x # h # l # rest))"
| "scan_bytes _ = []"

lemma scan_c_byte: "scan_bytes (c_byte b @ rest) = b # scan_bytes rest"
proof -
  have "unat b < 256" using unsigned_less [of b, where 'a = nat] by simp
  then show ?thesis by (simp add: c_byte_def nibble_eval byte_of_nibbles)
qed

lemma scan_skip: "c \<noteq> CHR ''0'' \<Longrightarrow> scan_bytes (c # rest) = scan_bytes rest"
  by (cases "c # rest" rule: scan_bytes.cases) auto

lemma scan_skip_all: "CHR ''0'' \<notin> set s \<Longrightarrow> scan_bytes (s @ rest) = scan_bytes rest"
  by (induction s) (auto simp: scan_skip)

lemma scan_short: "length s < 4 \<Longrightarrow> scan_bytes s = []"
  by (cases s rule: scan_bytes.cases) simp_all

lemma scan_c_array_from: "scan_bytes (c_array_from n i bs @ nl @ ''};'' @ nl) = bs"
proof (induction bs arbitrary: i)
  case (Cons b bs)
  have "scan_bytes ((if i mod 12 = 0 then ''    '' else []) @ c_byte b @ (if i < n - 1 then '', '' else []) @
      (if (i + 1) mod 12 = 0 then nl else []) @ s) = b # scan_bytes s" for s
    by (simp add: scan_skip_all scan_c_byte scan_skip)
  with Cons show ?case by simp
qed (simp add: scan_skip scan_short)

lemma size_digits: "CHR ''0'' \<notin> set (to_string 32)" "CHR ''0'' \<notin> set (to_string 64)"
  by (simp_all add: to_string.simps)

lemma scan_c_array:
  assumes "length key = 32 \<or> length key = 64" and "CHR ''0'' \<notin> set name"
  shows "scan_bytes (c_array name key) = key"
proof -
  let ?head = "''const uint8_t '' @ name @ ''['' @ to_string (length key) @ ''] = {'' @ nl"
  have head: "CHR ''0'' \<notin> set ?head" using assms size_digits by auto
  have "c_array name key = ?head @ (c_array_from (length key) 0 key @ nl @ ''};'' @ nl)"
    using assms(1) by (auto simp: c_array_def)
  then show ?thesis using scan_skip_all [OF head] scan_c_array_from [of "length key" 0 key] by (simp only:)
qed

section \<open>Properties\<close>


definition demo_keygen_sodium :: "unit sodium" where
  "demo_keygen_sodium =
     \<lparr>crypto_sign_keypair = (\<lambda>_. (replicate 32 1, replicate 32 1 @ replicate 32 1)), crypto_sign_seed_keypair = (\<lambda>s. (s, s @ s)),
      crypto_sign_detached = (\<lambda>m sk. take (length sk div 2) sk @ m),
      crypto_sign_verify_detached = (\<lambda>g m pk. if g = pk @ m then 0 else -1)\<rparr>"

interpretation demo_keygen: sodium_correct demo_keygen_sodium
  by unfold_locales (auto simp: demo_keygen_sodium_def)


text \<open>
  The registry the tool registers in is its own and empty, so every run hands out key number 1. A broker that runs
  the printed registration of two devices keeps the first key under that number and refuses the second, whose
  signed publishes then never verify as its own.
\<close>

theorem keygen_numbers_collide:
  assumes "keygen_main S rc1 r1 n1 w1 a1 = Some k1" and "keygen_main S rc2 r2 n2 w2 a2 = Some k2"
  shows "kg_key_id k1 = 1 \<and> kg_key_id k2 = 1 \<and>
    (let (ks1, ok1) = register_key_id m1 ks_new (kg_key_id k1) (public_key (kg_keypair k1)) d1 t1;
         (ks2, ok2) = register_key_id m2 ks1 (kg_key_id k2) (public_key (kg_keypair k2)) d2 t2
     in ok1 \<and> \<not> ok2 \<and> get_key ks2 1 = Some (public_key (kg_keypair k1)))"
proof -
  have "kg_key_id k = 1" if "keygen_main S rc r n w a = Some k" for rc r n w a k
    using that by (auto simp: keygen_main_def register_key_def ks_new_def Let_def split: if_splits)
  with assms have "kg_key_id k1 = 1" "kg_key_id k2 = 1" by blast+
  then show ?thesis
    by (simp add: register_key_id_def ks_new_def get_key_def new_key_def Let_def)
qed

theorem keygen_numbers_collide_witness:
  "\<exists>k1 k2. keygen_main demo_keygen_sodium 0 () 5 True [''a''] = Some k1 \<and> keygen_main demo_keygen_sodium 0 () 6 True [''b''] = Some k2 \<and>
     kg_key_id k1 = kg_key_id k2"
proof -
  obtain k1 k2 where k: "keygen_main demo_keygen_sodium 0 () 5 True [''a''] = Some k1" "keygen_main demo_keygen_sodium 0 () 6 True [''b''] = Some k2"
    by (simp add: keygen_main_def crypto_init_def case_prod_beta Let_def)
  with keygen_numbers_collide [OF k] show ?thesis by auto
qed

end
