(* ===== verification/Demos.thy ===== *)
theory Demos
  imports Delivery Queue_Client
begin

text \<open>
  The example programs that talk to a running broker: \<^verbatim>\<open>examples/pub_only.cpp\<close>, \<^verbatim>\<open>sub_only.cpp\<close>, \<^verbatim>\<open>binary_pub_only.cpp\<close>,
  \<^verbatim>\<open>binary_sub_only.cpp\<close>, \<^verbatim>\<open>push_only.cpp\<close>, \<^verbatim>\<open>pull_only.cpp\<close>, \<^verbatim>\<open>pubsub_raw_tcp.cpp\<close> and \<^verbatim>\<open>persistence_test.cpp\<close>, each as a function
  of the network and of what it receives. The lemmas run a sending and a receiving program against the composed
  server and show what the receiver prints.
\<close>

section \<open>The sending programs\<close>

text \<open>
  The loop that all of them have: send a message, print a line. \<open>send k\<close> is the \<open>k\<close>-th call, which may throw out of
  the loop.
\<close>

fun send_each :: "(nat \<Rightarrow> 'p \<times> io \<Rightarrow> bytes \<Rightarrow> ('p \<times> io) \<times> exn option) \<Rightarrow> (bytes \<Rightarrow> bytes) \<Rightarrow> nat \<Rightarrow> 'p \<times> io \<Rightarrow> bytes list
    \<Rightarrow> ('p \<times> io) \<times> exn option" where
  "send_each send line k st [] = (st, None)"
| "send_each send line k st (m # ms) =
     (case send k st m of
        (st', Some x) \<Rightarrow> (st', Some x)
      | ((p, i), None) \<Rightarrow> send_each send line (k + 1) (p, cout (line m) i) ms)"

text \<open>What follows the loop: a last line and the destructor, unless an exception ended the program.\<close>

definition finish :: "('p \<times> io \<Rightarrow> io) \<Rightarrow> bytes \<Rightarrow> ('p \<times> io) \<times> exn option \<Rightarrow> io \<times> exn option" where
  "finish delete line out =
     (case out of
        ((p, i), None) \<Rightarrow> (delete (p, cout line i), None)
      | ((p, i), Some x) \<Rightarrow> (i, Some x))"

abbreviation (input) sq :: bytes where "sq \<equiv> [CHR 0x27]"
abbreviation (input) localhost :: bytes where "localhost \<equiv> ''127.0.0.1''"

definition pub_only :: "net \<Rightarrow> io \<times> exn option" where
  "pub_only N =
     finish Publisher_delete (newline @ ''Done! Press Enter to exit...'' @ newline)
       (send_each (\<lambda>_ st msg. (Publisher_send N st ''chat'' msg, None)) (\<lambda>msg. ''[SENT] chat: '' @ msg @ newline) 0
          (Publisher_new N localhost 6379
             (cout (''=== Publisher Only Demo ==='' @ newline @ ''Sending messages on topic '' @ sq @ ''chat'' @ sq @ ''...'' @
                newline @ newline) io_new))
          (map (\<lambda>i. ''Message #'' @ to_string i @ '' from publisher'') [1..<11]))"

text \<open>\<open>replies k\<close> is what the publisher's \<^verbatim>\<open>recv\<close> returns after its \<open>k\<close>-th frame.\<close>

definition binary_pub_only :: "net \<Rightarrow> (nat \<Rightarrow> bytes option) \<Rightarrow> io \<times> exn option" where
  "binary_pub_only N replies =
     finish BinaryPublisher_delete (newline @ ''Done! Press Enter to exit...'' @ newline)
       (send_each (\<lambda>k st msg. BinaryPublisher_send N (replies k) st ''chat'' msg) (\<lambda>msg. ''[SENT] chat: '' @ msg @ newline) 0
          (BinaryPublisher_new N localhost 6379
             (cout (''=== Binary Protocol Publisher ==='' @ newline @ ''Sending messages on topic '' @ sq @ ''chat'' @ sq @ ''...'' @
                newline @ newline) io_new))
          (map (\<lambda>i. ''Binary Message #'' @ to_string i) [1..<11]))"

definition push_only :: "net \<Rightarrow> (nat \<Rightarrow> bytes option) \<Rightarrow> io \<times> exn option" where
  "push_only N replies =
     finish QueueProducer_delete (newline @ ''Done! Press Enter to exit...'' @ newline)
       (send_each (\<lambda>k st task. queue_push N (replies k) st ''tasks'' task) (\<lambda>task. ''[PUSHED] tasks: '' @ task @ newline) 0
          (QueueProducer_new N localhost 6379
             (cout (''=== Queue Producer (PUSH) ==='' @ newline @ ''Pushing tasks to queue '' @ sq @ ''tasks'' @ sq @ ''...'' @
                newline @ newline) io_new))
          (map (\<lambda>i. ''task_'' @ to_string i) [1..<11]))"

section \<open>The receiving programs\<close>

text \<open>
  The state of the callback is what it has printed. A value is what was done, what the callback printed, and the
  exception that left the subscribe call, if any.
\<close>

definition leave :: "('c \<times> io \<Rightarrow> io) \<Rightarrow> ('c, 'u) client \<times> exn option \<Rightarrow> io \<times> 'u \<times> exn option" where
  "leave delete out = (case out of ((c, i, u), x) \<Rightarrow> (if x = None then delete (c, i) else i, u, x))"

definition received_line :: "bytes \<Rightarrow> bytes \<Rightarrow> bytes \<Rightarrow> bytes \<times> exn option" where
  "received_line u topic payload = (u @ ''[RECEIVED] '' @ topic @ '': '' @ payload @ newline, None)"

definition sub_only :: "net \<Rightarrow> bytes list \<Rightarrow> (io \<times> bytes \<times> exn option) option" where
  "sub_only N chunks =
     (let (s, i) = Subscriber_new N localhost 6379
            (cout (''=== Subscriber Only Demo ==='' @ newline @ ''Listening on topic '' @ sq @ ''chat'' @ sq @ '' (Ctrl+C to stop)...'' @
               newline @ newline) io_new)
      in map_option (leave Subscriber_delete) (Subscriber_subscribe N received_line (s, i, []) ''chat'' chunks))"

definition binary_sub_only :: "net \<Rightarrow> bytes list \<Rightarrow> (io \<times> bytes \<times> exn option) option" where
  "binary_sub_only N chunks =
     (let (s, i) = BinarySubscriber_new N localhost 6379
            (cout (''=== Binary Protocol Subscriber ==='' @ newline @ ''Listening on topic '' @ sq @ ''chat'' @ sq @ '' (Ctrl+C to stop)...'' @
               newline @ newline) io_new)
      in map_option (leave BinarySubscriber_delete) (BinarySubscriber_subscribe N received_line (s, i, []) ''chat'' True chunks))"

definition pull_only :: "net \<Rightarrow> bytes list \<Rightarrow> (io \<times> bytes \<times> exn option) option" where
  "pull_only N chunks =
     (let (c, i) = QueueConsumer_new N localhost 6379
            (cout (''=== Queue Consumer (PULL) ==='' @ newline @ ''Pulling tasks from queue '' @ sq @ ''tasks'' @ sq @ '' (Ctrl+C to stop)...'' @
               newline @ newline) io_new)
      in map_option (leave QueueConsumer_delete)
           (queue_pull N (\<lambda>u payload. (u @ ''[PULLED] '' @ payload @ newline, None)) (c, i, []) ''tasks'' chunks))"

section \<open>The programs with both sides\<close>

text \<open>How a process ends: with a status, or by \<^verbatim>\<open>std::terminate\<close>.\<close>

datatype exit_status = Exited int | Terminated

text \<open>
  \<^verbatim>\<open>pubsub_raw_tcp.cpp\<close>: the main thread, and what the subscriber thread does until its connection ends. The thread
  is neither joined nor detached, so its destructor, which runs after the publisher's, terminates the program.
\<close>

definition pubsub_raw_tcp :: "net \<Rightarrow> io \<times> exit_status" where
  "pubsub_raw_tcp N =
     (fst (finish Publisher_delete (newline @ ''Press Enter to stop...'' @ newline)
       (send_each (\<lambda>_ st msg. (Publisher_send N st ''test'' msg, None)) (\<lambda>msg. ''Sent: '' @ msg @ newline) 0
          (Publisher_new N localhost 6379 (cout (''PUB/SUB Raw TCP Demo'' @ newline @ newline) io_new))
          (map (\<lambda>i. ''Hello #'' @ to_string i) [1..<11]))), Terminated)"

definition raw_tcp_line :: "bytes \<Rightarrow> bytes \<Rightarrow> bytes \<Rightarrow> bytes \<times> exn option" where
  "raw_tcp_line u topic payload = (u @ ''Received ['' @ topic @ '']: '' @ payload @ newline, None)"

definition raw_tcp_sub_thread :: "net \<Rightarrow> bytes list \<Rightarrow> ((Subscriber, bytes) client \<times> exn option) option" where
  "raw_tcp_sub_thread N chunks =
     (let (s, i) = Subscriber_new N localhost 6379 io_new in Subscriber_subscribe N raw_tcp_line (s, i, []) ''test'' chunks)"

text \<open>
  \<^verbatim>\<open>persistence_test.cpp\<close>: the publishing half, and the subscribing half with its counter. The callback ends the
  process at the fifth message; otherwise the status is decided when the subscribe call has returned.
\<close>

definition persistence_test_pub :: "net \<Rightarrow> (Publisher \<times> io) \<times> exn option" where
  "persistence_test_pub N =
     send_each (\<lambda>_ st msg. (Publisher_send N st ''test/persistence'' msg, None)) (\<lambda>msg. ''   Published: '' @ msg @ newline) 0
       (Publisher_new N ''localhost'' 6379
          (cout (''=== Persistence Test ==='' @ newline @ ''1. Publishing 5 messages to '' @ sq @ ''test/persistence'' @ sq @ '' topic'' @
             newline) io_new))
       (map (\<lambda>i. ''Message '' @ to_string i) [1..<6])"

definition count_to_five :: "nat \<times> bytes \<Rightarrow> bytes \<Rightarrow> bytes \<Rightarrow> (nat \<times> bytes) \<times> exn option" where
  "count_to_five u topic payload =
     (let count = fst u + 1; line = snd u @ ''   Received ['' @ to_string count @ '']: '' @ payload @ newline
      in if 5 \<le> count
         then ((count, line @ newline @ [CHR 0xE2, CHR 0x9C, CHR 0x85] @ '' SUCCESS: Received all 5 messages from persistence!'' @ newline),
               Some (Process_exit 0))
         else ((count, line), None))"

definition persistence_test_sub :: "net \<Rightarrow> bytes list \<Rightarrow> (bytes \<times> exit_status) option" where
  "persistence_test_sub N chunks =
     (let (s, i) = Subscriber_new N ''localhost'' 6379
            (cout (newline @ ''2. Subscribing to '' @ sq @ ''test/persistence'' @ sq @ '' topic'' @ newline @
               ''   Expected: Should receive all 5 messages (replayed from persistence)'' @ newline) io_new)
      in case Subscriber_subscribe N count_to_five (s, i, (0, [])) ''test/persistence'' chunks of
           None \<Rightarrow> None
         | Some ((_, _, count, out), Some (Process_exit c)) \<Rightarrow> Some (out, Exited c)
         | Some ((_, _, count, out), Some _) \<Rightarrow> Some (out, Terminated)
         | Some ((_, _, count, out), None) \<Rightarrow>
             if count < 5
             then Some (out @ newline @ [CHR 0xE2, CHR 0x9D, CHR 0x8C] @ '' FAILED: Only received '' @ to_string count @ '' out of 5 messages'' @
                    newline, Exited 1)
             else Some (out, Exited 0))"

section \<open>From bytes to histories\<close>

text \<open>The events that the bytes written by a client cause, once its connection is accepted.\<close>

definition text_session :: "session_id \<Rightarrow> bytes \<Rightarrow> (session_id \<times> input) list" where
  "text_session i out =
     (i, Connect 0) # (case recv_chunks resp_parse collect [] [] [out] of Some (vs, _, _) \<Rightarrow> map (\<lambda>v. (i, Command v)) vs | None \<Rightarrow> [])"

definition binary_session :: "session_id \<Rightarrow> bytes \<Rightarrow> (session_id \<times> input) list" where
  "binary_session i out =
     (i, Connect 0) # (case recv_chunks parse collect [] [] [out] of Some (fs, _, _) \<Rightarrow> map (\<lambda>f. (i, Frame f)) fs | None \<Rightarrow> [])"

text \<open>What the broker writes to \<open>r\<close> over a history from an empty start.\<close>

definition stream_to :: "('e, 't, 'r) ambient \<Rightarrow> 'e \<Rightarrow> TrustedKeyStore \<Rightarrow> (session_id \<times> input) list \<Rightarrow> session_id \<Rightarrow> bytes" where
  "stream_to A e keys evs r = wire r (sent (sys_broker (sv_sys (server_run A (server_start (amb_lmdb A) e keys) evs))))"

lemma text_session_eq:
  assumes "list_all valid_resp vs"
  shows "text_session i (concat (map resp_serialize vs)) = (i, Connect 0) # map (\<lambda>v. (i, Command v)) vs"
  using resp_codec.chunks_collect [OF assms, of "[concat (map resp_serialize vs)]"] by (simp add: text_session_def)

lemma binary_session_eq:
  assumes "list_all valid_frame fs"
  shows "binary_session i (concat (map serialize fs)) = (i, Connect 0) # map (\<lambda>f. (i, Frame f)) fs"
  using binary_codec.chunks_collect [OF assms, of "[concat (map serialize fs)]"] by (simp add: binary_session_def)

text \<open>A network on which connecting succeeds and every send takes all of its data.\<close>

definition works :: "net \<Rightarrow> bool" where
  "works N \<longleftrightarrow> sends_all N \<and> net_socket N \<noteq> -1 \<and> (\<forall>s a p. net_connect N s a p \<noteq> -1)"

lemma works_open: "works N \<Longrightarrow> open_connection N name greeting host port i = (net_socket N, cout greeting (fd_open (net_socket N) i))"
  by (simp add: works_def open_connection_def Let_def)

text \<open>The bytes of the sending loops.\<close>

fun encoded :: "('p \<Rightarrow> bytes \<Rightarrow> bytes) \<Rightarrow> ('p \<Rightarrow> 'p) \<Rightarrow> 'p \<Rightarrow> bytes list \<Rightarrow> bytes list" where
  "encoded enc nxt p [] = []"
| "encoded enc nxt p (m # ms) = enc p m # encoded enc nxt (nxt p) ms"

lemma send_each_out:
  assumes "sends_all N" and "\<And>k p i m. P p \<Longrightarrow> send k (p, i) m = ((nxt p, sock_send N (enc p m) i), None)" and "\<And>p. P p \<Longrightarrow> P (nxt p)"
  shows "P p \<Longrightarrow> \<exists>p' i'. send_each send line k (p, i) ms = ((p', i'), None) \<and> io_out i' = io_out i @ concat (encoded enc nxt p ms)"
proof (induction ms arbitrary: k p i)
  case (Cons m ms)
  from Cons.IH [OF assms(3) [OF Cons.prems], of "k + 1" "cout (line m) (sock_send N (enc p m) i)"] Cons.prems show ?case
    by (simp add: assms(1,2))
qed simp

lemma encoded_text: "encoded (\<lambda>p m. resp_serialize (makeArray [''PUBLISH'', t, m])) (\<lambda>p. p) p ms =
    map resp_serialize (map (\<lambda>m. makeArray [''PUBLISH'', t, m]) ms)"
  by (induction ms) simp_all

fun numbered_publishes :: "bytes \<Rightarrow> uint64 \<Rightarrow> bytes list \<Rightarrow> BinaryFrame list" where
  "numbered_publishes t q [] = []"
| "numbered_publishes t q (m # ms) = publish_frame t m (q + 1) # numbered_publishes t (q + 1) ms"

lemma published_numbered: "map (\<lambda>f. (i, Frame f)) (numbered_publishes t q ms) = published i q (map (Pair t) ms)"
  by (induction t q ms rule: numbered_publishes.induct) simp_all

lemma numbered_publishes_valid:
  "length t \<le> 200 \<Longrightarrow> list_all (\<lambda>m. length m \<le> 200) ms \<Longrightarrow> list_all valid_frame (numbered_publishes t q ms)"
  by (induction t q ms rule: numbered_publishes.induct) (auto simp: valid_frame_eval)

lemma encoded_binary:
  "(\<And>p. seq (nxt p) = seq p + 1) \<Longrightarrow>
   encoded (\<lambda>p m. serialize (publish_frame t m (seq p + 1))) nxt p ms = map serialize (numbered_publishes t (seq p) ms)"
  by (induction ms arbitrary: p) simp_all

section \<open>What the programs write\<close>

lemma close_out [simp]:
  "io_out (Publisher_delete p) = io_out (snd p)" "io_out (BinaryPublisher_delete bp) = io_out (snd bp)"
  "io_out (QueueProducer_delete qp) = io_out (snd qp)" "io_out (Subscriber_delete sb) = io_out (snd sb)"
  "io_out (BinarySubscriber_delete bs) = io_out (snd bs)" "io_out (QueueConsumer_delete qc) = io_out (snd qc)"
  by (simp_all add: Publisher_delete_def BinaryPublisher_delete_def QueueProducer_delete_def Subscriber_delete_def
      BinarySubscriber_delete_def QueueConsumer_delete_def close_connection_def)

lemma io_out_new [simp]: "io_out io_new = []"
  by (simp add: io_new_def)

lemma text_sender:
  assumes "works N"
  shows "\<exists>p i'. send_each (\<lambda>_ st m. (Publisher_send N st t m, None)) line 0 (Publisher_new N host port i) ms = ((p, i'), None) \<and>
    io_out i' = io_out i @ concat (map resp_serialize (map (\<lambda>m. makeArray [''PUBLISH'', t, m]) ms))"
proof -
  have all: "sends_all N" using assms by (simp add: works_def)
  have new: "Publisher_new N host port i = (\<lparr>rpub_sock = net_socket N\<rparr>, cout [] (fd_open (net_socket N) i))"
    using assms by (simp add: Publisher_new_def works_open)
  show ?thesis
    using send_each_out [where send = "\<lambda>_ st m. (Publisher_send N st t m, None)" and P = "\<lambda>p. rpub_sock p \<noteq> -1" and nxt = "\<lambda>p. p"
        and enc = "\<lambda>p m. resp_serialize (makeArray [''PUBLISH'', t, m])" and p = "\<lparr>rpub_sock = net_socket N\<rparr>" and ms = ms
        and i = "cout [] (fd_open (net_socket N) i)" and line = line and k = 0, OF all] assms
    by (auto simp: new encoded_text works_def Publisher_send_def simp del: resp_serialize.simps)
qed

lemma binary_sender:
  assumes "works N"
  shows "\<exists>p i'. send_each (\<lambda>k st m. BinaryPublisher_send N (replies k) st t m) line 0 (BinaryPublisher_new N host port i) ms = ((p, i'), None) \<and>
    io_out i' = io_out i @ concat (map serialize (numbered_publishes t 0 ms))"
proof -
  have all: "sends_all N" using assms by (simp add: works_def)
  obtain p i1 where new: "BinaryPublisher_new N host port i = (p, i1)" "pub_sock p \<noteq> -1" "pub_sequence p = 0" "io_out i1 = io_out i"
    using assms by (simp add: BinaryPublisher_new_def works_open) (simp add: works_def)
  have enc: "encoded (\<lambda>p m. serialize (publish_frame t m (pub_sequence p + 1))) (\<lambda>p. p\<lparr>pub_sequence := pub_sequence p + 1\<rparr>) p ms =
      map serialize (numbered_publishes t 0 ms)"
    using encoded_binary [where seq = pub_sequence and nxt = "\<lambda>p. p\<lparr>pub_sequence := pub_sequence p + 1\<rparr>" and p = p] new(3) by simp
  show ?thesis
    using send_each_out [where send = "\<lambda>k st m. BinaryPublisher_send N (replies k) st t m" and P = "\<lambda>p. pub_sock p \<noteq> -1"
        and nxt = "\<lambda>p. p\<lparr>pub_sequence := pub_sequence p + 1\<rparr>" and enc = "\<lambda>p m. serialize (publish_frame t m (pub_sequence p + 1))"
        and p = p and ms = ms and i = i1 and line = line and k = 0, OF all publisher_send [OF all]] new
    by (simp add: enc)
qed

lemma queue_sender:
  assumes "works N"
  shows "\<exists>p i'. send_each (\<lambda>k st m. queue_push N (replies k) st q m) line 0 (QueueProducer_new N host port i) ms = ((p, i'), None) \<and>
    io_out i' = io_out i @ concat (map serialize (numbered_publishes (''q:'' @ q) 0 ms))"
proof -
  have all: "sends_all N" using assms by (simp add: works_def)
  obtain p i1 where new: "QueueProducer_new N host port i = (p, i1)" "prod_sock p \<noteq> -1" "prod_sequence p = 0" "io_out i1 = io_out i"
    using assms by (simp add: QueueProducer_new_def works_open) (simp add: works_def)
  have enc: "encoded (\<lambda>p m. serialize (publish_frame (''q:'' @ q) m (prod_sequence p + 1))) (\<lambda>p. p\<lparr>prod_sequence := prod_sequence p + 1\<rparr>) p ms =
      map serialize (numbered_publishes (''q:'' @ q) 0 ms)"
    using encoded_binary [where seq = prod_sequence and nxt = "\<lambda>p. p\<lparr>prod_sequence := prod_sequence p + 1\<rparr>" and p = p] new(3) by simp
  show ?thesis
    using send_each_out [where send = "\<lambda>k st m. queue_push N (replies k) st q m" and P = "\<lambda>p. prod_sock p \<noteq> -1"
        and nxt = "\<lambda>p. p\<lparr>prod_sequence := prod_sequence p + 1\<rparr>" and enc = "\<lambda>p m. serialize (publish_frame (''q:'' @ q) m (prod_sequence p + 1))"
        and p = p and ms = ms and i = i1 and line = line and k = 0, OF all queue_producer_send [OF all]] new
    unfolding enc by simp
qed

lemma finish_out:
  "(\<And>st. io_out (delete st) = io_out (snd st)) \<Longrightarrow> io_out (fst (finish delete line out)) = io_out (snd (fst out))"
  by (auto simp: finish_def split: prod.split option.split)

lemma senders_out:
  assumes "works N"
  shows "io_out (snd (fst (send_each (\<lambda>_ st m. (Publisher_send N st t m, None)) line 0 (Publisher_new N host port i) ms))) =
      io_out i @ concat (map resp_serialize (map (\<lambda>m. makeArray [''PUBLISH'', t, m]) ms))"
    and "io_out (snd (fst (send_each (\<lambda>k st m. BinaryPublisher_send N (replies k) st t m) line 0 (BinaryPublisher_new N host port i) ms))) =
      io_out i @ concat (map serialize (numbered_publishes t 0 ms))"
    and "io_out (snd (fst (send_each (\<lambda>k st m. queue_push N (replies k) st q m) line 0 (QueueProducer_new N host port i) ms))) =
      io_out i @ concat (map serialize (numbered_publishes (''q:'' @ q) 0 ms))"
  using text_sender [OF assms, of t line host port i ms] binary_sender [OF assms, of replies t line host port i ms]
    queue_sender [OF assms, of replies q line host port i ms]
  by (metis fst_conv snd_conv)+

text \<open>The histories of the sending programs.\<close>

lemma short_lines: "k < 1000 \<Longrightarrow> length (to_string k) \<le> 3"
  using to_string_len_le [of k 2] by simp

lemma text_program:
  assumes "list_all (\<lambda>m. length m \<le> 200) ms" and "length t \<le> 200" and "out = concat (map resp_serialize (map (\<lambda>m. makeArray [''PUBLISH'', t, m]) ms))"
  shows "text_session i out = (i, Connect 0) # text_published i (map (Pair t) ms)"
proof -
  have "list_all valid_resp (map (\<lambda>m. makeArray [''PUBLISH'', t, m]) ms)"
    using assms(1,2) by (auto simp: makeArray_def list_all_iff MAX_ARRAY_COUNT_def MAX_BULK_LEN_def)
  from text_session_eq [OF this, of i] show ?thesis by (simp add: assms(3) text_published_def comp_def del: resp_serialize.simps)
qed

lemma binary_program:
  assumes "list_all (\<lambda>m. length m \<le> 200) ms" and "length t \<le> 200" and "out = concat (map serialize (numbered_publishes t 0 ms))"
  shows "binary_session i out = (i, Connect 0) # published i 0 (map (Pair t) ms)"
  using binary_session_eq [OF numbered_publishes_valid [OF assms(2,1)], of i 0] by (simp add: assms(3) published_numbered)

section \<open>What the programs print\<close>

definition fold_messages :: "('u \<Rightarrow> bytes \<Rightarrow> bytes \<Rightarrow> 'u) \<Rightarrow> 'u \<Rightarrow> (bytes \<times> bytes) list \<Rightarrow> 'u" where
  "fold_messages g u ms = foldl (\<lambda>u (t, x). g u t x) u ms"

lemma fold_messages_simps [simp]:
  "fold_messages g u [] = u" "fold_messages g u ((t, x) # ms) = fold_messages g (g u t x) ms"
  "fold_messages g u (ms @ ms') = fold_messages g (fold_messages g u ms) ms'"
  by (simp_all add: fold_messages_def)

text \<open>A callback that does not throw on the messages it gets is folded over them.\<close>

lemma text_receiver:
  assumes "works N" and "list_all valid_resp vs" and "concat chunks = concat (map resp_serialize vs) @ rest" and "rest = [] \<or> resp_parse rest = Inr None"
    and "\<And>u t x. (t, x) \<in> set (concat (map resp_message vs)) \<Longrightarrow> cb u t x = (g u t x, None)"
    and "Subscriber_new N host port i = (s, i1)"
  shows "\<exists>i'. Subscriber_subscribe N cb (s, i1, u) topic chunks = Some ((s, i', fold_messages g u (concat (map resp_message vs))), None)"
proof -
  let ?g = "\<lambda>(s, i, u) v. (s, i, fold_messages g u (resp_message v))"
  have "on_resp_message cb st v = (?g st v, None)" if "v \<in> set vs" for st v
  proof -
    have "cb u t x = (g u t x, None)" if "(t, x) \<in> set (resp_message v)" for u t x
      using that \<open>v \<in> set vs\<close> by (intro assms(5)) auto
    then show ?thesis by (cases st; cases v rule: resp_message.cases) (simp_all add: on_resp_message_def Let_def)
  qed
  note run = resp_client.receive_render_then [where h = "on_resp_message cb", OF assms(2-4) this]
  have "foldl ?g (s, i2, u) ws = (s, i2, fold_messages g u (concat (map resp_message ws)))" for i2 ws
    by (induction ws arbitrary: u) simp_all
  from run [OF _ this] have "\<exists>i'. receive resp_parse (on_resp_message cb) (''Subscriber: connection closed'' @ newline) (s, i2, u) chunks =
      Some ((s, i', fold_messages g u (concat (map resp_message vs))), None)" for i2 by blast
  moreover have "rsub_sock s \<noteq> -1" using assms(1,6) by (auto simp: Subscriber_new_def works_open works_def)
  ultimately show ?thesis by (simp add: Subscriber_subscribe_def)
qed

lemma binary_receiver:
  assumes "works N" and "list_all valid_frame fs" and "concat chunks = concat (map serialize fs) @ rest" and "rest = [] \<or> parse rest = Inr None"
    and "\<And>u t x. cb u t x = (g u t x, None)" and "BinarySubscriber_new N host port i = (s, i1)"
  shows "\<exists>s' i'. BinarySubscriber_subscribe N cb (s, i1, u) topic ack chunks = Some ((s', i', fold_messages g u (deliveries fs)), None)"
proof -
  let ?g = "\<lambda>(s, i, u) f. (s, frame_io N s (subscribed_line s topic) f i, fold_messages g u (deliveries [f]))"
  have "on_subscribed_frame N cb topic st f = (?g st f, None)" for st f
    using assms(5) by (cases st; cases "is_message f"; cases "frame_command f = CMD_ACK")
      (simp_all add: on_subscribed_frame_def frame_io_def subscribed_line_def deliveries_def)
  note run = binary_client.receive_render_then [where h = "on_subscribed_frame N cb topic", OF assms(2-4) this]
  have fold: "\<exists>i'. foldl ?g (s, i2, u) gs = (s, i', fold_messages g u (deliveries gs))" for s i2 gs
  proof (induction gs arbitrary: i2 u)
    case (Cons f gs)
    have "deliveries (f # gs) = deliveries [f] @ deliveries gs" by (simp add: deliveries_def)
    with Cons show ?case by simp
  qed simp
  obtain s2 i2 where sub: "send_subscribe N s topic ack i1 = (s2, i2)" by fastforce
  obtain i' where "foldl ?g (s2, i2, u) fs = (s2, i', fold_messages g u (deliveries fs))" using fold by blast
  from run [OF this] have "\<exists>i'. receive parse (on_subscribed_frame N cb topic) (''BinarySubscriber: connection closed'' @ newline)
      (s2, i2, u) chunks = Some ((s2, i', fold_messages g u (deliveries fs)), None)" by blast
  moreover have "sub_sock s \<noteq> -1" using assms(1,6) by (auto simp: BinarySubscriber_new_def works_open works_def)
  ultimately show ?thesis by (auto simp: BinarySubscriber_subscribe_def sub)
qed

text \<open>Against the broker, over histories in one protocol.\<close>

lemma stream_packets:
  assumes "lmdb_engine (amb_lmdb A) eview tview" and "eview e = Map.empty" and "valid_history evs"
  shows "stream_to A e keys evs r = concat (map packet_bytes (packets_for (signed_verdict (amb_sodium A) keys) r pubsub_init (\<lambda>_. 0) evs))"
  using client_stream [OF assms(1,2), of evs r keys] assms(3) by (simp add: stream_to_def valid_history_def valid_event_def)

lemma text_receives:
  assumes "lmdb_engine (amb_lmdb A) eview tview" and "eview e = Map.empty" and "valid_history evs" and "text_only evs" and "works N"
    and "ms = delivered (signed_verdict (amb_sodium A) keys) r pubsub_init evs"
    and "\<And>u t x. (t, x) \<in> set ms \<Longrightarrow> cb u t x = (g u t x, None)" and "Subscriber_new N host port i = (s, i1)"
  shows "\<exists>i'. Subscriber_subscribe N cb (s, i1, u) topic [stream_to A e keys evs r] = Some ((s, i', fold_messages g u ms), None)"
proof -
  let ?J = "signed_verdict (amb_sodium A) keys"
  obtain vs where vs: "packets_for ?J r pubsub_init (\<lambda>_. 0) evs = map Txt vs" "concat (map resp_message vs) = ms"
    using text_delivers [OF assms(4)] assms(6) by blast
  have "list_all valid_resp vs" using packets_ok [OF assms(3), of ?J r pubsub_init "\<lambda>_. 0"] by (simp add: vs(1) list_all_iff)
  moreover have "concat [stream_to A e keys evs r] = concat (map resp_serialize vs) @ []"
    by (simp add: stream_packets [OF assms(1-3)] vs(1) comp_def)
  ultimately show ?thesis
    using text_receiver [where cb = cb and g = g, OF assms(5) _ _ _ _ assms(8)] assms(7) vs(2) by blast
qed

lemma binary_receives:
  assumes "lmdb_engine (amb_lmdb A) eview tview" and "eview e = Map.empty" and "valid_history evs" and "binary_only evs" and "works N"
    and "\<And>u t x. cb u t x = (g u t x, None)" and "BinarySubscriber_new N host port i = (s, i1)"
  shows "\<exists>s' i'. BinarySubscriber_subscribe N cb (s, i1, u) topic ack [stream_to A e keys evs r] =
    Some ((s', i', fold_messages g u (delivered (signed_verdict (amb_sodium A) keys) r pubsub_init evs)), None)"
proof -
  let ?J = "signed_verdict (amb_sodium A) keys"
  obtain fs where fs: "packets_for ?J r pubsub_init (\<lambda>_. 0) evs = map Bin fs" "deliveries fs = delivered ?J r pubsub_init evs"
    using binary_delivers [OF assms(4)] by blast
  have "list_all valid_frame fs" using packets_ok [OF assms(3), of ?J r pubsub_init "\<lambda>_. 0"] by (simp add: fs(1) list_all_iff)
  moreover have "concat [stream_to A e keys evs r] = concat (map serialize fs) @ []"
    by (simp add: stream_packets [OF assms(1-3)] fs(1) comp_def)
  ultimately show ?thesis
    using binary_receiver [where cb = cb and g = g, OF assms(5) _ _ _ assms(6,7)] fs(2) by metis
qed

section \<open>The programs against the broker\<close>

text \<open>What a receiving program writes before anything arrives: its subscription.\<close>

definition bytes_written :: "(io \<times> 'u \<times> exn option) option \<Rightarrow> bytes" where
  "bytes_written out = (case out of None \<Rightarrow> [] | Some (i, _) \<Rightarrow> io_out i)"

lemma subscriptions_written:
  assumes "works N"
  shows "bytes_written (sub_only N []) = resp_serialize (makeArray [''SUBSCRIBE'', ''chat''])"
    and "bytes_written (binary_sub_only N []) = serialize (subscribe_frame ''chat'' 1)"
    and "bytes_written (pull_only N []) = serialize (subscribe_frame ''q:tasks'' 1)"
  using assms
  by (simp_all add: sub_only_def binary_sub_only_def pull_only_def bytes_written_def leave_def Subscriber_new_def BinarySubscriber_new_def
      QueueConsumer_new_def works_open Subscriber_subscribe_def BinarySubscriber_subscribe_def queue_pull_def send_subscribe_def
      subscribe_topic_def receive_def Let_def)
    (simp_all add: works_def)

definition binary_subscribe :: "session_id \<Rightarrow> bytes \<Rightarrow> (session_id \<times> input) list" where
  "binary_subscribe r topic = [(r, Connect 0), (r, Frame (subscribe_frame topic 1))]"

lemma subscribe_sessions:
  "text_session r (resp_serialize (makeArray [''SUBSCRIBE'', ''chat''])) = text_subscribe r ''chat''"
  "text_session r (resp_serialize (makeArray [''SUBSCRIBE'', ''test''])) = text_subscribe r ''test''"
  "text_session r (resp_serialize (makeArray [''SUBSCRIBE'', ''test/persistence''])) = text_subscribe r ''test/persistence''"
  "binary_session r (serialize (subscribe_frame ''chat'' 1)) = binary_subscribe r ''chat''"
  "binary_session r (serialize (subscribe_frame ''q:tasks'' 1)) = binary_subscribe r ''q:tasks''"
proof -
  have t: "text_session r (resp_serialize (makeArray [''SUBSCRIBE'', t])) = text_subscribe r t" if "length t < 200" for t
    using text_session_eq [of "[makeArray [''SUBSCRIBE'', t]]" r] that
    by (simp add: text_subscribe_def makeArray_def MAX_ARRAY_COUNT_def MAX_BULK_LEN_def del: resp_serialize.simps)
  have b: "binary_session r (serialize (subscribe_frame t 1)) = binary_subscribe r t" if "length t < 200" for t
    using binary_session_eq [of "[subscribe_frame t 1]" r] that by (simp add: binary_subscribe_def valid_frame_eval)
  show "text_session r (resp_serialize (makeArray [''SUBSCRIBE'', ''chat''])) = text_subscribe r ''chat''"
    "text_session r (resp_serialize (makeArray [''SUBSCRIBE'', ''test''])) = text_subscribe r ''test''"
    "text_session r (resp_serialize (makeArray [''SUBSCRIBE'', ''test/persistence''])) = text_subscribe r ''test/persistence''"
    "binary_session r (serialize (subscribe_frame ''chat'' 1)) = binary_subscribe r ''chat''"
    "binary_session r (serialize (subscribe_frame ''q:tasks'' 1)) = binary_subscribe r ''q:tasks''"
    by (simp_all add: t b del: resp_serialize.simps)
qed

lemma binary_subscribe_simps [simp]: "binary_only (binary_subscribe r t)" "length t < 200 \<Longrightarrow> quiet_topic t \<Longrightarrow> valid_history (binary_subscribe r t)"
  by (simp_all add: binary_subscribe_def binary_only_def valid_event_def quiet_event_def nul_free_topics_def valid_frame_eval)

lemma delivered_binary_subscribe:
  assumes "length ss + length cs < MAX_CONNECTIONS" and "i \<notin> set (map fst ss) \<union> set cs" and "CHR 0x00 \<notin> set t"
  shows "delivered J r (joined ss cs) (binary_subscribe i t @ evs) = delivered J r (joined ((i, t) # ss) cs) evs"
proof -
  have "pubsub_step (joined ss (i # cs)) (i, Frame (subscribe_frame t 1)) = joined ((i, t) # ss) cs"
    using assms(3) by (auto simp: pubsub_step_def pubsub_frame_def joined_def frame_defs subscribe_target_def)
  then show ?thesis
    using delivered_connect [OF assms(1,2), of J r 0 "(i, Frame (subscribe_frame t 1)) # evs"]
    by (simp add: binary_subscribe_def event_delivers_def event_message_def numbers_def) (simp add: frame_defs)
qed

text \<open>A sender that follows a subscriber, or precedes it.\<close>

lemma sender_then:
  assumes "t \<noteq> ''#''" and "\<not> starts_with t ''secure/''"
  shows "delivered J 1 pubsub_init (text_subscribe 1 t @ (2, Connect 0) # text_published 2 (map (Pair t) ms)) = map (Pair t) ms"
    and "CHR 0x00 \<notin> set t \<Longrightarrow> delivered J 1 pubsub_init (binary_subscribe 1 t @ (2, Connect 0) # published 2 0 (map (Pair t) ms)) = map (Pair t) ms"
    and "delivered J 1 pubsub_init (((2, Connect 0) # text_published 2 (map (Pair t) ms)) @ text_subscribe 1 t) = []"
proof -
  have one: "matches (joined [(1, t)] cs) 1 t = 1" and zero: "matches (joined [] cs) 1 t = 0" for cs using assms(1) by (auto simp: matches_def joined_def)
  have each: "concat (map (\<lambda>m. replicate 1 (t, m)) ms) = map (Pair t) ms" by (induction ms) simp_all
  note simps = delivery_simps delivered_binary_subscribe one zero each comp_def
  show "delivered J 1 pubsub_init (text_subscribe 1 t @ (2, Connect 0) # text_published 2 (map (Pair t) ms)) = map (Pair t) ms"
    unfolding pubsub_init_joined by (simp add: simps del: delivered.simps(2) One_nat_def)
  show "delivered J 1 pubsub_init (binary_subscribe 1 t @ (2, Connect 0) # published 2 0 (map (Pair t) ms)) = map (Pair t) ms"
    if "CHR 0x00 \<notin> set t"
    unfolding pubsub_init_joined using that assms(2) by (simp add: simps [unfolded starts_with_def] starts_with_def del: delivered.simps(2) One_nat_def)
  show "delivered J 1 pubsub_init (((2, Connect 0) # text_published 2 (map (Pair t) ms)) @ text_subscribe 1 t) = []"
    unfolding pubsub_init_joined by (simp add: simps del: delivered.simps(2) One_nat_def)
qed

text \<open>The histories that the sending programs cause.\<close>

lemma numbered_short: "length pre + length post \<le> 100 \<Longrightarrow> list_all (\<lambda>m. length m \<le> 200) (map (\<lambda>i. pre @ to_string i @ post) [1..<11])"
proof -
  assume *: "length pre + length post \<le> 100"
  have "length (pre @ to_string i @ post) \<le> 200" if "i < 11" for i using short_lines [of i] that * by simp
  then show ?thesis by (auto simp: list_all_iff)
qed

definition chat_lines :: "bytes list" where
  "chat_lines = map (\<lambda>i. ''Message #'' @ to_string i @ '' from publisher'') [1..<11]"

definition binary_lines :: "bytes list" where
  "binary_lines = map (\<lambda>i. ''Binary Message #'' @ to_string i) [1..<11]"

definition hello_lines :: "bytes list" where
  "hello_lines = map (\<lambda>i. ''Hello #'' @ to_string i) [1..<11]"

definition task_lines :: "bytes list" where
  "task_lines = map (\<lambda>i. ''task_'' @ to_string i) [1..<11]"

definition persistence_lines :: "bytes list" where
  "persistence_lines = map (\<lambda>i. ''Message '' @ to_string i) [1..<6]"

lemma lines_short:
  "list_all (\<lambda>m. length m \<le> 200) chat_lines" "list_all (\<lambda>m. length m \<le> 200) binary_lines" "list_all (\<lambda>m. length m \<le> 200) hello_lines"
  "list_all (\<lambda>m. length m \<le> 200) task_lines" "list_all (\<lambda>m. length m \<le> 200) persistence_lines"
proof -
  have "list_all (\<lambda>m. length m \<le> 200) (map (\<lambda>i. ''Message '' @ to_string i) [1..<6])"
    using numbered_short [of "''Message ''" "[]"] by (auto simp: list_all_iff)
  then show "list_all (\<lambda>m. length m \<le> 200) chat_lines" "list_all (\<lambda>m. length m \<le> 200) binary_lines" "list_all (\<lambda>m. length m \<le> 200) hello_lines"
      "list_all (\<lambda>m. length m \<le> 200) task_lines" "list_all (\<lambda>m. length m \<le> 200) persistence_lines"
    using numbered_short [of "''Message #''" "'' from publisher''"] numbered_short [of "''Binary Message #''" "[]"]
      numbered_short [of "''Hello #''" "[]"] numbered_short [of "''task_''" "[]"]
    by (simp_all add: chat_lines_def binary_lines_def hello_lines_def task_lines_def persistence_lines_def del: upt_conv_Cons upt_rec_numeral)
qed

lemma program_sessions:
  assumes "works N"
  shows "text_session i (io_out (fst (pub_only N))) = (i, Connect 0) # text_published i (map (Pair ''chat'') chat_lines)"
    and "text_session i (io_out (fst (pubsub_raw_tcp N))) = (i, Connect 0) # text_published i (map (Pair ''test'') hello_lines)"
    and "text_session i (io_out (snd (fst (persistence_test_pub N)))) =
      (i, Connect 0) # text_published i (map (Pair ''test/persistence'') persistence_lines)"
    and "binary_session i (io_out (fst (binary_pub_only N replies))) = (i, Connect 0) # published i 0 (map (Pair ''chat'') binary_lines)"
    and "binary_session i (io_out (fst (push_only N replies))) = (i, Connect 0) # published i 0 (map (Pair ''q:tasks'') task_lines)"
proof -
  show "text_session i (io_out (fst (pub_only N))) = (i, Connect 0) # text_published i (map (Pair ''chat'') chat_lines)"
  proof (rule text_program [OF lines_short(1)])
    show "io_out (fst (pub_only N)) = concat (map resp_serialize (map (\<lambda>m. makeArray [''PUBLISH'', ''chat'', m]) chat_lines))"
      unfolding pub_only_def chat_lines_def [symmetric]
      by (simp only: finish_out [OF close_out(1)] senders_out [OF assms] io_sel io_out_new append_Nil)
  qed simp
  show "text_session i (io_out (fst (pubsub_raw_tcp N))) = (i, Connect 0) # text_published i (map (Pair ''test'') hello_lines)"
  proof (rule text_program [OF lines_short(3)])
    show "io_out (fst (pubsub_raw_tcp N)) = concat (map resp_serialize (map (\<lambda>m. makeArray [''PUBLISH'', ''test'', m]) hello_lines))"
      unfolding pubsub_raw_tcp_def hello_lines_def [symmetric] fst_conv
      by (simp only: finish_out [OF close_out(1)] senders_out [OF assms] io_sel io_out_new append_Nil)
  qed simp
  show "text_session i (io_out (snd (fst (persistence_test_pub N)))) =
      (i, Connect 0) # text_published i (map (Pair ''test/persistence'') persistence_lines)"
  proof (rule text_program [OF lines_short(5)])
    show "io_out (snd (fst (persistence_test_pub N))) =
        concat (map resp_serialize (map (\<lambda>m. makeArray [''PUBLISH'', ''test/persistence'', m]) persistence_lines))"
      unfolding persistence_test_pub_def persistence_lines_def [symmetric]
      by (simp only: senders_out [OF assms] io_sel io_out_new append_Nil)
  qed simp
  show "binary_session i (io_out (fst (binary_pub_only N replies))) = (i, Connect 0) # published i 0 (map (Pair ''chat'') binary_lines)"
  proof (rule binary_program [OF lines_short(2)])
    show "io_out (fst (binary_pub_only N replies)) = concat (map serialize (numbered_publishes ''chat'' 0 binary_lines))"
      unfolding binary_pub_only_def binary_lines_def [symmetric]
      by (simp only: finish_out [OF close_out(2)] senders_out [OF assms] io_sel io_out_new append_Nil)
  qed simp
  show "binary_session i (io_out (fst (push_only N replies))) = (i, Connect 0) # published i 0 (map (Pair ''q:tasks'') task_lines)"
  proof (rule binary_program [OF lines_short(4)])
    show "io_out (fst (push_only N replies)) = concat (map serialize (numbered_publishes ''q:tasks'' 0 task_lines))"
      unfolding push_only_def task_lines_def [symmetric]
      by (simp only: finish_out [OF close_out(3)] senders_out [OF assms] io_sel io_out_new append_Nil) simp
  qed simp
qed

lemma senders_valid:
  assumes "list_all (\<lambda>m. length m \<le> 200) ms" and "length t \<le> 200" and "CHR 0x00 \<notin> set t"
  shows "valid_history (text_published i (map (Pair t) ms))" "valid_history (published i q (map (Pair t) ms))"
proof -
  have "\<forall>m \<in> set ms. length m \<le> 16777216" using assms(1) by (fastforce simp: list_all_iff)
  with assms(2,3) show "valid_history (text_published i (map (Pair t) ms))" "valid_history (published i q (map (Pair t) ms))"
    by (auto intro!: published_valid simp: sendable_as_text_def list_all_iff MAX_BULK_LEN_def size_defs)
qed

lemma fold_lines: "fold_messages (\<lambda>u t x. u @ f t x) u (map (Pair t) ms) = u @ concat (map (f t) ms)"
  by (induction ms arbitrary: u) simp_all

text \<open>Tasks: without signed publishes every message that arrives is an unsigned one.\<close>

definition unsigned_only :: "(session_id \<times> input) list \<Rightarrow> bool" where
  "unsigned_only evs \<longleftrightarrow> list_all (\<lambda>ev. case snd ev of Frame f \<Rightarrow> frame_command f \<noteq> CMD_SIGNED_PUBLISH | _ \<Rightarrow> True) evs"

lemma unsigned_packets:
  "unsigned_only evs \<Longrightarrow> Bin g \<in> set (packets_for J r p n evs) \<Longrightarrow> frame_command g \<noteq> CMD_SIGNED_MESSAGE"
proof (induction evs arbitrary: p n)
  case (Cons ev evs)
  have "frame_command g \<noteq> CMD_SIGNED_MESSAGE" if "Bin g \<in> set (pubsub_out J p n ev r)"
  proof (cases "snd ev")
    case (Frame f)
    with that Cons.prems(1) show ?thesis
      by (cases ev; cases "frame_command f") (auto simp: unsigned_only_def pubsub_out_def frame_out_def frame_defs Let_def split: if_splits)
  qed (use that in \<open>cases ev; auto simp: pubsub_out_def command_out_def split: if_splits option.splits\<close>)+
  with Cons show ?case by (auto simp: unsigned_only_def)
qed simp

lemma tasks_deliveries:
  assumes "\<forall>f \<in> set fs. frame_command f \<noteq> CMD_SIGNED_MESSAGE"
  shows "map frame_payload (filter is_task fs) = map snd (filter (\<lambda>m. starts_with (fst m) ''q:'') (deliveries fs))"
  using assms by (induction fs) (auto simp: deliveries_def is_task_def is_message_def)

lemma queue_receives:
  assumes "lmdb_engine (amb_lmdb A) eview tview" and "eview e = Map.empty" and "valid_history evs" and "binary_only evs" and "unsigned_only evs"
    and "works N" and "\<And>u x. cb u x = (g u x, None)" and "QueueConsumer_new N host port i = (c, i1)"
    and "ms = delivered (signed_verdict (amb_sodium A) keys) r pubsub_init evs"
  shows "\<exists>c' i'. queue_pull N cb (c, i1, u) q [stream_to A e keys evs r] =
    Some ((c', i', foldl g u (map snd (filter (\<lambda>m. starts_with (fst m) ''q:'') ms))), None)"
proof -
  let ?J = "signed_verdict (amb_sodium A) keys"
  obtain fs where fs: "packets_for ?J r pubsub_init (\<lambda>_. 0) evs = map Bin fs" "deliveries fs = ms"
    using binary_delivers [OF assms(4)] assms(9) by blast
  have valid: "list_all valid_frame fs" using packets_ok [OF assms(3), of ?J r pubsub_init "\<lambda>_. 0"] by (simp add: fs(1) list_all_iff)
  have stream: "concat [stream_to A e keys evs r] = concat (map serialize fs)"
    by (simp add: stream_packets [OF assms(1-3)] fs(1) comp_def)
  have "\<forall>f \<in> set fs. frame_command f \<noteq> CMD_SIGNED_MESSAGE"
    using unsigned_packets [OF assms(5), of _ ?J r pubsub_init "\<lambda>_. 0"] by (auto simp: fs(1))
  note tasks = tasks_deliveries [OF this, unfolded fs(2)]
  let ?g = "\<lambda>(c, i, u) f. (c, pulled_io q f i, foldl g u (map frame_payload (filter is_task [f])))"
  have "on_queue_frame cb q st f = (?g st f, None)" for st f
    using assms(7) by (cases st; cases "frame_command f = CMD_MESSAGE"; cases "frame_command f = CMD_ACK")
      (auto simp: on_queue_frame_def pulled_io_def is_task_def starts_with_def numeral_2_eq_2 Let_def)
  note run = binary_client.receive_render [where h = "on_queue_frame cb q", OF valid stream this]
  have fold: "\<exists>i'. foldl ?g (c, i2, u) gs = (c, i', foldl g u (map frame_payload (filter is_task gs)))" for c :: QueueConsumer and i2 gs
    by (induction gs arbitrary: i2 u) auto
  let ?c = "c\<lparr>cons_sequence := cons_sequence c + 1\<rparr>" and ?i = "sock_send N (serialize (subscribe_frame (''q:'' @ q) (cons_sequence c + 1))) i1"
  obtain i' where "foldl ?g (?c, ?i, u) fs = (?c, i', foldl g u (map frame_payload (filter is_task fs)))" using fold by blast
  from run [OF this] have "\<exists>i'. receive parse (on_queue_frame cb q) (''QueueConsumer: connection closed'' @ newline)
      (?c, ?i, u) [stream_to A e keys evs r] = Some ((?c, i', foldl g u (map snd (filter (\<lambda>m. starts_with (fst m) ''q:'') ms))), None)"
    unfolding tasks by blast
  moreover have "cons_sock c \<noteq> -1" using assms(6,8) by (auto simp: QueueConsumer_new_def works_open works_def)
  ultimately show ?thesis by (auto simp: queue_pull_def Let_def)
qed

lemma unsigned_simps [simp]:
  "unsigned_only (xs @ ys) \<longleftrightarrow> unsigned_only xs \<and> unsigned_only ys" "unsigned_only ((i, Connect now) # xs) = unsigned_only xs"
  "unsigned_only (binary_subscribe r t)"
  by (simp_all add: unsigned_only_def binary_subscribe_def) (simp add: frame_defs)

lemma unsigned_published [simp]: "unsigned_only (published i q ms)"
  by (induction i q ms rule: published.induct) (simp_all add: unsigned_only_def, simp add: frame_defs)

text \<open>Each pair of programs.\<close>

lemma chat_run:
  assumes "lmdb_engine (amb_lmdb A) eview tview" and "eview e = Map.empty" and "works N"
  shows "\<exists>i. sub_only N [stream_to A e keys (text_session 1 (bytes_written (sub_only N [])) @ text_session 2 (io_out (fst (pub_only N)))) 1] =
    Some (i, concat (map (\<lambda>m. ''[RECEIVED] chat: '' @ m @ newline) chat_lines), None)"
proof -
  let ?evs = "text_subscribe 1 ''chat'' @ (2, Connect 0) # text_published 2 (map (Pair ''chat'') chat_lines)"
  have evs: "text_session 1 (bytes_written (sub_only N [])) @ text_session 2 (io_out (fst (pub_only N))) = ?evs"
    unfolding subscriptions_written [OF assms(3)] subscribe_sessions program_sessions [OF assms(3)] ..
  have "valid_history ?evs" "text_only ?evs"
    by (simp_all add: senders_valid lines_short subscribe_valid quiet_topic_def MAX_BULK_LEN_def)
  note run = text_receives [where cb = received_line and g = "\<lambda>u t x. u @ ''[RECEIVED] '' @ t @ '': '' @ x @ newline" and u = "[]",
      OF assms(1,2) this assms(3) refl]
  have ms: "delivered J 1 pubsub_init ?evs = map (Pair ''chat'') chat_lines" for J
    by (rule sender_then(1)) (simp_all add: starts_with_def)
  obtain s i1 where new: "Subscriber_new N localhost 6379 (cout (''=== Subscriber Only Demo ==='' @ newline @ ''Listening on topic '' @ sq @
      ''chat'' @ sq @ '' (Ctrl+C to stop)...'' @ newline @ newline) io_new) = (s, i1)" by fastforce
  from run [OF _ new, of keys 1 "''chat''"]
  have "\<exists>i. sub_only N [stream_to A e keys ?evs 1] = Some (i, concat (map (\<lambda>m. ''[RECEIVED] chat: '' @ m @ newline) chat_lines), None)"
    unfolding ms sub_only_def new by (auto simp: received_line_def fold_lines leave_def)
  then show ?thesis unfolding evs .
qed

lemma raw_tcp_run:
  assumes "lmdb_engine (amb_lmdb A) eview tview" and "eview e = Map.empty" and "works N"
  shows "\<exists>s i. raw_tcp_sub_thread N [stream_to A e keys (text_subscribe 1 ''test'' @ text_session 2 (io_out (fst (pubsub_raw_tcp N)))) 1] =
    Some ((s, i, concat (map (\<lambda>m. ''Received [test]: '' @ m @ newline) hello_lines)), None)"
proof -
  let ?evs = "text_subscribe 1 ''test'' @ (2, Connect 0) # text_published 2 (map (Pair ''test'') hello_lines)"
  have "valid_history ?evs" "text_only ?evs"
    by (simp_all add: senders_valid lines_short subscribe_valid quiet_topic_def MAX_BULK_LEN_def)
  note run = text_receives [where cb = raw_tcp_line and g = "\<lambda>u t x. u @ ''Received ['' @ t @ '']: '' @ x @ newline" and u = "[]",
      OF assms(1,2) this assms(3) refl]
  have ms: "delivered J 1 pubsub_init ?evs = map (Pair ''test'') hello_lines" for J
    by (rule sender_then(1)) (simp_all add: starts_with_def)
  obtain s i1 where new: "Subscriber_new N localhost 6379 io_new = (s, i1)" by fastforce
  from run [OF _ new, of keys 1 "''test''"] show ?thesis
    unfolding program_sessions [OF assms(3)] ms raw_tcp_sub_thread_def new by (auto simp: raw_tcp_line_def fold_lines)
qed

lemma binary_chat_run:
  assumes "lmdb_engine (amb_lmdb A) eview tview" and "eview e = Map.empty" and "works N" and "valid_history evs"
    and "without_acks evs = binary_session 1 (bytes_written (binary_sub_only N [])) @ binary_session 2 (io_out (fst (binary_pub_only N replies)))"
  shows "\<exists>i. binary_sub_only N [stream_to A e keys evs 1] = Some (i, concat (map (\<lambda>m. ''[RECEIVED] chat: '' @ m @ newline) binary_lines), None)"
proof -
  let ?evs = "binary_subscribe 1 ''chat'' @ (2, Connect 0) # published 2 0 (map (Pair ''chat'') binary_lines)"
  have evs: "without_acks evs = ?evs"
    unfolding assms(5) subscriptions_written [OF assms(3)] subscribe_sessions program_sessions [OF assms(3)] ..
  have "binary_only evs" by (rule binary_without_acks) (simp add: evs)
  note run = binary_receives [where cb = received_line and g = "\<lambda>u t x. u @ ''[RECEIVED] '' @ t @ '': '' @ x @ newline" and u = "[]",
      OF assms(1,2,4) this assms(3)]
  have "delivered J 1 pubsub_init ?evs = map (Pair ''chat'') binary_lines" for J
    by (rule sender_then(2)) (simp_all add: starts_with_def)
  then have ms: "delivered J 1 pubsub_init evs = map (Pair ''chat'') binary_lines" for J
    using delivered_without_acks [of J 1 pubsub_init evs] by (simp add: evs)
  obtain s i1 where new: "BinarySubscriber_new N localhost 6379 (cout (''=== Binary Protocol Subscriber ==='' @ newline @ ''Listening on topic '' @ sq @
      ''chat'' @ sq @ '' (Ctrl+C to stop)...'' @ newline @ newline) io_new) = (s, i1)" by fastforce
  from run [OF _ new, of "''chat''" True keys 1] show ?thesis
    unfolding ms binary_sub_only_def new by (auto simp: received_line_def fold_lines leave_def)
qed

lemma queue_run_demo:
  assumes "lmdb_engine (amb_lmdb A) eview tview" and "eview e = Map.empty" and "works N"
  shows "\<exists>i. pull_only N [stream_to A e keys (binary_session 1 (bytes_written (pull_only N [])) @ binary_session 2 (io_out (fst (push_only N replies)))) 1] =
    Some (i, concat (map (\<lambda>m. ''[PULLED] '' @ m @ newline) task_lines), None)"
proof -
  let ?evs = "binary_subscribe 1 ''q:tasks'' @ (2, Connect 0) # published 2 0 (map (Pair ''q:tasks'') task_lines)"
  have evs: "binary_session 1 (bytes_written (pull_only N [])) @ binary_session 2 (io_out (fst (push_only N replies))) = ?evs"
    unfolding subscriptions_written [OF assms(3)] subscribe_sessions program_sessions [OF assms(3)] ..
  have "valid_history ?evs" "binary_only ?evs" "unsigned_only ?evs"
    by (simp_all add: senders_valid lines_short quiet_topic_def)
  note run = queue_receives [where cb = "\<lambda>u payload. (u @ ''[PULLED] '' @ payload @ newline, None)"
      and g = "\<lambda>u payload. u @ ''[PULLED] '' @ payload @ newline" and u = "[]", OF assms(1,2) this assms(3) refl _ refl]
  have ms: "delivered J 1 pubsub_init ?evs = map (Pair ''q:tasks'') task_lines" for J
    by (rule sender_then(2)) (simp_all add: starts_with_def)
  have q: "map snd (filter (\<lambda>m. starts_with (fst m) ''q:'') (map (Pair ''q:tasks'') ms)) = ms" for ms :: "bytes list"
    by (induction ms) (simp_all add: starts_with_def)
  have lines: "foldl (\<lambda>u payload. u @ f payload) u ms = u @ concat (map f ms)" for f :: "bytes \<Rightarrow> bytes" and u ms
    by (induction ms arbitrary: u) simp_all
  obtain c i1 where new: "QueueConsumer_new N localhost 6379 (cout (''=== Queue Consumer (PULL) ==='' @ newline @ ''Pulling tasks from queue '' @ sq @
      ''tasks'' @ sq @ '' (Ctrl+C to stop)...'' @ newline @ newline) io_new) = (c, i1)" by fastforce
  from run [OF new, of "''tasks''" keys 1]
  have "\<exists>i. pull_only N [stream_to A e keys ?evs 1] = Some (i, concat (map (\<lambda>m. ''[PULLED] '' @ m @ newline) task_lines), None)"
    unfolding ms pull_only_def new q lines by (auto simp: leave_def)
  then show ?thesis unfolding evs .
qed

lemma mixed_run:
  assumes "lmdb_engine (amb_lmdb A) eview tview" and "eview e = Map.empty" and "works N"
  shows "\<exists>i. binary_sub_only N [stream_to A e keys (binary_session 1 (bytes_written (binary_sub_only N [])) @ text_session 2 (io_out (fst (pub_only N)))) 1] =
    Some (i, [], None)"
proof -
  let ?evs = "binary_subscribe 1 ''chat'' @ (2, Connect 0) # text_published 2 (map (Pair ''chat'') chat_lines)" and ?J = "signed_verdict (amb_sodium A) keys"
  have evs: "binary_session 1 (bytes_written (binary_sub_only N [])) @ text_session 2 (io_out (fst (pub_only N))) = ?evs"
    unfolding subscriptions_written [OF assms(3)] subscribe_sessions program_sessions [OF assms(3)] ..
  have valid: "valid_history ?evs" by (simp add: senders_valid lines_short quiet_topic_def)
  obtain ps where ps: "ps = packets_for ?J 1 pubsub_init (\<lambda>_. 0) ?evs" by simp
  have ok: "list_all packet_ok ps" unfolding ps by (rule packets_ok [OF valid])
  have w: "stream_to A e keys ?evs 1 = concat (map packet_bytes ps)" unfolding ps by (rule stream_packets [OF assms(1,2) valid])
  obtain rest where rest: "concat [stream_to A e keys ?evs 1] = concat (map serialize (bin_prefix ps)) @ rest" "rest = [] \<or> parse rest = Inr None"
    using stream_split(1) [OF ok] w by auto
  have "chat_lines = hd chat_lines # tl chat_lines" by (simp add: chat_lines_def)
  then obtain m ms where lines: "chat_lines = m # ms" by blast
  have "bin_prefix ps = [ack_frame 1]"
    unfolding ps lines
    by (simp add: binary_subscribe_def text_published_def pubsub_out_def command_out_def text_publish_array pubsub_step_def pubsub_frame_def
        pubsub_init_def subscribe_target_def frame_out_def matches_def frame_defs MAX_CONNECTIONS_def Let_def)
  then have none: "deliveries (bin_prefix ps) = []" by (simp add: deliveries_def is_message_def frame_defs)
  obtain s i1 where new: "BinarySubscriber_new N localhost 6379 (cout (''=== Binary Protocol Subscriber ==='' @ newline @ ''Listening on topic '' @ sq @
      ''chat'' @ sq @ '' (Ctrl+C to stop)...'' @ newline @ newline) io_new) = (s, i1)" by fastforce
  from binary_receiver [where cb = received_line and g = "\<lambda>u t x. u @ ''[RECEIVED] '' @ t @ '': '' @ x @ newline" and u = "[]",
      OF assms(3) prefix_valid(1) [OF ok] rest _ new, of "''chat''" True]
  have "\<exists>i. binary_sub_only N [stream_to A e keys ?evs 1] = Some (i, [], None)"
    unfolding binary_sub_only_def new by (auto simp: received_line_def none leave_def)
  then show ?thesis unfolding evs .
qed

lemma persistence_run:
  assumes "lmdb_engine (amb_lmdb A) eview tview" and "eview e = Map.empty" and "works N"
  shows "persistence_test_sub N [stream_to A e keys (text_session 2 (io_out (snd (fst (persistence_test_pub N)))) @ text_subscribe 1 ''test/persistence'') 1] =
    Some (newline @ [CHR 0xE2, CHR 0x9D, CHR 0x8C] @ '' FAILED: Only received 0 out of 5 messages'' @ newline, Exited 1)"
proof -
  let ?evs = "((2, Connect 0) # text_published 2 (map (Pair ''test/persistence'') persistence_lines)) @ text_subscribe 1 ''test/persistence''"
  have "valid_history ?evs" "text_only ?evs"
    by (simp_all add: senders_valid lines_short subscribe_valid quiet_topic_def MAX_BULK_LEN_def)
  note run = text_receives [where cb = count_to_five and g = "\<lambda>u t x. u" and u = "(0, [])", OF assms(1,2) this assms(3) refl]
  have ms: "delivered J 1 pubsub_init ?evs = []" for J by (rule sender_then(3)) (simp_all add: starts_with_def)
  obtain s i1 where new: "Subscriber_new N ''localhost'' 6379 (cout (newline @ ''2. Subscribing to '' @ sq @ ''test/persistence'' @ sq @ '' topic'' @
      newline @ ''   Expected: Should receive all 5 messages (replayed from persistence)'' @ newline) io_new) = (s, i1)" by fastforce
  from run [OF _ new, of keys 1 "''test/persistence''"] show ?thesis
    unfolding program_sessions [OF assms(3)] ms persistence_test_sub_def new by (auto simp: to_string.simps)
qed

section \<open>Properties\<close>

text \<open>
  (C7) The example programs work together. Run a receiving program first and its sending counterpart next, on a
  network where connecting succeeds and sends are complete: the text subscriber prints the ten lines of the text
  publisher and of the raw TCP demo, the binary subscriber those of the binary publisher, with its acknowledgements
  sent at any points in between, and the queue consumer the ten tasks, each in order and once. The binary subscriber
  on the same topic as the text publisher prints nothing.
\<close>

theorem demo_programs:
  assumes "lmdb_engine (amb_lmdb A) eview tview" and "eview e = Map.empty" and "works N"
  shows "(\<exists>i. sub_only N [stream_to A e keys (text_session 1 (bytes_written (sub_only N [])) @ text_session 2 (io_out (fst (pub_only N)))) 1] =
      Some (i, concat (map (\<lambda>m. ''[RECEIVED] chat: '' @ m @ newline) chat_lines), None)) \<and>
    (\<exists>s i. raw_tcp_sub_thread N [stream_to A e keys (text_subscribe 1 ''test'' @ text_session 2 (io_out (fst (pubsub_raw_tcp N)))) 1] =
      Some ((s, i, concat (map (\<lambda>m. ''Received [test]: '' @ m @ newline) hello_lines)), None)) \<and>
    (valid_history evs \<and>
      without_acks evs = binary_session 1 (bytes_written (binary_sub_only N [])) @ binary_session 2 (io_out (fst (binary_pub_only N replies))) \<longrightarrow>
      (\<exists>i. binary_sub_only N [stream_to A e keys evs 1] =
        Some (i, concat (map (\<lambda>m. ''[RECEIVED] chat: '' @ m @ newline) binary_lines), None))) \<and>
    (\<exists>i. pull_only N [stream_to A e keys (binary_session 1 (bytes_written (pull_only N [])) @ binary_session 2 (io_out (fst (push_only N replies)))) 1] =
      Some (i, concat (map (\<lambda>m. ''[PULLED] '' @ m @ newline) task_lines), None)) \<and>
    (\<exists>i. binary_sub_only N [stream_to A e keys (binary_session 1 (bytes_written (binary_sub_only N [])) @ text_session 2 (io_out (fst (pub_only N)))) 1] =
      Some (i, [], None))"
  using chat_run [OF assms] raw_tcp_run [OF assms] binary_chat_run [OF assms, of evs replies] queue_run_demo [OF assms] mixed_run [OF assms]
  by blast

lemma demo_works: "works demo_net"
  using demo_net_sends by (simp add: works_def demo_net_def)

theorem demo_programs_witness:
  "\<exists>i. sub_only demo_net [stream_to demo_ambient RBT.empty ks_new (text_session 1 (bytes_written (sub_only demo_net [])) @
      text_session 2 (io_out (fst (pub_only demo_net)))) 1] =
    Some (i, concat (map (\<lambda>m. ''[RECEIVED] chat: '' @ m @ newline) chat_lines), None)"
  using demo_programs [OF demo_engine _ demo_works, of RBT.empty ks_new] by auto

text \<open>
  The persistence test cannot pass: its text publisher's five messages are all sent before it subscribes, and
  the broker replays nothing to a text subscriber. On a fresh broker the subscriber's stream holds the confirmation
  alone, the callback never runs, and when the connection ends the program reports that it received none of the five
  and exits with status 1.
\<close>

theorem persistence_test_fails:
  assumes "lmdb_engine (amb_lmdb A) eview tview" and "eview e = Map.empty" and "works N"
  shows "persistence_test_sub N [stream_to A e keys (text_session 2 (io_out (snd (fst (persistence_test_pub N)))) @ text_subscribe 1 ''test/persistence'') 1] =
    Some (newline @ [CHR 0xE2, CHR 0x9D, CHR 0x8C] @ '' FAILED: Only received 0 out of 5 messages'' @ newline, Exited 1)"
  by (rule persistence_run [OF assms])

theorem persistence_test_fails_witness:
  "persistence_test_sub demo_net [stream_to demo_ambient RBT.empty ks_new
      (text_session 2 (io_out (snd (fst (persistence_test_pub demo_net)))) @ text_subscribe 1 ''test/persistence'') 1] =
    Some (newline @ [CHR 0xE2, CHR 0x9D, CHR 0x8C] @ '' FAILED: Only received 0 out of 5 messages'' @ newline, Exited 1)"
  using persistence_test_fails [OF demo_engine _ demo_works, of RBT.empty ks_new] by simp

end
