(* ===== verification/Benchmarks.thy ===== *)
theory Benchmarks
  imports Demos Examples
begin

text \<open>
  The storage benchmarks of \<^verbatim>\<open>benchmark/persistence_benchmark.cpp\<close>: what each of them leaves in the store, what its
  measured calls return and what it reports; and what the programs \<^verbatim>\<open>benchmark/throughput.cpp\<close>, with its command line, and
  \<^verbatim>\<open>benchmark/protocol_benchmark.cpp\<close> send and report. The number of iterations, which the benchmark library chooses, and the random draws are parameters; times and
  rates are not modelled.
\<close>

section \<open>The storage benchmarks\<close>

text \<open>What a benchmark reports through \<^verbatim>\<open>SetItemsProcessed\<close> and \<^verbatim>\<open>SetBytesProcessed\<close>.\<close>

record report =
  items_processed :: nat
  bytes_processed :: nat

text \<open>The loops \<^verbatim>\<open>for (i = 1; i <= n; i++) storage.save(i, topic, payload)\<close>.\<close>

definition save_records :: "('e, 't) lmdb \<Rightarrow> 'e \<Rightarrow> bytes \<Rightarrow> bytes \<Rightarrow> nat \<Rightarrow> 'e" where
  "save_records L e topic payload n = save_all L e (map (\<lambda>i. (word_of_nat i, topic, payload)) [1..<n + 1])"

definition BM_LMDB_SequentialWrite :: "('e, 't) lmdb \<Rightarrow> 'e \<Rightarrow> nat \<Rightarrow> nat \<Rightarrow> 'e \<times> report" where
  "BM_LMDB_SequentialWrite L e psize iterations =
     (let payload = replicate psize CHR ''x''
      in (save_records L e ''bench/topic'' payload iterations,
          \<lparr>items_processed = iterations, bytes_processed = iterations * length payload\<rparr>))"

text \<open>The timed loop of the reading benchmarks: an exception of \<^verbatim>\<open>load_range\<close> leaves it.\<close>

fun read_each :: "('a \<Rightarrow> exn + 'b) \<Rightarrow> 'a list \<Rightarrow> exn + 'b list" where
  "read_each f [] = Inr []"
| "read_each f (x # xs) = thenE (f x) (\<lambda>y. thenE (read_each f xs) (\<lambda>ys. Inr (y # ys)))"

definition BM_LMDB_RandomRead ::
    "('e, 't) lmdb \<Rightarrow> 'e \<Rightarrow> uint64 list \<Rightarrow> exn + (uint64 \<times> bytes \<times> bytes) list list \<times> report" where
  "BM_LMDB_RandomRead L e draws =
     (let storage = save_records L e ''topic'' ''test_payload'' 1000
      in thenE (read_each (\<lambda>seq. load_range L storage seq seq) draws)
           (\<lambda>rs. Inr (rs, \<lparr>items_processed = length draws, bytes_processed = 0\<rparr>)))"

definition BM_LMDB_RangeScan ::
    "('e, 't) lmdb \<Rightarrow> 'e \<Rightarrow> nat \<Rightarrow> nat \<Rightarrow> exn + (uint64 \<times> bytes \<times> bytes) list list \<times> report" where
  "BM_LMDB_RangeScan L e range_size iterations =
     (let storage = save_records L e ''topic'' ''test'' 10000
      in thenE (read_each (\<lambda>_. load_range L storage 1 (word_of_nat range_size)) [0..<iterations])
           (\<lambda>rs. Inr (rs, \<lparr>items_processed = iterations * range_size, bytes_processed = 0\<rparr>)))"

definition save_acks :: "('e, 't) lmdb \<Rightarrow> 'e \<Rightarrow> bytes \<Rightarrow> nat \<Rightarrow> 'e" where
  "save_acks L e client n = foldl (\<lambda>e i. save_ack L e client (word_of_nat i)) e [1..<n + 1]"

definition BM_LMDB_ACK_Write :: "('e, 't) lmdb \<Rightarrow> 'e \<Rightarrow> nat \<Rightarrow> 'e \<times> report" where
  "BM_LMDB_ACK_Write L e iterations =
     (save_acks L e ''bench_client'' iterations, \<lparr>items_processed = iterations, bytes_processed = 0\<rparr>)"

definition BM_LMDB_ACK_Load :: "('e, 't) lmdb \<Rightarrow> 'e \<Rightarrow> nat \<Rightarrow> nat \<Rightarrow> uint64 set list \<times> report" where
  "BM_LMDB_ACK_Load L e num_acks iterations =
     (let storage = save_acks L e ''bench_client'' num_acks
      in (map (\<lambda>_. load_acks L storage ''bench_client'') [0..<iterations],
          \<lparr>items_processed = iterations * num_acks, bytes_processed = 0\<rparr>))"

section \<open>The throughput program\<close>

text \<open>
  \<^verbatim>\<open>argv\<close> without the program name. A number that cannot be read leaves the default; \<^verbatim>\<open>stoul\<close> and \<^verbatim>\<open>stoull\<close> are alike where
  \<^verbatim>\<open>long\<close> has 64 bits, and both take a negative number modulo \<open>2 ^ 64\<close>.
\<close>

definition number_or :: "uint64 \<Rightarrow> bytes \<Rightarrow> uint64" where
  "number_or d arg = (case stoull arg of Inr n \<Rightarrow> n | Inl _ \<Rightarrow> d)"

definition throughput_args :: "bytes list \<Rightarrow> uint64 \<times> uint64" where
  "throughput_args args =
     (if 1 \<le> length args then number_or 100000 (args ! 0) else 100000,
      if 2 \<le> length args then number_or 256 (args ! 1) else 256)"

text \<open>
  \<open>max_size\<close> is that of \<^verbatim>\<open>std::string\<close>, beyond which its constructor throws. The value is what was done up to the
  report.
\<close>

definition throughput_main :: "nat \<Rightarrow> net \<Rightarrow> bytes list \<Rightarrow> io \<times> exn option" where
  "throughput_main max_size N args =
     (let (count, payload) = throughput_args args; topic = ''bench/throughput''
      in if max_size < unat payload then (io_new, Some Length_error)
         else let msg = replicate (unat payload) CHR ''x'';
                  header = ''MetricMQ Throughput Benchmark'' @ newline @ ''  Messages : '' @ to_string (unat count) @ newline @
                    ''  Payload  : '' @ to_string (unat payload) @ '' bytes'' @ newline @ ''  Topic    : '' @ topic @ newline @ newline;
                  st0 = Publisher_new N ''127.0.0.1'' 6379 (cout header io_new);
                  st1 = ((\<lambda>st. Publisher_send N st topic msg) ^^ 1000) st0;
                  st2 = ((\<lambda>st. Publisher_send N st topic msg) ^^ unat count) st1
              in (Publisher_delete st2, None))"

section \<open>The protocol benchmark\<close>

text \<open>The table of message sizes: the payload size with the sizes on the wire in both protocols.\<close>

definition size_analysis :: "(nat \<times> nat \<times> nat) list" where
  "size_analysis =
     map (\<lambda>n. (n, benchmarkMessageSize ''RESP'' n, benchmarkMessageSize ''Binary'' n)) [0, 8, 16, 32, 64, 128, 256, 512, 1024]"

text \<open>
  The value is what was done, the exception that left the loop, if any, and the \<^verbatim>\<open>wire_size_bytes\<close> of the result;
  \<open>replies k\<close> is what the binary publisher's \<^verbatim>\<open>recv\<close> returns after its \<open>k\<close>-th frame.
\<close>

definition benchmarkThroughput :: "net \<Rightarrow> (nat \<Rightarrow> bytes option) \<Rightarrow> bytes \<Rightarrow> nat \<Rightarrow> nat \<Rightarrow> io \<times> exn option \<times> nat" where
  "benchmarkThroughput N replies protocol num_messages payload_size =
     (let topic = ''benchmark''; payload = replicate payload_size CHR ''X'';
          i0 = cout (''Benchmarking '' @ protocol @ '' throughput ('' @ to_string num_messages @ '' messages, '' @
            to_string payload_size @ ''B payload)...'' @ newline) io_new
      in if protocol = ''RESP''
         then case send_each (\<lambda>_ st msg. (Publisher_send N st topic msg, None)) (\<lambda>_. []) 0 (Publisher_new N ''127.0.0.1'' 6379 i0)
                     (replicate num_messages payload) of
                (st, x) \<Rightarrow> (Publisher_delete st, x, calculateRespSize topic payload)
         else case send_each (\<lambda>k st msg. BinaryPublisher_send N (replies k) st topic msg) (\<lambda>_. []) 0 (BinaryPublisher_new N ''127.0.0.1'' 6379 i0)
                     (replicate num_messages payload) of
                (st, x) \<Rightarrow> (BinaryPublisher_delete st, x, calculateBinarySize topic payload))"

section \<open>What they do\<close>

lemma length_numbered:
  "length (concat (map serialize (numbered_publishes t q (replicate n x)))) = n * calculateBinarySize t x"
  by (induction n arbitrary: q) (simp_all add: calculateBinarySize_def serialize_split frame_defs frame_trailer_def)

lemma length_text_publish:
  "length (resp_serialize (makeArray [''PUBLISH'', t, x])) = calculateRespSize t x"
  using size_formulas_exact by simp

lemma repeat_sends:
  assumes "sends_all N" and "rpub_sock (fst st) \<noteq> -1"
  shows "fst (((\<lambda>st. Publisher_send N st topic msg) ^^ n) st) = fst st \<and>
    io_out (snd (((\<lambda>st. Publisher_send N st topic msg) ^^ n) st)) =
      io_out (snd st) @ concat (replicate n (resp_serialize (makeArray [''PUBLISH'', topic, msg])))"
proof (induction n)
  case (Suc n)
  then show ?case
    using assms
    by (auto simp: Publisher_send_def case_prod_beta Let_def sock_send_all replicate_append_same [symmetric] simp del: resp_serialize.simps)
qed simp

lemma throughput_sent:
  assumes "works N" and "throughput_args args = (count, payload)" and "unat payload \<le> max_size"
  shows "\<exists>i. throughput_main max_size N args = (i, None) \<and> io_out i =
    concat (replicate (1000 + unat count) (resp_serialize (makeArray [''PUBLISH'', ''bench/throughput'', replicate (unat payload) CHR ''x''])))"
proof -
  have N: "sends_all N" "net_socket N \<noteq> -1" using assms(1) by (simp_all add: works_def)
  have new: "fst (Publisher_new N host port i) = \<lparr>rpub_sock = net_socket N\<rparr>" "io_out (snd (Publisher_new N host port i)) = io_out i" for host port i
    using assms(1) by (simp_all add: Publisher_new_def works_open)
  show ?thesis
    using assms(2,3) N new
    by (simp add: throughput_main_def Let_def close_out repeat_sends replicate_add del: resp_serialize.simps)
qed

lemma read_each_const: "(\<And>x. x \<in> set xs \<Longrightarrow> f x = Inr y) \<Longrightarrow> read_each f xs = Inr (replicate (length xs) y)"
  by (induction xs) simp_all

lemma save_records_unread:
  assumes "lmdb_engine L eview tview" and "eview e = Map.empty" and "CHR 0x00 \<notin> set topic" and "CHR 0x00 \<notin> set payload"
  shows "load_range L (save_records L e topic payload n) a b = Inr []"
  unfolding save_records_def by (rule text_messages_never_replayed [OF assms(1,2)]) (use assms(3,4) in auto)

lemma save_records_Suc:
  "save_records L e topic payload (Suc n) = save L (save_records L e topic payload n) (word_of_nat (Suc n)) topic payload"
  by (simp add: save_records_def save_all_def)

lemma save_acks_Suc: "save_acks L e c (Suc n) = save_ack L (save_acks L e c n) c (word_of_nat (Suc n))"
  by (simp add: save_acks_def)

context lmdb_healthy
begin

lemma save_records_stored:
  assumes "eview e = Map.empty"
  shows "stored_seq (eview (save_records L e topic payload n)) = word_of_nat n \<and>
    (\<forall>k \<in> {1..n}. eview (save_records L e topic payload n) (msg_key (word_of_nat k)) = Some (topic @ payload))"
proof (induction n)
  case 0
  show ?case by (simp add: save_records_def save_all_def assms stored_seq_def)
next
  case (Suc n)
  have "saved v topic payload (msg_key (1 + word_of_nat n)) = Some (topic @ payload)" if "stored_seq v = word_of_nat n" for v
    using that by (simp add: saved_def add.commute)
  moreover have "saved v topic payload (msg_key w) = Some (topic @ payload)" if "v (msg_key w) = Some (topic @ payload)" for v w
    using that by (simp add: saved_def)
  ultimately show ?case using Suc by (auto simp: save_records_Suc save_healthy atLeastAtMostSuc_conv add.commute)
qed

lemma save_acks_loaded:
  assumes "eview e = Map.empty" and "CHR '':'' \<notin> set c" and "length c \<le> 486"
  shows "load_acks L (save_acks L e c n) c = word_of_nat ` {1..n}"
proof (induction n)
  case 0
  show ?case using assms key_ok_ack [OF assms(3), of 0] by (simp add: save_acks_def load_acks_healthy stored_acks_def)
next
  case (Suc n)
  then show ?case
    using key_ok_ack [OF assms(3)]
    by (simp add: save_acks_Suc load_acks_healthy save_ack_healthy stored_acks_save_ack [OF assms(2)] atLeastAtMostSuc_conv)
qed

end

section \<open>Properties\<close>

text \<open>
  The writing benchmarks measure what they say. On an engine without faults and a fresh store, the sequential write
  leaves one record per iteration, numbered from 1, and the acknowledgement load returns, in every iteration, exactly
  the acknowledgements stored before; the items reported are the records and numbers processed.
\<close>

theorem write_benchmarks_sound:
  assumes "lmdb_healthy L eview tview" and "eview e = Map.empty"
  shows "get_last_seq L (fst (BM_LMDB_SequentialWrite L e psize n)) = word_of_nat n \<and>
    (\<forall>k \<in> {1..n}. eview (fst (BM_LMDB_SequentialWrite L e psize n)) (msg_key (word_of_nat k)) =
       Some (''bench/topic'' @ replicate psize CHR ''x'')) \<and>
    bytes_processed (snd (BM_LMDB_SequentialWrite L e psize n)) = n * psize \<and>
    load_acks L (fst (BM_LMDB_ACK_Write L e n)) ''bench_client'' = word_of_nat ` {1..n} \<and>
    BM_LMDB_ACK_Load L e a n = (replicate n (word_of_nat ` {1..a}), \<lparr>items_processed = n * a, bytes_processed = 0\<rparr>)"
  using lmdb_healthy.save_records_stored [OF assms, of "''bench/topic''" "replicate psize CHR ''x''" n]
    lmdb_healthy.save_acks_loaded [OF assms, of "''bench_client''"]
  by (simp add: BM_LMDB_SequentialWrite_def BM_LMDB_ACK_Write_def BM_LMDB_ACK_Load_def Let_def
      lmdb_healthy.get_last_seq_healthy [OF assms(1)] map_replicate_const)

theorem write_benchmarks_sound_witness:
  "BM_LMDB_ACK_Load (rbt_lmdb (\<lambda>_. False)) RBT.empty 3 2 =
    (replicate 2 (word_of_nat ` {1..3}), \<lparr>items_processed = 6, bytes_processed = 0\<rparr>)"
  using write_benchmarks_sound [OF rbt_lmdb_healthy, of RBT.empty 0 2 3] by simp

text \<open>
  The reading benchmarks measure nothing: whatever the engine does, none of their \<^verbatim>\<open>load_range\<close> calls returns a
  record, since the records were stored without a separator. They still report one item per draw, and the range size per
  scan.
\<close>

theorem read_benchmarks_read_nothing:
  assumes "lmdb_engine L eview tview" and "eview e = Map.empty"
  shows "BM_LMDB_RandomRead L e draws = Inr (replicate (length draws) [], \<lparr>items_processed = length draws, bytes_processed = 0\<rparr>) \<and>
    BM_LMDB_RangeScan L e range_size n = Inr (replicate n [], \<lparr>items_processed = n * range_size, bytes_processed = 0\<rparr>)"
  by (simp add: BM_LMDB_RandomRead_def BM_LMDB_RangeScan_def Let_def save_records_unread [OF assms] read_each_const [where y = "[]"])

theorem read_benchmarks_read_nothing_witness:
  "BM_LMDB_RangeScan (rbt_lmdb (\<lambda>_. False)) RBT.empty 1000 2 = Inr ([[], []], \<lparr>items_processed = 2000, bytes_processed = 0\<rparr>)"
  using read_benchmarks_read_nothing [OF rbt_engine.lmdb_engine_axioms, of RBT.empty "\<lambda>_. False" "[]" 1000 2]
  by (simp add: numeral_2_eq_2)

text \<open>
  The throughput program sends what its command line asks for: counts written as numbers are read back, unreadable
  ones leave the defaults, and with a working connection the broker receives exactly \<open>count\<close> commands after the thousand of
  the warm-up, each publishing a payload of the requested size, provided that size is within the limit on bulk strings. A
  size above what a string can hold ends the program before it connects.
\<close>

theorem throughput_program:
  "throughput_args [to_string (unat c), to_string (unat p)] = (c, p) \<and> throughput_args [] = (100000, 256) \<and>
   (max_size < unat p \<longrightarrow> throughput_main max_size N [to_string (unat c), to_string (unat p)] = (io_new, Some Length_error)) \<and>
   (works N \<and> unat p \<le> max_size \<and> int (unat p) \<le> MAX_BULK_LEN \<longrightarrow>
      text_session s (io_out (fst (throughput_main max_size N [to_string (unat c), to_string (unat p)]))) =
        (s, Connect 0) # replicate (1000 + unat c) (s, Command (makeArray [''PUBLISH'', ''bench/throughput'', replicate (unat p) CHR ''x''])))"
proof -
  have args: "throughput_args [to_string (unat c), to_string (unat p)] = (c, p)" by (simp add: throughput_args_def number_or_def)
  have "text_session s (io_out (fst (throughput_main max_size N [to_string (unat c), to_string (unat p)]))) =
      (s, Connect 0) # replicate (1000 + unat c) (s, Command (makeArray [''PUBLISH'', ''bench/throughput'', replicate (unat p) CHR ''x'']))"
    if "works N" "unat p \<le> max_size" "int (unat p) \<le> MAX_BULK_LEN"
  proof -
    let ?v = "makeArray [''PUBLISH'', ''bench/throughput'', replicate (unat p) CHR ''x'']"
    have "list_all valid_resp (replicate (1000 + unat c) ?v)"
      using that(3) by (auto simp: list_all_iff makeArray_def MAX_ARRAY_COUNT_def MAX_BULK_LEN_def)
    from text_session_eq [OF this, of s] throughput_sent [OF that(1) args that(2)] show ?thesis
      by (auto simp del: resp_serialize.simps replicate.simps)
  qed
  moreover have "throughput_main max_size N [to_string (unat c), to_string (unat p)] = (io_new, Some Length_error)" if "max_size < unat p"
    using that by (simp add: throughput_main_def args Let_def)
  ultimately show ?thesis using args by (simp add: throughput_args_def)
qed

theorem throughput_program_witness:
  "text_session 2 (io_out (fst (throughput_main (2 ^ 62) demo_net [to_string (unat (5 :: uint64)), to_string (unat (16 :: uint64))]))) =
    (2, Connect 0) # replicate 1005 (2, Command (makeArray [''PUBLISH'', ''bench/throughput'', replicate 16 CHR ''x'']))"
  using throughput_program [of 5 16 "2 ^ 62" demo_net 2] demo_works by (simp add: MAX_BULK_LEN_def)

text \<open>
  The protocol benchmark reports true sizes: on a working connection the bytes it writes are the number of messages
  times the wire size of its result, in both protocols and for every payload size, and in every row of its size table the
  text protocol needs at least 13 bytes more.
\<close>

theorem protocol_benchmark_sizes:
  assumes "works N"
  shows "(\<exists>i w. benchmarkThroughput N replies protocol n psize = (i, None, w) \<and> length (io_out i) = n * w) \<and>
    list_all (\<lambda>(p, resp, binary). 25 + p = binary \<and> binary + 13 \<le> resp) size_analysis"
proof
  let ?x = "replicate psize CHR ''X''"
  show "\<exists>i w. benchmarkThroughput N replies protocol n psize = (i, None, w) \<and> length (io_out i) = n * w"
  proof (cases "protocol = ''RESP''")
    case True
    obtain p i' where "send_each (\<lambda>_ st m. (Publisher_send N st ''benchmark'' m, None)) (\<lambda>_. []) 0 (Publisher_new N ''127.0.0.1'' 6379
        (cout (''Benchmarking '' @ protocol @ '' throughput ('' @ to_string n @ '' messages, '' @ to_string psize @ ''B payload)...'' @ newline) io_new))
        (replicate n ?x) = ((p, i'), None)" "io_out i' = concat (map resp_serialize (map (\<lambda>m. makeArray [''PUBLISH'', ''benchmark'', m]) (replicate n ?x)))"
      using text_sender [OF assms] by fastforce
    with True show ?thesis
      by (simp add: benchmarkThroughput_def Let_def close_out length_concat sum_list_replicate length_text_publish del: resp_serialize.simps)
  next
    case False
    obtain p i' where "send_each (\<lambda>k st m. BinaryPublisher_send N (replies k) st ''benchmark'' m) (\<lambda>_. []) 0 (BinaryPublisher_new N ''127.0.0.1'' 6379
        (cout (''Benchmarking '' @ protocol @ '' throughput ('' @ to_string n @ '' messages, '' @ to_string psize @ ''B payload)...'' @ newline) io_new))
        (replicate n ?x) = ((p, i'), None)" "io_out i' = concat (map serialize (numbered_publishes ''benchmark'' 0 (replicate n ?x)))"
      using binary_sender [OF assms] by fastforce
    with False show ?thesis by (simp add: benchmarkThroughput_def Let_def close_out length_numbered)
  qed
  have "benchmarkMessageSize ''Binary'' k + 13 \<le> benchmarkMessageSize ''RESP'' k \<and> benchmarkMessageSize ''Binary'' k = 25 + k" for k
    using size_formulas_exact [of "''benchmark''" "replicate k CHR ''X''" 0] by (simp add: benchmarkMessageSize_def calculateBinarySize_def Let_def)
  then show "list_all (\<lambda>(p, resp, binary). 25 + p = binary \<and> binary + 13 \<le> resp) size_analysis"
    unfolding size_analysis_def list.pred_map by (simp only: comp_def prod.case list_all_iff) (metis (no_types))
qed

theorem protocol_benchmark_sizes_witness:
  "\<exists>i w. benchmarkThroughput demo_net (\<lambda>_. None) ''Binary'' 10000 64 = (i, None, w) \<and> length (io_out i) = 10000 * w"
  using protocol_benchmark_sizes [OF demo_works] by blast

end
