(* ===== verification/Benchmark_Threads.thy ===== *)
theory Benchmark_Threads
  imports Prelude
begin

text \<open>
  The benchmarks of \<^verbatim>\<open>benchmark/latency_benchmark.cpp\<close> and \<^verbatim>\<open>benchmark/throughput_benchmark.cpp\<close> as concurrent programs: each
  thread is a list of statements, the atomics are shared state, and a step relation interleaves the threads. The timed
  loop \<^verbatim>\<open>for (auto _ : state)\<close> is unrolled for the number of iterations that the benchmark library chooses. A finished
  benchmark is one whose main thread has no statement left.
\<close>

section \<open>Statements and steps\<close>

text \<open>
  \<open>Do_subscribe\<close> is the construction of a \<^verbatim>\<open>BinarySubscriber\<close> and its \<^verbatim>\<open>subscribe\<close> call, whose callback increments the shared
  counter (the client id plays no part and is left out); the waiting loops are the \<open>Await\<close> statements, \<open>Note_received\<close> is
  \<^verbatim>\<open>initial = received_count.load()\<close>, and sleeps are left out. A send that throws ends the process and is no step.
\<close>

datatype stmt =
    Do_subscribe bytes
  | Do_open_publisher
  | Do_send bytes bytes
  | Count_published
  | Set_ready
  | Clear_running
  | Await_ready
  | Await_stopped
  | Await_received nat
  | Note_received
  | Await_more
  | While_running "stmt list"
  | Join nat

record bench =
  prog :: "nat \<Rightarrow> stmt list"
  bench_ready :: bool
  bench_running :: bool
  received_count :: nat
  initial_count :: nat
  published_count :: nat
  bench_sends :: "(bytes \<times> bytes) list"
  sub_returned :: "nat list"

definition bench_start :: "(nat \<Rightarrow> stmt list) \<Rightarrow> bench" where
  "bench_start p =
     \<lparr>prog = p, bench_ready = False, bench_running = True, received_count = 0, initial_count = 0, published_count = 0,
      bench_sends = [], sub_returned = []\<rparr>"

definition advance :: "nat \<Rightarrow> stmt list \<Rightarrow> bench \<Rightarrow> bench" where
  "advance t rest st = st\<lparr>prog := (prog st)(t := rest)\<rparr>"

text \<open>
  The two rules of \<open>Do_subscribe\<close> are those of the receive loop: it runs the callback for a message that arrives and
  returns only when the connection could not be opened or has ended, after which the subscriber gets nothing.
\<close>

inductive bench_step :: "bench \<Rightarrow> bench \<Rightarrow> bool" where
  deliver: "prog st t = Do_subscribe topic # rest \<Longrightarrow> bench_step st (st\<lparr>received_count := received_count st + 1\<rparr>)"
| subscribe_returns: "prog st t = Do_subscribe topic # rest \<Longrightarrow>
    bench_step st (advance t rest (st\<lparr>sub_returned := sub_returned st @ [t]\<rparr>))"
| open_publisher: "prog st t = Do_open_publisher # rest \<Longrightarrow> bench_step st (advance t rest st)"
| send: "prog st t = Do_send topic payload # rest \<Longrightarrow>
    bench_step st (advance t rest (st\<lparr>bench_sends := bench_sends st @ [(topic, payload)]\<rparr>))"
| published: "prog st t = Count_published # rest \<Longrightarrow>
    bench_step st (advance t rest (st\<lparr>published_count := published_count st + 1\<rparr>))"
| ready: "prog st t = Set_ready # rest \<Longrightarrow> bench_step st (advance t rest (st\<lparr>bench_ready := True\<rparr>))"
| stop: "prog st t = Clear_running # rest \<Longrightarrow> bench_step st (advance t rest (st\<lparr>bench_running := False\<rparr>))"
| is_ready: "prog st t = Await_ready # rest \<Longrightarrow> bench_ready st \<Longrightarrow> bench_step st (advance t rest st)"
| is_stopped: "prog st t = Await_stopped # rest \<Longrightarrow> \<not> bench_running st \<Longrightarrow> bench_step st (advance t rest st)"
| has_received: "prog st t = Await_received n # rest \<Longrightarrow> n \<le> received_count st \<Longrightarrow> bench_step st (advance t rest st)"
| note_received: "prog st t = Note_received # rest \<Longrightarrow>
    bench_step st (advance t rest (st\<lparr>initial_count := received_count st\<rparr>))"
| has_more: "prog st t = Await_more # rest \<Longrightarrow> received_count st \<noteq> initial_count st \<Longrightarrow> bench_step st (advance t rest st)"
| loop_on: "prog st t = While_running body # rest \<Longrightarrow> bench_running st \<Longrightarrow>
    bench_step st (advance t (body @ While_running body # rest) st)"
| loop_off: "prog st t = While_running body # rest \<Longrightarrow> \<not> bench_running st \<Longrightarrow> bench_step st (advance t rest st)"
| joined: "prog st t = Join u # rest \<Longrightarrow> prog st u = [] \<Longrightarrow> bench_step st (advance t rest st)"

inductive_cases bench_stepE: "bench_step st st'"

lemma advance_sel [simp]:
  "prog (advance t rest st) = (prog st)(t := rest)" "bench_ready (advance t rest st) = bench_ready st"
  "bench_running (advance t rest st) = bench_running st" "received_count (advance t rest st) = received_count st"
  "initial_count (advance t rest st) = initial_count st" "published_count (advance t rest st) = published_count st"
  "bench_sends (advance t rest st) = bench_sends st" "sub_returned (advance t rest st) = sub_returned st"
  by (simp_all add: advance_def)

lemma bench_start_sel [simp]:
  "prog (bench_start p) = p" "bench_ready (bench_start p) = False" "bench_running (bench_start p) = True"
  "received_count (bench_start p) = 0" "published_count (bench_start p) = 0" "bench_sends (bench_start p) = []" "sub_returned (bench_start p) = []"
  by (simp_all add: bench_start_def)

definition finished :: "bench \<Rightarrow> bool" where
  "finished st \<longleftrightarrow> prog st 0 = []"

text \<open>Main thread and workers \<open>1 \<dots> k\<close>.\<close>

definition threads :: "stmt list \<Rightarrow> nat \<Rightarrow> (nat \<Rightarrow> stmt list) \<Rightarrow> nat \<Rightarrow> stmt list" where
  "threads main k worker t = (if t = 0 then main else if t \<le> k then worker t else [])"

section \<open>The benchmarks\<close>

text \<open>\<open>n\<close> is the number of iterations, \<open>psize\<close> the argument of the benchmark.\<close>

definition BM_PublishLatency_NoSubscribers :: "nat \<Rightarrow> nat \<Rightarrow> bench" where
  "BM_PublishLatency_NoSubscribers psize n =
     bench_start (threads (Do_open_publisher # replicate n (Do_send ''bench/test'' (replicate psize CHR ''x''))) 0 (\<lambda>_. []))"

definition BM_EndToEndLatency :: "nat \<Rightarrow> bench" where
  "BM_EndToEndLatency n =
     bench_start (threads
       ([Await_ready, Do_open_publisher] @
        concat (replicate n [Do_send ''bench/e2e'' ''benchmark_message'', Note_received, Await_more]) @ [Join 1])
       1 (\<lambda>_. [Do_subscribe ''bench/e2e'', Set_ready, Await_received n]))"

definition BM_AckLatency :: "nat \<Rightarrow> bench" where
  "BM_AckLatency n =
     bench_start (threads
       ([Do_subscribe ''bench/ack'', Do_open_publisher] @
        concat (replicate n [Do_send ''bench/ack'' ''test'', Note_received, Await_more])) 0 (\<lambda>_. []))"

definition BM_SubscribeLatency :: "nat \<Rightarrow> bench" where
  "BM_SubscribeLatency n = bench_start (threads (replicate n (Do_subscribe ''bench/subscribe'')) 0 (\<lambda>_. []))"

definition BM_SinglePublisher_Throughput :: "nat \<Rightarrow> nat \<Rightarrow> bench" where
  "BM_SinglePublisher_Throughput psize n =
     bench_start (threads (Do_open_publisher # replicate n (Do_send ''bench/throughput'' (replicate psize CHR ''x''))) 0 (\<lambda>_. []))"

definition multi_payload :: "nat \<Rightarrow> bytes" where
  "multi_payload t = ''benchmark_message_'' @ to_string (t - 1)"

definition BM_MultiPublisher_Throughput :: "nat \<Rightarrow> bench" where
  "BM_MultiPublisher_Throughput k =
     bench_start (threads (Clear_running # map Join [1..<k + 1]) k
       (\<lambda>t. [Do_open_publisher, While_running [Do_send ''bench/multi'' (multi_payload t), Count_published]]))"

definition BM_SingleSubscriber_Throughput :: "nat \<Rightarrow> bench" where
  "BM_SingleSubscriber_Throughput n =
     bench_start (threads
       (Do_open_publisher # replicate n (Do_send ''bench/sub_throughput'' ''test_message'') @ [Clear_running, Join 1])
       1 (\<lambda>_. [Do_subscribe ''bench/sub_throughput'', Await_stopped]))"

definition BM_FanOut_Throughput :: "nat \<Rightarrow> nat \<Rightarrow> bench" where
  "BM_FanOut_Throughput k n =
     bench_start (threads
       (Do_open_publisher # concat (replicate n [Do_send ''bench/fanout'' ''message'', Count_published]) @ Clear_running # map Join [1..<k + 1])
       k (\<lambda>_. [Do_subscribe ''bench/fanout'', Await_stopped]))"

section \<open>Waiting for a message after the subscription has ended\<close>

text \<open>
  Both latency benchmarks with a subscriber: while the subscribe call runs nothing is sent, and once it has returned no
  message arrives any more, so the first wait for one never ends.
\<close>

definition waits_forever :: "bench \<Rightarrow> bool" where
  "waits_forever st \<longleftrightarrow>
     (\<forall>t s. s \<in> set (prog st t) \<longrightarrow> (\<forall>topic. s \<noteq> Do_subscribe topic) \<and> (\<forall>body. s \<noteq> While_running body) \<and> (s = Note_received \<longrightarrow> t = 0)) \<and>
     (\<exists>pre rest. prog st 0 = pre @ Await_more # rest \<and> (Note_received \<in> set pre \<or> initial_count st = received_count st))"

lemma waits_head:
  "waits_forever st \<Longrightarrow> prog st t = s # rest \<Longrightarrow> s \<noteq> Do_subscribe topic \<and> s \<noteq> While_running body \<and> (s = Note_received \<longrightarrow> t = 0)"
  unfolding waits_forever_def by (metis list.set_intros(1))

lemma waits_tail:
  assumes "waits_forever st" and "prog st t = s # rest" and "received_count st' = received_count st" and "prog st' = (prog st)(t := rest)"
    and "initial_count st' = (if s = Note_received then received_count st else initial_count st)"
    and "s = Await_more \<Longrightarrow> received_count st \<noteq> initial_count st"
  shows "waits_forever st'"
proof -
  from assms(1) obtain pre suf where pre: "prog st 0 = pre @ Await_more # suf" "Note_received \<in> set pre \<or> initial_count st = received_count st"
    by (auto simp: waits_forever_def)
  have "\<exists>pre suf. prog st' 0 = pre @ Await_more # suf \<and> (Note_received \<in> set pre \<or> initial_count st' = received_count st')"
  proof (cases "t = 0")
    case True
    then obtain pre' where "pre = s # pre'" "rest = pre' @ Await_more # suf"
      using assms(2,6) pre by (cases pre) auto
    with True pre(2) assms show ?thesis by (auto split: if_splits)
  next
    case False
    moreover have "s \<noteq> Note_received" using waits_head [OF assms(1,2)] False by blast
    ultimately show ?thesis using pre assms by auto
  qed
  moreover have "set (prog st' u) \<subseteq> set (prog st u)" for u using assms(2,4) by auto
  ultimately show ?thesis using assms(1) unfolding waits_forever_def by blast
qed

lemma waits_step:
  assumes w: "waits_forever st" and "bench_step st st'"
  shows "waits_forever st'"
  using assms(2) by cases (erule waits_tail [OF w]; simp; fail | blast dest: waits_head [OF w])+

lemma waits_not_finished: "waits_forever st \<Longrightarrow> \<not> finished st"
  by (auto simp: waits_forever_def finished_def)

lemma waits_from:
  assumes "prog st 0 = pre @ Note_received # Await_more # rest"
    and "\<And>s. s \<in> set (pre @ rest) \<Longrightarrow> (\<forall>topic. s \<noteq> Do_subscribe topic) \<and> (\<forall>body. s \<noteq> While_running body)"
    and "\<And>t s. t \<noteq> 0 \<Longrightarrow> s \<in> set (prog st t) \<Longrightarrow> (\<forall>topic. s \<noteq> Do_subscribe topic) \<and> (\<forall>body. s \<noteq> While_running body) \<and> s \<noteq> Note_received"
  shows "waits_forever st"
proof -
  have "(\<forall>topic. s \<noteq> Do_subscribe topic) \<and> (\<forall>body. s \<noteq> While_running body) \<and> (s = Note_received \<longrightarrow> t = 0)" if "s \<in> set (prog st t)" for s t
    using that assms(2,3) by (cases "t = 0") (auto simp: assms(1))
  moreover have "prog st 0 = (pre @ [Note_received]) @ Await_more # rest \<and> Note_received \<in> set (pre @ [Note_received])" by (simp add: assms(1))
  ultimately show ?thesis unfolding waits_forever_def by blast
qed

text \<open>The round trips of the timed loop.\<close>

abbreviation (input) round_trips :: "nat \<Rightarrow> bytes \<Rightarrow> bytes \<Rightarrow> stmt list" where
  "round_trips n topic payload \<equiv> concat (replicate n [Do_send topic payload, Note_received, Await_more])"

lemma set_round_trips: "set (round_trips n topic payload) \<subseteq> {Do_send topic payload, Note_received, Await_more}"
  by auto

lemma e2e_waits:
  assumes "bench_step\<^sup>*\<^sup>* (BM_EndToEndLatency (Suc n)) st"
  shows "prog st = prog (BM_EndToEndLatency (Suc n)) \<and> \<not> bench_ready st \<or> waits_forever st"
  using assms
proof (induction rule: rtranclp_induct)
  case (step st st')
  let ?sub = "[Do_subscribe ''bench/e2e'', Set_ready, Await_received (Suc n)]"
  let ?main = "[Await_ready, Do_open_publisher, Do_send ''bench/e2e'' ''benchmark_message'', Note_received, Await_more] @
    round_trips n ''bench/e2e'' ''benchmark_message'' @ [Join 1]"
  show ?case
  proof (cases "waits_forever st")
    case False
    with step have p: "prog st = threads ?main 1 (\<lambda>_. ?sub)" "\<not> bench_ready st" by (simp_all add: BM_EndToEndLatency_def)
    from step(2) consider "prog st' = prog st" "bench_ready st' = bench_ready st" | "prog st' = (prog st)(1 := tl ?sub)"
      by cases (auto simp: p threads_def le_Suc_eq split: if_splits)
    then show ?thesis
    proof cases
      case 2
      then have "waits_forever st'"
        by (intro waits_from [where pre = "take 3 ?main" and rest = "drop 5 ?main"])
          (auto simp: p threads_def split: if_splits dest: subsetD [OF set_round_trips])
      then show ?thesis ..
    qed (use p in \<open>simp add: BM_EndToEndLatency_def\<close>)
  qed (use waits_step step(2) in blast)
qed (simp add: BM_EndToEndLatency_def)

lemma ack_waits:
  assumes "bench_step\<^sup>*\<^sup>* (BM_AckLatency (Suc n)) st"
  shows "prog st = prog (BM_AckLatency (Suc n)) \<or> waits_forever st"
  using assms
proof (induction rule: rtranclp_induct)
  case (step st st')
  let ?main = "[Do_subscribe ''bench/ack'', Do_open_publisher, Do_send ''bench/ack'' ''test'', Note_received, Await_more] @
    round_trips n ''bench/ack'' ''test''"
  show ?case
  proof (cases "waits_forever st")
    case False
    with step have p: "prog st = threads ?main 0 (\<lambda>_. [])" by (simp add: BM_AckLatency_def)
    from step(2) consider "prog st' = prog st" | "prog st' = (prog st)(0 := tl ?main)"
      by cases (auto simp: p threads_def le_Suc_eq split: if_splits)
    then show ?thesis
    proof cases
      case 2
      then have "waits_forever st'"
        by (intro waits_from [where pre = "take 2 (tl ?main)" and rest = "drop 4 (tl ?main)"])
          (auto simp: p threads_def split: if_splits dest: subsetD [OF set_round_trips])
      then show ?thesis ..
    qed (use p in \<open>simp add: BM_AckLatency_def\<close>)
  qed (use waits_step step(2) in blast)
qed (simp add: BM_AckLatency_def)

section \<open>Joining the subscribers\<close>

text \<open>A step of programs without loops: a delivery, or one thread past its next statement.\<close>

definition loop_free :: "bench \<Rightarrow> bool" where
  "loop_free st \<longleftrightarrow> (\<forall>t body. While_running body \<notin> set (prog st t))"

lemma step_shape:
  assumes "bench_step st st'" and "loop_free st"
  obtains "prog st' = prog st" "sub_returned st' = sub_returned st"
  | t s rest where "prog st t = s # rest" "prog st' = (prog st)(t := rest)" "\<And>u. s = Join u \<Longrightarrow> prog st u = []"
      "sub_returned st' = (if \<exists>topic. s = Do_subscribe topic then sub_returned st @ [t] else sub_returned st)"
proof -
  have "prog st t \<noteq> While_running body # rest" for t body rest
    using assms(2) by (metis list.set_intros(1) loop_free_def)
  with assms(1) show ?thesis by cases (auto intro: that simp: that(1))
qed

definition joins :: "nat \<Rightarrow> bench \<Rightarrow> bool" where
  "joins k st \<longleftrightarrow> loop_free st \<and>
     (\<forall>i \<in> {1..k}. ((\<exists>topic. prog st i = [Do_subscribe topic, Await_stopped]) \<or> i \<in> set (sub_returned st)) \<and>
        (Join i \<in> set (prog st 0) \<or> prog st i = []))"

lemma joins_step:
  assumes "joins k st" and "bench_step st st'"
  shows "joins k st'"
proof -
  have lf: "loop_free st" using assms(1) by (simp add: joins_def)
  show ?thesis
  proof (rule step_shape [OF assms(2) lf])
    assume "prog st' = prog st" "sub_returned st' = sub_returned st"
    with assms(1) show ?thesis by (simp add: joins_def loop_free_def)
  next
    fix t s rest
    assume *: "prog st t = s # rest" "prog st' = (prog st)(t := rest)" "\<And>u. s = Join u \<Longrightarrow> prog st u = []"
      "sub_returned st' = (if \<exists>topic. s = Do_subscribe topic then sub_returned st @ [t] else sub_returned st)"
    have "loop_free st'" using lf *(1,2) by (auto simp: loop_free_def) (metis list.set_intros(2))
    moreover have "((\<exists>topic. prog st' i = [Do_subscribe topic, Await_stopped]) \<or> i \<in> set (sub_returned st')) \<and>
        (Join i \<in> set (prog st' 0) \<or> prog st' i = [])" if "i \<in> {1..k}" for i
    proof -
      have "(\<exists>topic. prog st i = [Do_subscribe topic, Await_stopped]) \<or> i \<in> set (sub_returned st)" "Join i \<in> set (prog st 0) \<or> prog st i = []"
        "i \<noteq> 0" using assms(1) that by (simp_all add: joins_def)
      moreover have "\<forall>u. s = Join u \<longrightarrow> prog st u = []" using *(3) by blast
      ultimately show ?thesis using *(1,2,4) by (cases "t = i"; cases "t = 0") (auto split: if_splits)
    qed
    ultimately show ?thesis by (simp add: joins_def)
  qed
qed

lemma joins_finished: "joins k st \<Longrightarrow> finished st \<Longrightarrow> {1..k} \<subseteq> set (sub_returned st)"
  by (auto simp: joins_def finished_def)

lemma joins_reachable: "bench_step\<^sup>*\<^sup>* st0 st \<Longrightarrow> joins k st0 \<Longrightarrow> joins k st"
  by (induction rule: rtranclp_induct) (auto intro: joins_step)

lemma joins_start: "joins k (BM_FanOut_Throughput k n)" "joins 1 (BM_SingleSubscriber_Throughput n)"
  by (auto simp: joins_def loop_free_def BM_FanOut_Throughput_def BM_SingleSubscriber_Throughput_def threads_def split: if_splits)

section \<open>Publishers\<close>

text \<open>A thread of a publisher runs to its end once the benchmark is stopped.\<close>

definition publishing :: "stmt \<Rightarrow> bool" where
  "publishing s \<longleftrightarrow> s = Do_open_publisher \<or> (\<exists>topic payload. s = Do_send topic payload) \<or> s = Count_published \<or> (\<exists>body. s = While_running body)"

lemma publisher_step:
  assumes "prog st t = s # rest" and "publishing s" and "\<not> bench_running st \<or> (\<forall>body. s \<noteq> While_running body)"
  shows "\<exists>st'. bench_step st st' \<and> prog st' = (prog st)(t := rest) \<and> bench_running st' = bench_running st"
proof -
  have "\<exists>st'. bench_step st st' \<and> (\<exists>st1. st' = advance t rest st1 \<and> prog st1 = prog st \<and> bench_running st1 = bench_running st)"
    using assms(2) unfolding publishing_def
  proof (elim disjE exE)
    fix topic payload
    assume "s = Do_send topic payload"
    with assms(1) have "bench_step st (advance t rest (st\<lparr>bench_sends := bench_sends st @ [(topic, payload)]\<rparr>))" by (intro send) simp
    then show ?thesis by fastforce
  next
    assume "s = Count_published"
    with assms(1) have "bench_step st (advance t rest (st\<lparr>published_count := published_count st + 1\<rparr>))" by (intro published) simp
    then show ?thesis by fastforce
  qed (use assms(1,3) in \<open>auto intro: open_publisher loop_off\<close>)
  then show ?thesis by auto
qed

lemma drain:
  assumes "\<forall>s \<in> set (prog st t). publishing s" and "\<not> bench_running st \<or> (\<forall>body. While_running body \<notin> set (prog st t))"
  shows "\<exists>st'. bench_step\<^sup>*\<^sup>* st st' \<and> prog st' = (prog st)(t := []) \<and> bench_running st' = bench_running st"
  using assms
proof (induction "prog st t" arbitrary: st)
  case Nil
  then show ?case by (intro exI [of _ st]) (auto simp: fun_upd_idem)
next
  case (Cons s rest)
  have p: "prog st t = s # rest" using Cons(2) by simp
  obtain st1 where st1: "bench_step st st1" "prog st1 = (prog st)(t := rest)" "bench_running st1 = bench_running st"
    using publisher_step [OF p] Cons(3,4) p by auto
  have "\<exists>st'. bench_step\<^sup>*\<^sup>* st1 st' \<and> prog st' = (prog st1)(t := []) \<and> bench_running st' = bench_running st1"
    using Cons(3,4) p st1 by (intro Cons(1)) auto
  with st1 show ?case by (auto intro: converse_rtranclp_into_rtranclp)
qed

lemma drain_all:
  assumes "\<forall>t \<in> set ts. \<forall>s \<in> set (prog st t). publishing s" and "\<not> bench_running st"
  shows "\<exists>st'. bench_step\<^sup>*\<^sup>* st st' \<and> prog st' = (\<lambda>t. if t \<in> set ts then [] else prog st t) \<and> \<not> bench_running st'"
  using assms
proof (induction ts arbitrary: st)
  case (Cons t ts)
  then obtain st1 where st1: "bench_step\<^sup>*\<^sup>* st st1" "prog st1 = (prog st)(t := [])" "\<not> bench_running st1"
    using drain [of st t] by auto
  have "\<forall>u \<in> set ts. \<forall>s \<in> set (prog st1 u). publishing s" using Cons.prems(1) st1(2) by simp
  from Cons.IH [OF this st1(3)] obtain st' where "bench_step\<^sup>*\<^sup>* st1 st'" "prog st' = (\<lambda>u. if u \<in> set ts then [] else prog st1 u)" "\<not> bench_running st'"
    by blast
  with st1 show ?case by (intro exI [of _ st']) auto
qed auto

lemma join_all:
  "prog st 0 = map Join us \<Longrightarrow> \<forall>u \<in> set us. u \<noteq> 0 \<and> prog st u = [] \<Longrightarrow> \<exists>st'. bench_step\<^sup>*\<^sup>* st st' \<and> finished st'"
proof (induction us arbitrary: st)
  case (Cons u us)
  then have "bench_step st (advance 0 (map Join us) st)" by (intro joined) auto
  with Cons.IH [of "advance 0 (map Join us) st"] Cons.prems(2) show ?case by (auto intro: converse_rtranclp_into_rtranclp)
qed (auto simp: finished_def)

text \<open>The concurrent publishers: where each thread can be, and the increment that a thread owes the counter.\<close>

abbreviation (input) multi_send :: "nat \<Rightarrow> stmt" where
  "multi_send t \<equiv> Do_send ''bench/multi'' (multi_payload t)"
abbreviation (input) multi_loop :: "nat \<Rightarrow> stmt" where
  "multi_loop t \<equiv> While_running [multi_send t, Count_published]"

inductive publisher_at :: "nat \<Rightarrow> stmt list \<Rightarrow> bool" for t where
  "publisher_at t [Do_open_publisher, multi_loop t]"
| "publisher_at t [multi_loop t]"
| "publisher_at t [multi_send t, Count_published, multi_loop t]"
| "publisher_at t [Count_published, multi_loop t]"
| "publisher_at t []"

inductive_cases publisher_atE: "publisher_at t (s # rest)"

definition owed :: "stmt list \<Rightarrow> nat" where
  "owed p = (if p \<noteq> [] \<and> hd p = Count_published then 1 else 0)"

definition main_at :: "nat \<Rightarrow> bench \<Rightarrow> bool" where
  "main_at k st \<longleftrightarrow>
     prog st 0 = Clear_running # map Join [1..<k + 1] \<and> bench_running st \<or>
     (\<exists>j \<ge> 1. prog st 0 = map Join [j..<k + 1] \<and> \<not> bench_running st \<and> (\<forall>i \<in> {1..<j}. prog st i = []))"

definition multi_inv :: "nat \<Rightarrow> bench \<Rightarrow> bool" where
  "multi_inv k st \<longleftrightarrow>
     main_at k st \<and> (\<forall>t > k. prog st t = []) \<and> (\<forall>t \<in> {1..k}. publisher_at t (prog st t)) \<and>
     published_count st + (\<Sum>t = 1..k. owed (prog st t)) = length (bench_sends st) \<and>
     (\<forall>m \<in> set (bench_sends st). \<exists>t \<in> {1..k}. m = (''bench/multi'', multi_payload t))"

lemma sum_upd:
  "t \<in> {1..k} \<Longrightarrow> (\<Sum>i = 1..k. owed ((g(t := x)) i)) + owed (g t) = (\<Sum>i = 1..k. owed (g i)) + owed x"
  for g :: "nat \<Rightarrow> stmt list"
  using sum.remove [of "{1..k}" t "\<lambda>i. owed (g i)"] sum.remove [of "{1..k}" t "\<lambda>i. owed ((g(t := x)) i)"]
  by (simp cong: sum.cong_simp)

lemma sum_upd_0: "(\<Sum>i = 1..k. owed ((g(0 := x)) i)) = (\<Sum>i = 1..k. owed (g i))" for g :: "nat \<Rightarrow> stmt list"
  by (rule sum.cong) auto

text \<open>One publisher's step keeps the account.\<close>

lemma multi_worker:
  assumes "multi_inv k st" and "t \<in> {1..k}" and "prog st' = (prog st)(t := rest)" and "publisher_at t rest"
    and "bench_running st' = bench_running st" and "prog st t \<noteq> []"
    and "bench_sends st' = bench_sends st @ ms" and "set ms \<subseteq> {(''bench/multi'', multi_payload t)}"
    and "published_count st' + owed rest = published_count st + owed (prog st t) + length ms"
  shows "multi_inv k st'"
proof -
  have "main_at k st'" using assms(1,2,3,5,6) unfolding multi_inv_def main_at_def by auto
  moreover have "\<forall>u > k. prog st' u = []" "\<forall>u \<in> {1..k}. publisher_at u (prog st' u)"
    using assms(1-4) by (auto simp: multi_inv_def)
  moreover have "published_count st' + (\<Sum>u = 1..k. owed (prog st' u)) = length (bench_sends st')"
    using assms(1,9) sum_upd [OF assms(2), of "prog st" rest] by (simp add: multi_inv_def assms(3,7))
  moreover have "\<forall>m \<in> set (bench_sends st'). \<exists>u \<in> {1..k}. m = (''bench/multi'', multi_payload u)"
    using assms(1,2,8) by (auto simp: multi_inv_def assms(7))
  ultimately show ?thesis by (simp add: multi_inv_def)
qed

lemma multi_main:
  assumes "multi_inv k st" and "prog st' = (prog st)(0 := rest)" and "main_at k st'"
    and "bench_sends st' = bench_sends st" and "published_count st' = published_count st"
  shows "multi_inv k st'"
  using assms sum_upd_0 [of "prog st" rest k] by (auto simp: multi_inv_def)

lemma multi_head:
  assumes "multi_inv k st" and "prog st t = s # rest"
  obtains "t = 0" "s = Clear_running" "rest = map Join [1..<k + 1]"
  | j where "t = 0" "1 \<le> j" "j \<le> k" "s = Join j" "rest = map Join [Suc j..<k + 1]" "\<forall>i \<in> {1..<j}. prog st i = []" "\<not> bench_running st"
  | "t \<in> {1..k}" "publisher_at t (s # rest)"
proof (cases "t = 0")
  case True
  with assms have "prog st 0 = s # rest" "main_at k st" by (auto simp: multi_inv_def)
  then show ?thesis
    unfolding main_at_def
  proof (elim disjE exE conjE)
    fix j
    assume j: "1 \<le> j" "prog st 0 = map Join [j..<k + 1]" "prog st 0 = s # rest" "\<not> bench_running st" "\<forall>i \<in> {1..<j}. prog st i = []"
    then have "j \<le> k" by (cases "j \<le> k") auto
    with j have "[j..<k + 1] = j # [Suc j..<k + 1]" by (simp add: upt_conv_Cons)
    then have "s # rest = Join j # map Join [Suc j..<k + 1]" using j(2,3) by (metis list.simps(9))
    then have "s = Join j" "rest = map Join [Suc j..<k + 1]" by (simp_all only: list.inject)
    with j \<open>j \<le> k\<close> True show ?thesis by (intro that(2))
  qed (use True in \<open>auto intro: that(1)\<close>)
next
  case False
  with assms have "t \<in> {1..k}" by (metis One_nat_def Suc_leI atLeastAtMost_iff gr0I list.distinct(1) multi_inv_def not_le)
  moreover from this have "publisher_at t (prog st t)" using assms(1) by (simp add: multi_inv_def)
  ultimately show ?thesis using assms(2) by (intro that(3)) simp_all
qed

lemma multi_step:
  assumes inv: "multi_inv k st" and "bench_step st st'"
  shows "multi_inv k st'"
  using assms(2)
proof cases
  case (send t topic payload rest)
  then have "t \<in> {1..k}" "publisher_at t (Do_send topic payload # rest)" by (auto elim: multi_head [OF inv])
  with send show ?thesis
    by (intro multi_worker [OF inv, of t _ rest "[(topic, payload)]"]) (auto elim!: publisher_atE intro: publisher_at.intros simp: owed_def)
next
  case (published t rest)
  then have "t \<in> {1..k}" "publisher_at t (Count_published # rest)" by (auto elim: multi_head [OF inv])
  with published show ?thesis
    by (intro multi_worker [OF inv, of t _ rest "[]"]) (auto elim!: publisher_atE intro: publisher_at.intros simp: owed_def)
next
  case (open_publisher t rest)
  then have "t \<in> {1..k}" "publisher_at t (Do_open_publisher # rest)" by (auto elim: multi_head [OF inv])
  with open_publisher show ?thesis
    by (intro multi_worker [OF inv, of t _ rest "[]"]) (auto elim!: publisher_atE intro: publisher_at.intros simp: owed_def)
next
  case (loop_on t body rest)
  then have "t \<in> {1..k}" "publisher_at t (While_running body # rest)" by (auto elim: multi_head [OF inv])
  with loop_on show ?thesis
    by (intro multi_worker [OF inv, of t _ "body @ While_running body # rest" "[]"]) (auto elim!: publisher_atE intro: publisher_at.intros simp: owed_def)
next
  case (loop_off t body rest)
  then have "t \<in> {1..k}" "publisher_at t (While_running body # rest)" by (auto elim: multi_head [OF inv])
  with loop_off show ?thesis
    by (intro multi_worker [OF inv, of t _ rest "[]"]) (auto elim!: publisher_atE intro: publisher_at.intros simp: owed_def)
next
  case (stop t rest)
  then have "t = 0" "rest = map Join [1..<k + 1]" by (auto elim: multi_head [OF inv] elim!: publisher_atE)
  with stop show ?thesis by (intro multi_main [OF inv, of _ rest]) (auto simp: main_at_def intro!: exI [of _ 1])
next
  case (joined t u rest)
  then obtain j where "t = 0" "1 \<le> j" "u = j" "rest = map Join [Suc j..<k + 1]" "\<forall>i \<in> {1..<j}. prog st i = []" "\<not> bench_running st"
    by (auto elim: multi_head [OF inv] elim!: publisher_atE)
  with joined show ?thesis
    by (intro multi_main [OF inv, of _ rest]) (auto simp: main_at_def less_Suc_eq intro!: exI [of _ "Suc j"])
qed (auto elim!: multi_head [OF inv] publisher_atE)

lemma multi_start: "multi_inv k (BM_MultiPublisher_Throughput k)"
proof -
  have "(\<Sum>t = 1..k. owed (threads m k (\<lambda>t. [Do_open_publisher, multi_loop t]) t)) = 0" for m
    by (intro sum.neutral) (simp add: owed_def threads_def)
  then show ?thesis
    by (auto simp: multi_inv_def main_at_def BM_MultiPublisher_Throughput_def threads_def intro: publisher_at.intros)
qed

lemma multi_reachable: "bench_step\<^sup>*\<^sup>* (BM_MultiPublisher_Throughput k) st \<Longrightarrow> multi_inv k st"
  by (induction rule: rtranclp_induct) (auto intro: multi_step multi_start)

lemma publisher_at_publishing: "publisher_at t p \<Longrightarrow> s \<in> set p \<Longrightarrow> publishing s"
  by (erule publisher_at.cases) (auto simp: publishing_def)

lemma multi_stopped_finishes:
  assumes "multi_inv k st" and "\<not> bench_running st"
  shows "\<exists>st'. bench_step\<^sup>*\<^sup>* st st' \<and> finished st'"
proof -
  obtain j where j: "1 \<le> j" "prog st 0 = map Join [j..<k + 1]" using assms by (auto simp: multi_inv_def main_at_def)
  have "publishing s" if "t \<in> set [1..<k + 1]" "s \<in> set (prog st t)" for s t
    using that assms(1) by (intro publisher_at_publishing [of t "prog st t"]) (auto simp: multi_inv_def)
  with drain_all [OF _ assms(2), of "[1..<k + 1]"] obtain st1 where st1: "bench_step\<^sup>*\<^sup>* st st1"
    "prog st1 = (\<lambda>t. if t \<in> set [1..<k + 1] then [] else prog st t)" by blast
  have "prog st1 0 = map Join [j..<k + 1]" "\<forall>u \<in> set [j..<k + 1]. u \<noteq> 0 \<and> prog st1 u = []" using st1(2) j by auto
  from join_all [OF this] st1(1) show ?thesis by (blast intro: rtranclp_trans)
qed

lemma multi_finishes:
  assumes "multi_inv k st"
  shows "\<exists>st'. bench_step\<^sup>*\<^sup>* st st' \<and> finished st'"
proof (cases "bench_running st")
  case True
  let ?st = "advance 0 (map Join [1..<k + 1]) (st\<lparr>bench_running := False\<rparr>)"
  have "bench_step st ?st" using assms True by (intro stop) (auto simp: multi_inv_def main_at_def)
  moreover from multi_step [OF assms this] have "\<exists>st'. bench_step\<^sup>*\<^sup>* ?st st' \<and> finished st'" by (rule multi_stopped_finishes) simp
  ultimately show ?thesis by (blast intro: converse_rtranclp_into_rtranclp)
qed (rule multi_stopped_finishes [OF assms])

lemma multi_account:
  assumes "multi_inv k st" and "finished st"
  shows "published_count st = length (bench_sends st)"
proof -
  have "prog st i = []" if "i \<in> {1..k}" for i
    using assms that by (auto simp: multi_inv_def main_at_def finished_def)
  then have "(\<Sum>t = 1..k. owed (prog st t)) = 0" by (intro sum.neutral) (simp add: owed_def)
  with assms(1) show ?thesis by (simp add: multi_inv_def)
qed

text \<open>The benchmarks with a single publisher.\<close>

fun pending :: "stmt list \<Rightarrow> (bytes \<times> bytes) list" where
  "pending [] = []"
| "pending (Do_send topic payload # p) = (topic, payload) # pending p"
| "pending (_ # p) = pending p"

definition single_inv :: "(bytes \<times> bytes) list \<Rightarrow> bench \<Rightarrow> bool" where
  "single_inv wanted st \<longleftrightarrow>
     (\<forall>t > 0. prog st t = []) \<and> (\<forall>s \<in> set (prog st 0). s = Do_open_publisher \<or> (\<exists>topic payload. s = Do_send topic payload)) \<and>
     bench_sends st @ pending (prog st 0) = wanted"

lemma single_head:
  assumes "single_inv wanted st" and "prog st t = s # rest"
  shows "t = 0" "s = Do_open_publisher \<or> (\<exists>topic payload. s = Do_send topic payload)"
proof -
  show "t = 0" using assms by (cases t) (auto simp: single_inv_def)
  with assms show "s = Do_open_publisher \<or> (\<exists>topic payload. s = Do_send topic payload)" by (auto simp: single_inv_def)
qed

lemma single_step:
  assumes inv: "single_inv wanted st" and "bench_step st st'"
  shows "single_inv wanted st'"
  using assms(2)
proof cases
  case (open_publisher t rest)
  with inv single_head [OF inv open_publisher(2)] show ?thesis by (auto simp: single_inv_def)
next
  case (send t topic payload rest)
  with inv single_head [OF inv send(2)] show ?thesis by (auto simp: single_inv_def)
qed (auto dest!: single_head(2) [OF inv])

lemma single_reachable: "bench_step\<^sup>*\<^sup>* st0 st \<Longrightarrow> single_inv wanted st0 \<Longrightarrow> single_inv wanted st"
  by (induction rule: rtranclp_induct) (auto intro: single_step)

lemma single_finishes:
  assumes "single_inv wanted st"
  shows "(\<exists>st'. bench_step\<^sup>*\<^sup>* st st' \<and> finished st') \<and> (finished st \<longrightarrow> bench_sends st = wanted)"
proof -
  have "\<forall>s \<in> set (prog st 0). publishing s" "\<forall>body. While_running body \<notin> set (prog st 0)"
    using assms by (auto simp: single_inv_def publishing_def)
  with drain [of st 0] obtain st' where "bench_step\<^sup>*\<^sup>* st st'" "prog st' = (prog st)(0 := [])" by blast
  with assms show ?thesis by (auto simp: finished_def single_inv_def)
qed

lemma pending_replicate: "pending (replicate n (Do_send topic payload)) = replicate n (topic, payload)"
  by (induction n) simp_all

lemma single_start:
  "single_inv (replicate n (''bench/throughput'', replicate psize CHR ''x'')) (BM_SinglePublisher_Throughput psize n)"
  "single_inv (replicate n (''bench/test'', replicate psize CHR ''x'')) (BM_PublishLatency_NoSubscribers psize n)"
  by (auto simp: single_inv_def BM_SinglePublisher_Throughput_def BM_PublishLatency_NoSubscribers_def threads_def pending_replicate)

text \<open>Subscribing in a loop.\<close>

lemma subscribe_latency_inv:
  "bench_step\<^sup>*\<^sup>* (BM_SubscribeLatency n) st \<Longrightarrow>
    (\<forall>t > 0. prog st t = []) \<and> (\<exists>m. prog st 0 = replicate m (Do_subscribe ''bench/subscribe'') \<and> m + length (sub_returned st) = n)"
proof (induction rule: rtranclp_induct)
  case (step st st')
  then obtain m where m: "\<forall>t > 0. prog st t = []" "prog st 0 = replicate m (Do_subscribe ''bench/subscribe'')" "m + length (sub_returned st) = n"
    by blast
  have head: "t = 0 \<and> s = Do_subscribe ''bench/subscribe'' \<and> rest = replicate (m - 1) s \<and> 0 < m" if "prog st t = s # rest" for t s rest
    using m that by (cases t; cases m) auto
  from step(2) show ?case
    by cases (use m in \<open>auto dest!: head\<close>)
qed (auto simp: BM_SubscribeLatency_def threads_def)

section \<open>Properties\<close>

text \<open>
  The two latency benchmarks that wait for a message never finish, whatever the broker and the network do. The
  subscribe call blocks until its connection has ended, so nothing is sent before; after that no message can arrive, and
  the first wait for one goes on for ever.
\<close>

theorem latency_benchmarks_hang:
  assumes "0 < n"
  shows "(\<forall>st. bench_step\<^sup>*\<^sup>* (BM_EndToEndLatency n) st \<longrightarrow> \<not> finished st) \<and>
    (\<forall>st. bench_step\<^sup>*\<^sup>* (BM_AckLatency n) st \<longrightarrow> \<not> finished st)"
proof -
  obtain m where m: "n = Suc m" using assms by (cases n) auto
  have "\<not> finished st" if "prog st = prog (BM_EndToEndLatency n) \<or> prog st = prog (BM_AckLatency n) \<or> waits_forever st" for st
    using that by (auto simp: finished_def BM_EndToEndLatency_def BM_AckLatency_def threads_def dest: waits_not_finished)
  then show ?thesis using e2e_waits [of m] ack_waits [of m] m by blast
qed

theorem latency_benchmarks_hang_witness:
  "bench_step (BM_AckLatency 100) (advance 0 (tl (prog (BM_AckLatency 100) 0)) ((BM_AckLatency 100)\<lparr>sub_returned := [0]\<rparr>)) \<and>
   \<not> finished (advance 0 (tl (prog (BM_AckLatency 100) 0)) ((BM_AckLatency 100)\<lparr>sub_returned := [0]\<rparr>))"
proof -
  let ?s = "BM_AckLatency 100"
  have "prog ?s 0 = Do_subscribe ''bench/ack'' # tl (prog ?s 0)" "sub_returned ?s = []" by (simp_all add: BM_AckLatency_def threads_def)
  with subscribe_returns [of ?s 0 "''bench/ack''" "tl (prog ?s 0)"]
  have step: "bench_step ?s (advance 0 (tl (prog ?s 0)) (?s\<lparr>sub_returned := [0]\<rparr>))" by simp
  have "0 < (100 :: nat)" by simp
  from latency_benchmarks_hang [OF this] step show ?thesis by (blast intro: r_into_rtranclp)
qed

text \<open>
  The benchmarks with subscribers finish only when the connections of all their subscribers have ended (or were never
  made): the fan-out and the single subscriber benchmark wait for every subscriber thread, and the subscribe latency
  benchmark needs one ended connection per iteration. A broker that stays up keeps them waiting.
\<close>

theorem subscriber_benchmarks_need_disconnects:
  "(bench_step\<^sup>*\<^sup>* (BM_FanOut_Throughput k n) st \<and> finished st \<longrightarrow> {1..k} \<subseteq> set (sub_returned st)) \<and>
   (bench_step\<^sup>*\<^sup>* (BM_SingleSubscriber_Throughput n) st \<and> finished st \<longrightarrow> 1 \<in> set (sub_returned st)) \<and>
   (bench_step\<^sup>*\<^sup>* (BM_SubscribeLatency n) st \<and> finished st \<longrightarrow> length (sub_returned st) = n)"
proof -
  have "{1..k} \<subseteq> set (sub_returned st)" if "bench_step\<^sup>*\<^sup>* (BM_FanOut_Throughput k n) st" "finished st"
    by (rule joins_finished [OF joins_reachable [OF that(1) joins_start(1)] that(2)])
  moreover have "{1..1} \<subseteq> set (sub_returned st)" if "bench_step\<^sup>*\<^sup>* (BM_SingleSubscriber_Throughput n) st" "finished st"
    by (rule joins_finished [OF joins_reachable [OF that(1) joins_start(2)] that(2)])
  ultimately show ?thesis using subscribe_latency_inv [of n st] by (auto simp: finished_def)
qed

theorem subscriber_benchmarks_need_disconnects_witness:
  "\<exists>st. bench_step\<^sup>*\<^sup>* (BM_SubscribeLatency 1) st \<and> finished st \<and> length (sub_returned st) = 1"
proof -
  let ?s = "BM_SubscribeLatency 1"
  have "bench_step ?s (advance 0 [] (?s\<lparr>sub_returned := sub_returned ?s @ [0]\<rparr>))"
    by (rule subscribe_returns [where topic = "''bench/subscribe''"]) (simp add: BM_SubscribeLatency_def threads_def)
  moreover have "finished (advance 0 [] (?s\<lparr>sub_returned := sub_returned ?s @ [0]\<rparr>))" by (simp add: finished_def)
  ultimately show ?thesis using subscriber_benchmarks_need_disconnects [of _ 1] by blast
qed

text \<open>
  The publishing benchmarks can always finish, from every state they reach. A single publisher has then sent exactly
  one message per iteration; with concurrent publishers, the total that is reported is the number of messages sent, each
  the message of one of the publishers.
\<close>

theorem publisher_benchmarks_finish:
  "(bench_step\<^sup>*\<^sup>* (BM_SinglePublisher_Throughput psize n) st \<longrightarrow>
     (\<exists>st'. bench_step\<^sup>*\<^sup>* st st' \<and> finished st') \<and> (finished st \<longrightarrow> bench_sends st = replicate n (''bench/throughput'', replicate psize CHR ''x''))) \<and>
   (bench_step\<^sup>*\<^sup>* (BM_PublishLatency_NoSubscribers psize n) st \<longrightarrow>
     (\<exists>st'. bench_step\<^sup>*\<^sup>* st st' \<and> finished st') \<and> (finished st \<longrightarrow> bench_sends st = replicate n (''bench/test'', replicate psize CHR ''x''))) \<and>
   (bench_step\<^sup>*\<^sup>* (BM_MultiPublisher_Throughput k) st \<longrightarrow>
     (\<exists>st'. bench_step\<^sup>*\<^sup>* st st' \<and> finished st') \<and> (finished st \<longrightarrow> published_count st = length (bench_sends st)) \<and>
     set (bench_sends st) \<subseteq> (\<lambda>t. (''bench/multi'', multi_payload t)) ` {1..k})"
  using single_finishes [OF single_reachable [OF _ single_start(1)]] single_finishes [OF single_reachable [OF _ single_start(2)]]
    multi_finishes [OF multi_reachable] multi_account [OF multi_reachable] multi_reachable [of k st]
  by (auto simp: multi_inv_def)

theorem publisher_benchmarks_finish_witness:
  "\<exists>st. bench_step\<^sup>*\<^sup>* (BM_MultiPublisher_Throughput 8) st \<and> finished st \<and> published_count st = length (bench_sends st)"
  using publisher_benchmarks_finish [of _ _ _ 8] by blast

end
