(* ===== verification/Concurrent_Send.thy ===== *)
theory Concurrent_Send
  imports Session "HOL-Library.Multiset"
begin

text \<open>
  \<^verbatim>\<open>Session::send\<close> (\<^verbatim>\<open>src/session.cpp\<close>) when several threads are in it at once for one session. Each connection has its
  own thread; a session's own thread answers its client without holding the broker's mutex, while any other session's
  thread may be delivering a message to it from \<^verbatim>\<open>Broker::publish\<close>. The sending loop takes no lock of its own, so its
  \<^verbatim>\<open>::send\<close> calls interleave. The lemmas determine exactly what can reach the socket.
\<close>

section \<open>Interleaved sending loops\<close>

text \<open>
  The state is what the socket has taken and, per call of \<^verbatim>\<open>Session::send\<close> in progress, its \<^verbatim>\<open>remaining\<close> data. One step
  is one \<^verbatim>\<open>::send\<close> of one of the loops, which returns how much it took. \<open>send_step\<close> also has the failing call, which
  leaves the loop.
\<close>

inductive took_step :: "bytes \<times> bytes list \<Rightarrow> bytes \<times> bytes list \<Rightarrow> bool" where
  took: "i < length ps \<Longrightarrow> ps ! i \<noteq> [] \<Longrightarrow> 0 \<le> r \<Longrightarrow> r \<le> int (length (ps ! i)) \<Longrightarrow>
    took_step (w, ps) (w @ take (nat r) (ps ! i), ps[i := drop (nat r) (ps ! i)])"

inductive send_step :: "bytes \<times> bytes list \<Rightarrow> bytes \<times> bytes list \<Rightarrow> bool" where
  sent: "took_step c c' \<Longrightarrow> send_step c c'"
| failed: "i < length ps \<Longrightarrow> ps ! i \<noteq> [] \<Longrightarrow> send_step (w, ps) (w, ps[i := []])"

text \<open>A kernel whose \<^verbatim>\<open>::send\<close> always takes all of the data, so that each loop makes one call.\<close>

inductive whole_step :: "bytes \<times> bytes list \<Rightarrow> bytes \<times> bytes list \<Rightarrow> bool" where
  whole: "i < length ps \<Longrightarrow> ps ! i \<noteq> [] \<Longrightarrow> whole_step (w, ps) (w @ ps ! i, ps[i := []])"

inductive_cases took_stepE: "took_step (w, ps) c"
inductive_cases send_stepE: "send_step (w, ps) c"
inductive_cases whole_stepE: "whole_step (w, ps) c"

definition all_sent :: "bytes list \<Rightarrow> bool" where
  "all_sent ps \<longleftrightarrow> list_all (\<lambda>d. d = []) ps"

text \<open>One loop alone is the sending loop of the session model.\<close>

lemma took_one: "0 \<le> r \<Longrightarrow> r \<le> int (length d) \<Longrightarrow> d \<noteq> [] \<Longrightarrow> took_step (w, [d]) (w @ take (nat r) d, [drop (nat r) d])"
  using took [of 0 "[d]" r w] by simp

lemma send_loop_steps:
  "\<exists>p. send_step\<^sup>*\<^sup>* (v, [d]) (v @ fst (send_loop rs d), [p]) \<and> (snd (send_loop rs d) \<longrightarrow> p = [])"
proof (induction rs d arbitrary: v rule: send_loop.induct)
  case (3 r rs c cs)
  show ?case
  proof (cases "r < 0")
    case True
    have "send_step (v, [c # cs]) (v, [[]])" using failed [of 0 "[c # cs]" v] by simp
    with True show ?thesis by auto
  next
    case False
    define d where "d = drop (nat r) (c # cs)"
    have "take (nat (min r (int (length (c # cs))))) (c # cs) = take (nat r) (c # cs)" "drop (nat (min r (int (length (c # cs))))) (c # cs) = d"
      unfolding d_def by (cases "r \<le> int (length (c # cs))"; simp add: min_def)+
    with took_one [of "min r (int (length (c # cs)))" "c # cs" v] False
    have "send_step (v, [c # cs]) (v @ take (nat r) (c # cs), [d])" by (intro sent) simp
    moreover obtain p where "send_step\<^sup>*\<^sup>* (v @ take (nat r) (c # cs), [d]) ((v @ take (nat r) (c # cs)) @ fst (send_loop rs d), [p])"
        "snd (send_loop rs d) \<longrightarrow> p = []"
      using 3 [OF False] unfolding d_def by blast
    moreover have "send_loop (r # rs) (c # cs) = (take (nat r) (c # cs) @ fst (send_loop rs d), snd (send_loop rs d))"
      using False by (simp add: d_def case_prod_beta)
    ultimately show ?thesis by (auto intro: converse_rtranclp_into_rtranclp)
  qed
qed auto

section \<open>Any interleaving of the bytes\<close>

fun interleaved :: "'a list list \<Rightarrow> 'a list set" where
  "interleaved [] = {[]}"
| "interleaved (d # ds) = (\<Union>v \<in> interleaved ds. shuffles d v)"

lemma shuffles_prepend: "v \<in> shuffles a b \<Longrightarrow> c @ v \<in> shuffles (c @ a) b" "v \<in> shuffles a b \<Longrightarrow> c @ v \<in> shuffles a (c @ b)"
  by (induction c) (auto intro: Cons_in_shuffles_leftI Cons_in_shuffles_rightI)

lemma interleaved_prepend:
  "i < length ps \<Longrightarrow> v \<in> interleaved (ps[i := d]) \<Longrightarrow> c @ v \<in> interleaved (ps[i := c @ d])"
proof (induction ps arbitrary: i v)
  case (Cons p ps)
  show ?case
  proof (cases i)
    case 0
    with Cons.prems show ?thesis by (auto intro: shuffles_prepend)
  next
    case (Suc j)
    with Cons.prems obtain u where u: "u \<in> interleaved (ps[j := d])" "v \<in> shuffles p u" by auto
    then have "c @ u \<in> interleaved (ps[j := c @ d])" using Cons Suc by simp
    with u(2) Suc show ?thesis by (auto intro: shuffles_prepend)
  qed
qed simp

lemma interleaved_first:
  "c # v \<in> interleaved ps \<Longrightarrow> \<exists>i d. i < length ps \<and> ps ! i = c # d \<and> v \<in> interleaved (ps[i := d])"
proof (induction ps arbitrary: v)
  case (Cons p ps)
  then obtain u where u: "u \<in> interleaved ps" "c # v \<in> shuffles p u" by auto
  then consider (left) "p \<noteq> []" "hd p = c" "v \<in> shuffles (tl p) u" | (right) "u \<noteq> []" "hd u = c" "v \<in> shuffles p (tl u)"
    by (auto simp: Cons_in_shuffles_iff)
  then show ?case
  proof cases
    case left
    with u(1) show ?thesis by (intro exI [of _ 0] exI [of _ "tl p"]) auto
  next
    case right
    with u(1) have "c # tl u \<in> interleaved ps" by (metis list.collapse)
    from Cons.IH [OF this] obtain i d where "i < length ps" "ps ! i = c # d" "tl u \<in> interleaved (ps[i := d])" by blast
    with right(3) show ?thesis by (intro exI [of _ "Suc i"] exI [of _ d]) auto
  qed
qed simp

lemma interleaved_Nil: "[] \<in> interleaved ps \<longleftrightarrow> all_sent ps"
  by (induction ps) (auto simp: all_sent_def)

lemma interleaved_done: "all_sent ps \<Longrightarrow> interleaved ps = {[]}"
  by (induction ps) (auto simp: all_sent_def)

lemma took_interleaved: "took_step\<^sup>*\<^sup>* (u, ds) (w, ps) \<Longrightarrow> v \<in> interleaved ps \<Longrightarrow> \<exists>x \<in> interleaved ds. w @ v = u @ x"
proof (induction "(w, ps)" arbitrary: w ps v rule: rtranclp_induct)
  case (step c)
  obtain w1 ps1 where c: "c = (w1, ps1)" by fastforce
  from step(2) obtain i r where i: "i < length ps1" "w = w1 @ take (nat r) (ps1 ! i)" "ps = ps1[i := drop (nat r) (ps1 ! i)]"
    unfolding c by (auto elim: took_stepE)
  have "take (nat r) (ps1 ! i) @ v \<in> interleaved (ps1[i := ps1 ! i])"
    using interleaved_prepend [OF i(1), of v "drop (nat r) (ps1 ! i)" "take (nat r) (ps1 ! i)"] step(4) i(3) by simp
  from step(3) [OF c, of "take (nat r) (ps1 ! i) @ v"] this show ?case by (simp add: i(2))
qed auto

lemma interleaved_took: "v \<in> interleaved ps \<Longrightarrow> \<exists>qs. all_sent qs \<and> took_step\<^sup>*\<^sup>* (w, ps) (w @ v, qs)"
proof (induction v arbitrary: w ps)
  case (Cons c v)
  from interleaved_first [OF Cons.prems] obtain i d where i: "i < length ps" "ps ! i = c # d" "v \<in> interleaved (ps[i := d])" by blast
  then have "took_step (w, ps) (w @ [c], ps[i := d])" using took [of i ps 1 w] by simp
  moreover from Cons.IH [OF i(3)] obtain qs where "all_sent qs" "took_step\<^sup>*\<^sup>* (w @ [c], ps[i := d]) ((w @ [c]) @ v, qs)" by blast
  ultimately show ?case by (auto intro: converse_rtranclp_into_rtranclp)
qed (auto simp: interleaved_Nil)

section \<open>Whole sends\<close>

lemma whole_permutes:
  "whole_step\<^sup>*\<^sup>* ([], ds) (w, ps) \<Longrightarrow> \<exists>es. w = concat es \<and> mset es + filter_mset (\<lambda>d. d \<noteq> []) (mset ps) = filter_mset (\<lambda>d. d \<noteq> []) (mset ds)"
proof (induction "(w, ps)" arbitrary: w ps rule: rtranclp_induct)
  case (step c)
  obtain w1 ps1 where c: "c = (w1, ps1)" by fastforce
  from step(2) obtain i where i: "i < length ps1" "ps1 ! i \<noteq> []" "w = w1 @ ps1 ! i" "ps = ps1[i := []]"
    unfolding c by (auto elim: whole_stepE)
  from step(3) [OF c] obtain es where es: "w1 = concat es"
    "mset es + filter_mset (\<lambda>d. d \<noteq> []) (mset ps1) = filter_mset (\<lambda>d. d \<noteq> []) (mset ds)" by blast
  have "filter_mset (\<lambda>d. d \<noteq> []) (mset ps1) = add_mset (ps1 ! i) (filter_mset (\<lambda>d. d \<noteq> []) (mset ps))"
    using i by (simp add: mset_update)
  with es i(3) show ?case by (intro exI [of _ "es @ [ps1 ! i]"]) simp
qed auto

lemma image_mset_list: "mset es = image_mset f (mset xs) \<Longrightarrow> \<exists>ys. es = map f ys \<and> mset ys = mset xs"
proof (induction es arbitrary: xs)
  case (Cons e es)
  have "set (e # es) = f ` set xs" using arg_cong [OF Cons.prems, of set_mset] by simp
  then obtain x where x: "x \<in> set xs" "e = f x" by (metis imageE list.set_intros(1))
  have "mset xs = add_mset x (mset (remove1 x xs))" using x(1) by simp
  with Cons.prems x(2) have "mset es = image_mset f (mset (remove1 x xs))" by (simp del: mset_remove1)
  from Cons.IH [OF this] obtain ys where "es = map f ys" "mset ys = mset (remove1 x xs)" by blast
  with x show ?case by (intro exI [of _ "x # ys"]) simp
qed simp

lemma serialize_nonempty: "serialize f \<noteq> []"
  by (metis append_is_Nil_conv length_frame_header list.size(3) serialize_split zero_neq_numeral)

text \<open>The header of a message depends on the lengths of its topic and payload only.\<close>

lemma message_bytes: "serialize (message_frame t x s) = frame_header (message_frame t x s) @ t @ x"
  by (simp add: serialize_split frame_trailer_def frame_defs)

lemma message_header:
  "length t' = length t \<Longrightarrow> length x' = length x \<Longrightarrow> frame_header (message_frame t' x' s) = frame_header (message_frame t x s)"
  by (simp add: frame_header_def frame_defs)

lemma ack_first: "serialize (ack_frame a) \<noteq> [] \<and> hd (serialize (ack_frame a)) = CHR 0x01"
  by (simp add: serialize_def frame_defs size_defs Let_def write_defs char_of_byte_def char_of_def bit_0)

section \<open>Properties\<close>

text \<open>
  (C17) What concurrent sends to one client can put on its connection, when none of them fails: exactly the interleavings
  of their bytes, every one of which some split of the \<^verbatim>\<open>::send\<close> calls produces.
\<close>

theorem concurrent_sends_interleave:
  "(\<exists>qs. all_sent qs \<and> took_step\<^sup>*\<^sup>* ([], ds) (w, qs)) \<longleftrightarrow> w \<in> interleaved ds"
proof
  assume "\<exists>qs. all_sent qs \<and> took_step\<^sup>*\<^sup>* ([], ds) (w, qs)"
  then obtain qs where "all_sent qs" "took_step\<^sup>*\<^sup>* ([], ds) (w, qs)" by blast
  with took_interleaved [of "[]" ds w qs "[]"] show "w \<in> interleaved ds" by (simp add: interleaved_done)
next
  assume "w \<in> interleaved ds"
  from interleaved_took [OF this, of "[]"] show "\<exists>qs. all_sent qs \<and> took_step\<^sup>*\<^sup>* ([], ds) (w, qs)" by simp
qed

text \<open>
  With a kernel that takes every message whole, concurrent sends are harmless: a binary client receives each of
  the frames once, in some order.
\<close>

theorem whole_sends_keep_frames:
  assumes "list_all valid_frame fs" and "whole_step\<^sup>*\<^sup>* ([], map serialize fs) (w, ps)" and "all_sent ps"
  shows "\<exists>gs. mset gs = mset fs \<and> recv_chunks parse collect [] [] [w] = Some (gs, [], None)"
proof -
  from whole_permutes [OF assms(2)] obtain es where es: "w = concat es"
    "mset es + filter_mset (\<lambda>d. d \<noteq> []) (mset ps) = filter_mset (\<lambda>d. d \<noteq> []) (mset (map serialize fs))" by blast
  have "filter_mset (\<lambda>d. d \<noteq> []) (mset ps) = {#}" using assms(3) by (auto simp: all_sent_def list_all_iff filter_mset_eq_conv)
  moreover have "filter_mset (\<lambda>d. d \<noteq> []) (mset (map serialize fs)) = mset (map serialize fs)"
    by (induction fs) (simp_all add: serialize_nonempty)
  ultimately have "mset es = image_mset serialize (mset fs)" using es(2) by (metis add.right_neutral mset_map)
  from image_mset_list [OF this] obtain gs where gs: "es = map serialize gs" "mset gs = mset fs" by blast
  have "list_all valid_frame gs" using assms(1) mset_eq_setD [OF gs(2)] by (simp add: list_all_iff)
  from binary_codec.chunks_collect [OF this, of "[w]"] gs show ?thesis by (auto simp: es(1))
qed

theorem whole_sends_keep_frames_witness:
  "\<exists>gs. mset gs = {#ack_frame 9, message_frame ''t'' ''x'' 7#} \<and>
    recv_chunks parse collect [] [] [serialize (message_frame ''t'' ''x'' 7) @ serialize (ack_frame 9)] = Some (gs, [], None)"
proof -
  let ?a = "serialize (ack_frame 9)" and ?m = "serialize (message_frame ''t'' ''x'' 7)"
  have "whole_step ([], [?a, ?m]) (?m, [?a, []])" "whole_step (?m, [?a, []]) (?m @ ?a, [[], []])"
    using whole [of 1 "[?a, ?m]" "[]"] whole [of 0 "[?a, []]" ?m] by (simp_all add: serialize_nonempty)
  then have "whole_step\<^sup>*\<^sup>* ([], map serialize [ack_frame 9, message_frame ''t'' ''x'' 7]) (?m @ ?a, [[], []])" by simp
  from whole_sends_keep_frames [OF _ this] show ?thesis by (simp add: all_sent_def valid_frame_eval)
qed

text \<open>
  (C30) With partial sends it is not: for a message and a confirmation sent at once, whatever the message says, some
  split delivers to the client as its first frame a message on a topic that nobody published on, made of the
  confirmation's bytes.
\<close>

theorem split_sends_forge:
  assumes "valid_frame (message_frame t x s)" and "t \<noteq> []" and "hd t \<noteq> CHR 0x01"
  shows "\<exists>w qs t' x' n. took_step\<^sup>*\<^sup>* ([], [serialize (message_frame t x s), serialize (ack_frame a)]) (w, qs) \<and> all_sent qs \<and>
    parse w = Inr (Some (message_frame t' x' s, n)) \<and> t' \<noteq> t"
proof -
  let ?f = "message_frame t x s" and ?A = "serialize (ack_frame a)"
  define b t' x' where "b = ?A @ t @ x" and "t' = take (length t) b" and "x' = take (length x) (drop (length t) b)"
  have len: "length t' = length t" "length x' = length x" by (simp_all add: t'_def x'_def b_def del: take_append drop_append)
  have f: "serialize ?f = frame_header ?f @ t @ x" by (rule message_bytes)
  have "frame_header ?f @ b \<in> interleaved [serialize ?f, ?A]"
    using shuffles_prepend(1) [of b "t @ x" ?A "frame_header ?f"] shuffles_prepend(2) [of "t @ x" "t @ x" "[]" ?A] by (simp add: f b_def)
  from interleaved_took [OF this, of "[]"]
  obtain qs where qs: "all_sent qs" "took_step\<^sup>*\<^sup>* ([], [serialize ?f, ?A]) (frame_header ?f @ b, qs)" by auto
  have "b = t' @ x' @ drop (length t + length x) b"
    unfolding t'_def x'_def by (metis append_take_drop_id add.commute drop_drop)
  then have w: "frame_header ?f @ b = serialize (message_frame t' x' s) @ drop (length t + length x) b"
    unfolding message_bytes message_header [OF len] by (metis append_assoc)
  have "valid_frame (message_frame t' x' s)" using assms(1) len by (simp add: valid_frame_def frame_defs)
  from parse_serialize_gen [OF this] have p: "parse (frame_header ?f @ b) = Inr (Some (message_frame t' x' s, length (serialize (message_frame t' x' s))))"
    unfolding w .
  have "hd t' = CHR 0x01" using assms(2) ack_first [of a] by (simp add: t'_def b_def hd_take hd_append del: take_append)
  with assms(3) have "t' \<noteq> t" by auto
  with qs p show ?thesis by blast
qed

theorem split_sends_forge_witness:
  "\<exists>w qs t' x' n. took_step\<^sup>*\<^sup>* ([], [serialize (message_frame ''t'' ''x'' 7), serialize (ack_frame 9)]) (w, qs) \<and> all_sent qs \<and>
    parse w = Inr (Some (message_frame t' x' 7, n)) \<and> t' \<noteq> ''t''"
  by (rule split_sends_forge) (simp_all add: valid_frame_eval)

end
