(* ===== verification/Public_Protocol.thy ===== *)
theory Public_Protocol
  imports Binary_Protocol
begin

text \<open>
  The installed header \<^verbatim>\<open>include/metricmq/binary_protocol.hpp\<close>, the copy of the protocol's declarations that programs outside
  the library are compiled against: its enumeration, its frame structure with the factory functions, and what its
  documentation promises, namely the byte layout of a frame and when the parser returns nothing. The lemmas show that the
  two copies agree in every field, default and enumerator, and that the implementation meets the documented layout and
  parser contract. The layout is stated with plain arithmetic, independently of the readers and writers.
\<close>

unbundle bit_operations_syntax

section \<open>The declarations\<close>

datatype api_command =
    API_SUBSCRIBE | API_UNSUBSCRIBE | API_PUBLISH | API_MESSAGE | API_ACK | API_PING | API_PONG
  | API_ERROR | API_SIGNED_PUBLISH | API_SIGNED_MESSAGE

fun api_value :: "api_command \<Rightarrow> nat" where
  "api_value API_SUBSCRIBE = 0x01"
| "api_value API_UNSUBSCRIBE = 0x02"
| "api_value API_PUBLISH = 0x03"
| "api_value API_MESSAGE = 0x04"
| "api_value API_ACK = 0x05"
| "api_value API_PING = 0x06"
| "api_value API_PONG = 0x07"
| "api_value API_ERROR = 0x08"
| "api_value API_SIGNED_PUBLISH = 0x10"
| "api_value API_SIGNED_MESSAGE = 0x11"

record api_frame =
  api_version :: uint8
  api_cmd :: api_command
  api_sequence :: uint64
  api_topic :: bytes
  api_payload :: bytes
  api_signature :: "uint8 list"
  api_key_id :: uint32
  api_is_signed :: bool

definition api_new :: api_frame where
  "api_new =
     \<lparr>api_version = 1, api_cmd = API_PING, api_sequence = 0, api_topic = [], api_payload = [],
      api_signature = replicate 64 0, api_key_id = 0, api_is_signed = False\<rparr>"

definition api_subscribe :: "bytes \<Rightarrow> uint64 \<Rightarrow> api_frame" where
  "api_subscribe topic seq = api_new\<lparr>api_cmd := API_SUBSCRIBE, api_topic := topic, api_sequence := seq\<rparr>"

definition api_unsubscribe :: "bytes \<Rightarrow> uint64 \<Rightarrow> api_frame" where
  "api_unsubscribe topic seq = api_new\<lparr>api_cmd := API_UNSUBSCRIBE, api_topic := topic, api_sequence := seq\<rparr>"

definition api_publish :: "bytes \<Rightarrow> bytes \<Rightarrow> uint64 \<Rightarrow> api_frame" where
  "api_publish topic payload seq =
     api_new\<lparr>api_cmd := API_PUBLISH, api_topic := topic, api_payload := payload, api_sequence := seq\<rparr>"

definition api_message :: "bytes \<Rightarrow> bytes \<Rightarrow> uint64 \<Rightarrow> api_frame" where
  "api_message topic payload seq =
     api_new\<lparr>api_cmd := API_MESSAGE, api_topic := topic, api_payload := payload, api_sequence := seq\<rparr>"

definition api_ack :: "uint64 \<Rightarrow> api_frame" where
  "api_ack seq = api_new\<lparr>api_cmd := API_ACK, api_sequence := seq\<rparr>"

definition api_ping :: api_frame where
  "api_ping = api_new\<lparr>api_cmd := API_PING\<rparr>"

definition api_pong :: api_frame where
  "api_pong = api_new\<lparr>api_cmd := API_PONG\<rparr>"

definition api_error :: "bytes \<Rightarrow> api_frame" where
  "api_error message = api_new\<lparr>api_cmd := API_ERROR, api_payload := message\<rparr>"

definition api_signed_publish :: "bytes \<Rightarrow> bytes \<Rightarrow> uint8 list \<Rightarrow> uint32 \<Rightarrow> uint64 \<Rightarrow> api_frame" where
  "api_signed_publish topic payload sig key_id seq =
     api_new\<lparr>api_cmd := API_SIGNED_PUBLISH, api_topic := topic, api_payload := payload, api_signature := sig, api_key_id := key_id,
       api_is_signed := True, api_sequence := seq\<rparr>"

definition api_signed_message :: "bytes \<Rightarrow> bytes \<Rightarrow> uint8 list \<Rightarrow> uint32 \<Rightarrow> uint64 \<Rightarrow> api_frame" where
  "api_signed_message topic payload sig key_id seq =
     api_new\<lparr>api_cmd := API_SIGNED_MESSAGE, api_topic := topic, api_payload := payload, api_signature := sig, api_key_id := key_id,
       api_is_signed := True, api_sequence := seq\<rparr>"

definition api_calculateFrameSize :: "bytes \<Rightarrow> bytes \<Rightarrow> nat" where
  "api_calculateFrameSize topic payload = 16 + length topic + length payload"

section \<open>The documented layout and parser contract\<close>

text \<open>The big-endian number in \<open>n\<close> bytes at an offset.\<close>

definition big_endian :: "bytes \<Rightarrow> nat \<Rightarrow> nat \<Rightarrow> nat" where
  "big_endian w off n = foldl (\<lambda>a c. 256 * a + of_char c) 0 (take n (drop off w))"

definition frame_layout :: "api_frame \<Rightarrow> bytes \<Rightarrow> bool" where
  "frame_layout f w \<longleftrightarrow>
     (let T = length (api_topic f); P = length (api_payload f)
      in length w = 16 + T + P + (if api_is_signed f then 68 else 0) \<and>
         big_endian w 0 1 = 1 \<and> big_endian w 1 1 = api_value (api_cmd f) \<and> big_endian w 2 8 = unat (api_sequence f) \<and>
         big_endian w 10 2 = T \<and> big_endian w 12 4 = P \<and>
         take T (drop 16 w) = api_topic f \<and> take P (drop (16 + T) w) = api_payload f \<and>
         (api_is_signed f \<longrightarrow>
            take 64 (drop (16 + T + P) w) = map char_of_byte (api_signature f) \<and> big_endian w (16 + T + P + 64) 4 = unat (api_key_id f)))"

text \<open>The cases in which \<^verbatim>\<open>parse\<close> is documented to return \<^verbatim>\<open>std::nullopt\<close>.\<close>

definition parse_nullopt :: "bytes \<Rightarrow> bool" where
  "parse_nullopt b \<longleftrightarrow>
     length b < 16 \<or> big_endian b 0 1 \<noteq> 1 \<or> 256 < big_endian b 10 2 \<or> 16 * 1024 * 1024 < big_endian b 12 4 \<or>
     length b < 16 + big_endian b 10 2 + big_endian b 12 4 + (if big_endian b 1 1 \<in> {0x10, 0x11} then 68 else 0)"

section \<open>The two copies\<close>

fun api_command_of :: "api_command \<Rightarrow> BinaryCommand" where
  "api_command_of API_SUBSCRIBE = CMD_SUBSCRIBE"
| "api_command_of API_UNSUBSCRIBE = CMD_UNSUBSCRIBE"
| "api_command_of API_PUBLISH = CMD_PUBLISH"
| "api_command_of API_MESSAGE = CMD_MESSAGE"
| "api_command_of API_ACK = CMD_ACK"
| "api_command_of API_PING = CMD_PING"
| "api_command_of API_PONG = CMD_PONG"
| "api_command_of API_ERROR = CMD_ERROR"
| "api_command_of API_SIGNED_PUBLISH = CMD_SIGNED_PUBLISH"
| "api_command_of API_SIGNED_MESSAGE = CMD_SIGNED_MESSAGE"

text \<open>The same object seen through the library's own copy of the structure: field by field.\<close>

definition api_object :: "api_frame \<Rightarrow> BinaryFrame" where
  "api_object f =
     \<lparr>frame_version = api_version f, frame_command = api_command_of (api_cmd f), frame_sequence = api_sequence f,
      frame_topic = api_topic f, frame_payload = api_payload f, frame_signature = api_signature f,
      frame_key_id = api_key_id f, frame_is_signed = api_is_signed f\<rparr>"

section \<open>Big-endian numbers\<close>

lemma horner: "foldl (\<lambda>a i. 256 * a + n div 256 ^ i mod 256) acc (rev [0..<k]) = acc * 256 ^ k + n mod 256 ^ k" for n acc :: nat
proof (induction k arbitrary: acc)
  case (Suc k)
  have "n mod (256 ^ k * 256) = 256 ^ k * (n div 256 ^ k mod 256) + n mod 256 ^ k" by (rule mod_mult2_eq)
  with Suc show ?case by (simp add: algebra_simps)
qed simp

lemma byte_field_nat:
  "unat (ucast (v AND 0xFF) :: uint8) = unat v mod 256" "unat (drop_bit k v) = unat v div 2 ^ k" for v :: "'a::len word"
proof -
  have "v AND 0xFF = take_bit 8 v" by (simp add: take_bit_eq_mask mask_eq_exp_minus_1)
  then show "unat (ucast (v AND 0xFF) :: uint8) = unat v mod 256"
    unfolding unsigned_ucast_eq by (simp add: unsigned_take_bit_eq) (simp add: take_bit_eq_mod)
  show "unat (drop_bit k v) = unat v div 2 ^ k"
    using unsigned_less [of v, where 'a = nat] by (simp add: unsigned_drop_bit_eq take_bit_nat_eq_self) (simp add: drop_bit_eq_div)
qed

lemma of_char_of_byte [simp]: "(of_char (char_of_byte b) :: nat) = unat b"
  using unsigned_less [of b, where 'a = nat] by (simp add: char_of_byte_def)

definition digits :: "nat \<Rightarrow> nat \<Rightarrow> bytes" where
  "digits k n = map (\<lambda>i. char_of (n div 256 ^ i mod 256)) (rev [0..<k])"

lemma digits_value: "foldl (\<lambda>a c. 256 * a + of_char c) 0 (digits k n) = n mod 256 ^ k"
  using horner [of n 0 k] by (simp add: digits_def foldl_map)

lemma write_digits:
  "writeUint16 [] v = digits 2 (unat v)" "writeUint32 [] w = digits 4 (unat w)" "writeUint64 [] x = digits 8 (unat x)"
proof -
  have up: "rev [0..<2] = [1, 0 :: nat]" "rev [0..<4] = [3, 2, 1, 0 :: nat]" "rev [0..<8] = [7, 6, 5, 4, 3, 2, 1, 0 :: nat]"
    by (simp_all add: upt_rec)
  show "writeUint16 [] v = digits 2 (unat v)" "writeUint32 [] w = digits 4 (unat w)" "writeUint64 [] x = digits 8 (unat x)"
    unfolding digits_def up write_defs char_of_byte_def byte_field_nat by simp_all
qed

lemma written_value:
  "foldl (\<lambda>a c. 256 * a + of_char c) 0 (writeUint16 [] v) = unat v"
  "foldl (\<lambda>a c. 256 * a + of_char c) 0 (writeUint32 [] w) = unat w"
  "foldl (\<lambda>a c. 256 * a + of_char c) 0 (writeUint64 [] x) = unat x"
  using unsigned_less [of v, where 'a = nat] unsigned_less [of w, where 'a = nat] unsigned_less [of x, where 'a = nat]
  unfolding write_digits digits_value by simp_all

lemma read_value:
  "readUint16 b off = Inr v \<Longrightarrow> big_endian b off 2 = unat v"
  "readUint32 b off = Inr w \<Longrightarrow> big_endian b off 4 = unat w"
  "readUint64 b off = Inr x \<Longrightarrow> big_endian b off 8 = unat x"
  unfolding big_endian_def by (simp_all add: read_inverse written_value)

lemma big_endian_byte: "off < length b \<Longrightarrow> big_endian b off (Suc 0) = unat (byte_of_char (b ! off))"
  by (simp add: big_endian_def byte_of_char_def hd_drop_conv_nth take_Suc unat_of_nat)

section \<open>The contract\<close>

lemma api_value_byte: "unat (command_byte (api_command_of c)) = api_value c"
  by (cases c) simp_all

lemma signed_value: "big_endian b 1 1 \<in> {0x10, 0x11} \<longleftrightarrow> is_signed_cmd (command_of_byte (byte_of_char (b ! 1)))" if "16 \<le> length b"
proof -
  have "unat w \<in> {0x10, 0x11} \<longleftrightarrow> w = 0x10 \<or> w = 0x11" for w :: uint8
    using word_unat_eq_iff [of w "0x10"] word_unat_eq_iff [of w "0x11"] by simp
  then show ?thesis
    using that by (simp add: big_endian_byte is_signed_cmd_def command_of_byte_def)
qed

lemma nullopt_decision:
  "parse b = Inr None \<longleftrightarrow> parse_nullopt b"
proof (cases "length b < 16")
  case False
  let ?cmd = "command_of_byte (byte_of_char (b ! 1))"
  obtain seq tlen plen where reads: "readUint64 b 2 = Inr seq" "readUint16 b 10 = Inr tlen" "readUint32 b 12 = Inr plen"
    using header_readable [of b] False by auto
  obtain kid where kid: "is_signed_cmd ?cmd \<Longrightarrow> frame_size ?cmd tlen plen \<le> length b \<Longrightarrow> readUint32 b (16 + unat tlen + unat plen + 64) = Inr kid"
    using key_id_readable [of ?cmd tlen plen b] by blast
  have "byte_of_char (b ! 0) \<noteq> BINARY_PROTOCOL_VERSION \<longleftrightarrow> big_endian b 0 1 \<noteq> 1"
    using big_endian_byte [of 0 b] False word_unat_eq_iff [of "byte_of_char (b ! 0)" 1] by (cases b) (simp_all add: BINARY_PROTOCOL_VERSION_def)
  moreover have "MAX_TOPIC_LEN < tlen \<longleftrightarrow> 256 < big_endian b 10 2" "MAX_PAYLOAD_LEN < plen \<longleftrightarrow> 16 * 1024 * 1024 < big_endian b 12 4"
    using reads by (simp_all add: read_value size_defs word_less_nat_alt)
  moreover have "frame_size ?cmd tlen plen = 16 + big_endian b 10 2 + big_endian b 12 4 + (if big_endian b 1 1 \<in> {0x10, 0x11} then 68 else 0)"
    using reads signed_value [of b] False by (simp add: read_value frame_size_def)
  ultimately show ?thesis
    using parse_decision [OF _ reads kid] False unfolding parse_nullopt_def by (simp add: not_less) 
qed (simp add: parse_nullopt_def)

lemma nullopt_otherwise:
  assumes "\<not> parse_nullopt b"
  shows "\<exists>f. parse b = Inr (Some (f, 16 + big_endian b 10 2 + big_endian b 12 4 + (if big_endian b 1 1 \<in> {0x10, 0x11} then 68 else 0)))"
proof -
  have len: "16 \<le> length b" using assms by (simp add: parse_nullopt_def)
  let ?cmd = "command_of_byte (byte_of_char (b ! 1))"
  obtain seq tlen plen where reads: "readUint64 b 2 = Inr seq" "readUint16 b 10 = Inr tlen" "readUint32 b 12 = Inr plen"
    using header_readable [OF len] .
  obtain kid where kid: "is_signed_cmd ?cmd \<Longrightarrow> frame_size ?cmd tlen plen \<le> length b \<Longrightarrow> readUint32 b (16 + unat tlen + unat plen + 64) = Inr kid"
    using key_id_readable [of ?cmd tlen plen b] by blast
  have "parse b \<noteq> Inr None" using assms by (simp add: nullopt_decision)
  then have "parse b = Inr (Some (cut_frame b seq tlen plen kid, frame_size ?cmd tlen plen))"
    using parse_decision [OF len reads kid] by (auto split: if_splits)
  moreover have "frame_size ?cmd tlen plen = 16 + big_endian b 10 2 + big_endian b 12 4 + (if big_endian b 1 1 \<in> {0x10, 0x11} then 68 else 0)"
    using reads signed_value [OF len] by (simp add: read_value frame_size_def)
  ultimately show ?thesis by metis
qed

lemma layout_serialized:
  assumes v: "valid_frame (api_object f)"
  shows "frame_layout f (serialize (api_object f))"
proof -
  let ?g = "api_object f"
  let ?h = "frame_header ?g" and ?body = "frame_topic ?g @ frame_payload ?g @ frame_trailer ?g"
  have w: "serialize ?g = ?h @ ?body" by (rule serialize_split)
  have fields: "frame_topic ?g = api_topic f" "frame_payload ?g = api_payload f" "frame_is_signed ?g = api_is_signed f"
    by (simp_all add: api_object_def)
  have signed: "is_signed_cmd (frame_command ?g) = api_is_signed f" using v by (simp add: valid_frame_def fields)
  have len: "length (serialize ?g) = 16 + length (api_topic f) + length (api_payload f) + (if api_is_signed f then 68 else 0)"
    using length_serialize [OF v] by (simp add: calculateFrameSize_def size_defs fields signed)
  have bytes: "big_endian (?h @ t) 0 1 = 1" "big_endian (?h @ t) 1 1 = api_value (api_cmd f)" for t
    using header_reads(1,2) [of ?g t] v big_endian_byte [of 0 "?h @ t"] big_endian_byte [of 1 "?h @ t"]
    by (simp_all add: valid_frame_def BINARY_PROTOCOL_VERSION_def api_value_byte api_object_def)
  have nums: "big_endian (?h @ t) 2 8 = unat (api_sequence f)" "big_endian (?h @ t) 10 2 = length (api_topic f)"
    "big_endian (?h @ t) 12 4 = length (api_payload f)" for t
    using read_value(3) [OF header_reads(3) [of ?g t]] read_value(1) [OF header_reads(4) [of ?g t]] read_value(2) [OF header_reads(5) [of ?g t]]
      unat_lens [OF v] by (simp_all add: fields) (simp add: api_object_def)
  have sig: "take 64 (drop (length a) (a @ frame_trailer ?g)) = map char_of_byte (api_signature f) \<and>
      big_endian (a @ frame_trailer ?g) (length a + 64) 4 = unat (api_key_id f)" if "api_is_signed f" for a
    using that v trailer_reads(2) [of ?g a "length a" "[]"] read_value(2) [of "a @ frame_trailer ?g" "length a + 64"]
    by (simp add: frame_trailer_def valid_frame_def size_defs fields) (simp add: api_object_def)
  show ?thesis
    unfolding frame_layout_def Let_def len
    using bytes [of ?body] nums [of ?body] sig [of "?h @ api_topic f @ api_payload f"]
    unfolding w [symmetric] by (simp add: w fields)
qed

section \<open>Properties\<close>

lemmas api_defs =
  api_new_def api_subscribe_def api_unsubscribe_def api_publish_def api_message_def api_ack_def api_ping_def api_pong_def
  api_error_def api_signed_publish_def api_signed_message_def

text \<open>
  The installed header and the library agree. An object made by any factory function of the header is, through the
  library's copy of the structure, the one its own factory function makes, and its serialization has the layout that the
  header documents: every field at its offset in big-endian order, the signature part exactly when the frame is signed, and
  nothing else; the size function is exact up to the 68 bytes of a signature.
\<close>

theorem public_header_layout:
  assumes "f \<in> {api_subscribe t s, api_unsubscribe t s, api_publish t p s, api_message t p s, api_ack s, api_ping, api_pong,
      api_error p, api_signed_publish t p sig k s, api_signed_message t p sig k s}"
    and "length t \<le> 256" and "length p \<le> 16 * 1024 * 1024" and "length sig = 64"
  shows "(api_object (api_subscribe t s) = subscribe_frame t s \<and> api_object (api_unsubscribe t s) = unsubscribe_frame t s \<and>
      api_object (api_publish t p s) = publish_frame t p s \<and> api_object (api_message t p s) = message_frame t p s \<and>
      api_object (api_ack s) = ack_frame s \<and> api_object api_ping = ping_frame \<and> api_object api_pong = pong_frame \<and>
      api_object (api_error p) = error_frame p \<and> api_object (api_signed_publish t p sig k s) = signed_publish_frame t p sig k s \<and>
      api_object (api_signed_message t p sig k s) = signed_message_frame t p sig k s) \<and>
    frame_layout f (serialize (api_object f)) \<and>
    length (serialize (api_object f)) = api_calculateFrameSize (api_topic f) (api_payload f) + (if api_is_signed f then 68 else 0)"
proof -
  have same: "api_object (api_subscribe t s) = subscribe_frame t s" "api_object (api_unsubscribe t s) = unsubscribe_frame t s"
    "api_object (api_publish t p s) = publish_frame t p s" "api_object (api_message t p s) = message_frame t p s"
    "api_object (api_ack s) = ack_frame s" "api_object api_ping = ping_frame" "api_object api_pong = pong_frame"
    "api_object (api_error p) = error_frame p" "api_object (api_signed_publish t p sig k s) = signed_publish_frame t p sig k s"
    "api_object (api_signed_message t p sig k s) = signed_message_frame t p sig k s"
    by (simp_all add: api_object_def api_defs frame_defs BINARY_PROTOCOL_VERSION_def)
  have "api_object f \<in> {subscribe_frame t s, unsubscribe_frame t s, publish_frame t p s, message_frame t p s, ack_frame s, ping_frame,
      pong_frame, error_frame p, signed_publish_frame t p sig k s, signed_message_frame t p sig k s}"
    using assms(1) by (elim insertE emptyE) (simp_all add: same)
  then have "valid_frame (api_object f)" using assms(2-4) by (elim insertE emptyE) (simp_all add: valid_frame_eval)
  from layout_serialized [OF this] have "frame_layout f (serialize (api_object f))" .
  moreover from this have "length (serialize (api_object f)) = api_calculateFrameSize (api_topic f) (api_payload f) + (if api_is_signed f then 68 else 0)"
    by (simp add: frame_layout_def Let_def api_calculateFrameSize_def)
  ultimately show ?thesis using same by blast
qed

theorem public_header_layout_witness:
  "frame_layout (api_publish ''t'' ''x'' 7) (serialize (api_object (api_publish ''t'' ''x'' 7)))"
proof -
  have "api_publish ''t'' ''x'' 7 \<in> {api_subscribe ''t'' 7, api_unsubscribe ''t'' 7, api_publish ''t'' ''x'' 7, api_message ''t'' ''x'' 7,
      api_ack 7, api_ping, api_pong, api_error ''x'', api_signed_publish ''t'' ''x'' (replicate 64 0) 0 7,
      api_signed_message ''t'' ''x'' (replicate 64 0) 0 7}" by blast
  from public_header_layout [OF this] show ?thesis by force
qed

text \<open>
  The parser keeps its documented contract: it never throws, it returns nothing exactly in the documented cases, an
  incomplete header, a wrong version, an oversized length, or a body that has not arrived, and otherwise a frame and the
  number of bytes that its length fields announce.
\<close>

theorem public_header_parser:
  "(parse b = Inr None \<longleftrightarrow> parse_nullopt b) \<and>
   (parse_nullopt b \<or> (\<exists>f. parse b =
      Inr (Some (f, 16 + big_endian b 10 2 + big_endian b 12 4 + (if big_endian b 1 1 \<in> {0x10, 0x11} then 68 else 0)))))"
  using nullopt_decision nullopt_otherwise by blast

end
