(* ===== verification/Store_Spec.thy ===== *)
theory Store_Spec
  imports Lmdb_Storage
begin

text \<open>
  What the header \<^verbatim>\<open>src/storage/LmdbStorage.hpp\<close> promises of the store, as an abstract machine: numbered messages, a set of
  acknowledged numbers per client and the highest number written, with one operation per method. A simulation relation
  connects it with the key space that the implementation keeps in LMDB. The lemmas show that the implementation follows
  the documentation in every operation but \<^verbatim>\<open>load_range\<close>, and where that one departs from it.
\<close>

section \<open>The documented store\<close>

record store_doc =
  doc_last_seq :: uint64
  doc_messages :: "uint64 \<rightharpoonup> bytes \<times> bytes"
  doc_acks :: "bytes \<Rightarrow> uint64 set"

definition doc_empty :: store_doc where
  "doc_empty = \<lparr>doc_last_seq = 0, doc_messages = Map.empty, doc_acks = (\<lambda>_. {})\<rparr>"

text \<open>\<^verbatim>\<open>save\<close> persists one message under the broker's number and updates the highest number.\<close>

definition doc_save :: "store_doc \<Rightarrow> uint64 \<Rightarrow> bytes \<Rightarrow> bytes \<Rightarrow> store_doc" where
  "doc_save d seq topic payload =
     d\<lparr>doc_last_seq := seq, doc_messages := (doc_messages d)(seq \<mapsto> (topic, payload))\<rparr>"

text \<open>\<^verbatim>\<open>load_range\<close> returns the messages numbered \<open>a\<close> to \<open>b\<close>, both included, in ascending order.\<close>

definition doc_load_range :: "store_doc \<Rightarrow> uint64 \<Rightarrow> uint64 \<Rightarrow> (uint64 \<times> bytes \<times> bytes) list" where
  "doc_load_range d a b =
     map (\<lambda>s. (s, the (doc_messages d s))) (sorted_list_of_set {s \<in> dom (doc_messages d). a \<le> s \<and> s \<le> b})"

definition doc_save_ack :: "store_doc \<Rightarrow> bytes \<Rightarrow> uint64 \<Rightarrow> store_doc" where
  "doc_save_ack d client sequence = d\<lparr>doc_acks := (doc_acks d)(client := insert sequence (doc_acks d client))\<rparr>"

text \<open>\<^verbatim>\<open>compact\<close> removes the messages numbered up to its argument, \<^verbatim>\<open>purge_old_acks\<close> the acknowledgements.\<close>

definition doc_compact :: "store_doc \<Rightarrow> uint64 \<Rightarrow> store_doc" where
  "doc_compact d m = d\<lparr>doc_messages := (\<lambda>s. if s \<le> m then None else doc_messages d s)\<rparr>"

definition doc_purge_old_acks :: "store_doc \<Rightarrow> uint64 \<Rightarrow> store_doc" where
  "doc_purge_old_acks d m = d\<lparr>doc_acks := (\<lambda>c. {s \<in> doc_acks d c. m < s})\<rparr>"

lemmas doc_defs = doc_empty_def doc_save_def doc_save_ack_def doc_compact_def doc_purge_old_acks_def

section \<open>Runs of both\<close>

datatype store_op = Op_save uint64 bytes bytes | Op_save_ack bytes uint64 | Op_compact uint64 | Op_purge uint64

fun doc_step :: "store_doc \<Rightarrow> store_op \<Rightarrow> store_doc" where
  "doc_step d (Op_save seq topic payload) = doc_save d seq topic payload"
| "doc_step d (Op_save_ack client seq) = doc_save_ack d client seq"
| "doc_step d (Op_compact m) = doc_compact d m"
| "doc_step d (Op_purge m) = doc_purge_old_acks d m"

fun store_step :: "('e, 't) lmdb \<Rightarrow> 'e \<Rightarrow> store_op \<Rightarrow> 'e" where
  "store_step L e (Op_save seq topic payload) = save L e seq topic payload"
| "store_step L e (Op_save_ack client seq) = save_ack L e client seq"
| "store_step L e (Op_compact m) = compact L e m"
| "store_step L e (Op_purge m) = purge_old_acks L e m"

text \<open>
  How the store has to be used: messages are numbered consecutively (the implementation counts by itself), client ids
  fit a key and hold no colon, and the bound of a clean-up is not 0.
\<close>

fun op_ok :: "store_doc \<Rightarrow> store_op \<Rightarrow> bool" where
  "op_ok d (Op_save seq topic payload) \<longleftrightarrow> seq = doc_last_seq d + 1"
| "op_ok d (Op_save_ack client seq) \<longleftrightarrow> CHR '':'' \<notin> set client \<and> length client \<le> 486"
| "op_ok d (Op_compact m) \<longleftrightarrow> m \<noteq> 0"
| "op_ok d (Op_purge m) \<longleftrightarrow> m \<noteq> 0"

fun ops_ok :: "store_doc \<Rightarrow> store_op list \<Rightarrow> bool" where
  "ops_ok d [] \<longleftrightarrow> True"
| "ops_ok d (op # ops) \<longleftrightarrow> op_ok d op \<and> ops_ok (doc_step d op) ops"

definition doc_run :: "store_doc \<Rightarrow> store_op list \<Rightarrow> store_doc" where
  "doc_run = foldl doc_step"

definition store_run :: "('e, 't) lmdb \<Rightarrow> 'e \<Rightarrow> store_op list \<Rightarrow> 'e" where
  "store_run L = foldl (store_step L)"

section \<open>Simulation\<close>

text \<open>A stored message is the topic and the payload joined; the documented pair cannot be read back from it.\<close>

definition store_rel :: "store_doc \<Rightarrow> (bytes \<rightharpoonup> bytes) \<Rightarrow> bool" where
  "store_rel d v \<longleftrightarrow> store_inv v \<and> stored_seq v = doc_last_seq d \<and>
     (\<forall>s. v (msg_key s) = map_option (\<lambda>(t, p). t @ p) (doc_messages d s)) \<and>
     (\<forall>c s. (v (ack_key c s) \<noteq> None) = (s \<in> doc_acks d c)) \<and> (\<forall>c. doc_acks d c \<noteq> {} \<longrightarrow> CHR '':'' \<notin> set c)"

lemma store_rel_empty: "store_rel doc_empty Map.empty"
  by (simp add: store_rel_def doc_empty_def stored_seq_def)

lemma rel_save: "store_rel d v \<Longrightarrow> seq = doc_last_seq d + 1 \<Longrightarrow> store_rel (doc_save d seq topic payload) (saved v topic payload)"
  by (auto simp: store_rel_def store_inv_saved doc_save_def) (auto simp: saved_def)

lemma rel_save_ack:
  "store_rel d v \<Longrightarrow> CHR '':'' \<notin> set c \<Longrightarrow> store_rel (doc_save_ack d c s) (v(ack_key c s \<mapsto> x))"
  by (auto simp: store_rel_def store_inv_ack doc_save_ack_def stored_seq_def)

lemma store_inv_deleted [simp]: "store_inv v \<Longrightarrow> store_inv (\<lambda>k. if P k then None else v k)"
  by (erule store_inv_sub) simp

lemma rel_compact: "store_rel d v \<Longrightarrow> store_rel (doc_compact d m) (\<lambda>k. if msg_upto m k then None else v k)"
  by (auto simp: store_rel_def doc_compact_def stored_seq_def)

lemma rel_purge: "store_rel d v \<Longrightarrow> store_rel (doc_purge_old_acks d m) (\<lambda>k. if ack_upto m k then None else v k)"
  by (auto simp: store_rel_def doc_purge_old_acks_def stored_seq_def)

lemma rel_acks:
  assumes "store_rel d v"
  shows "stored_acks v c = doc_acks d c"
proof -
  have "s \<in> doc_acks d c" if v: "v (ack_prefix c @ r) \<noteq> None" and r: "stoull r = Inr s" for r s
  proof -
    obtain x where "v (ack_prefix c @ r) = Some x" using v by blast
    moreover have "store_inv v" using assms by (simp add: store_rel_def)
    ultimately obtain c' s' where k: "ack_prefix c @ r = ack_key c' s'"
      by (elim store_invE) (auto simp: ack_prefix_def last_key_def msg_key_def)
    have s': "s' \<in> doc_acks d c'" using v assms by (simp add: store_rel_def k)
    then have "CHR '':'' \<notin> set c'" using assms by (auto simp: store_rel_def)
    from ack_key_under_prefix [OF this, of s' c r] k have "c = c'" "r = to_string (unat s')" by auto
    with r s' show ?thesis by simp
  qed
  moreover have "\<exists>r. v (ack_prefix c @ r) \<noteq> None \<and> stoull r = Inr s" if "s \<in> doc_acks d c" for s
    using that assms by (intro exI [of _ "to_string (unat s)"]) (auto simp: store_rel_def ack_key_def)
  ultimately show ?thesis by (auto simp: stored_acks_def)
qed

context lmdb_healthy
begin

lemma step_simulates: "store_rel d (eview e) \<Longrightarrow> op_ok d op \<Longrightarrow> store_rel (doc_step d op) (eview (store_step L e op))"
  by (cases op) (use key_ok_ack in \<open>auto simp: save_healthy save_ack_healthy compact_healthy purge_healthy
    intro: rel_save rel_save_ack rel_compact rel_purge\<close>)

lemma run_simulates: "store_rel d (eview e) \<Longrightarrow> ops_ok d ops \<Longrightarrow> store_rel (doc_run d ops) (eview (store_run L e ops))"
  by (induction ops arbitrary: d e) (auto simp: doc_run_def store_run_def intro: step_simulates)

end

section \<open>Properties\<close>

text \<open>
  (C15) The store does what its header promises, \<^verbatim>\<open>load_range\<close> aside: on an engine without faults, after any sequence of
  operations used as intended, the highest number and every client's acknowledgements are the documented ones, and
  exactly the documented messages are kept, each as its topic and payload joined.
\<close>

theorem store_follows_header:
  assumes "lmdb_healthy L eview tview" and "eview e = Map.empty" and "ops_ok doc_empty ops" and "length c \<le> 486"
  shows "get_last_seq L (store_run L e ops) = doc_last_seq (doc_run doc_empty ops) \<and>
    load_acks L (store_run L e ops) c = doc_acks (doc_run doc_empty ops) c \<and>
    eview (store_run L e ops) (msg_key s) = map_option (\<lambda>(t, p). t @ p) (doc_messages (doc_run doc_empty ops) s)"
proof -
  have "store_rel doc_empty (eview e)" by (simp add: assms(2) store_rel_empty)
  from lmdb_healthy.run_simulates [OF assms(1) this assms(3)]
  have rel: "store_rel (doc_run doc_empty ops) (eview (store_run L e ops))" .
  then show ?thesis
    using rel_acks [OF rel, of c] key_ok_ack [OF assms(4)]
    by (simp add: lmdb_healthy.get_last_seq_healthy [OF assms(1)] lmdb_healthy.load_acks_healthy [OF assms(1)] store_rel_def)
qed

theorem store_follows_header_witness:
  "load_acks (rbt_lmdb (\<lambda>_. False))
     (store_run (rbt_lmdb (\<lambda>_. False)) RBT.empty [Op_save 1 ''t'' ''x'', Op_save_ack ''dev'' 1, Op_save_ack ''dev'' 4, Op_purge 2]) ''dev'' = {4}"
proof -
  let ?ops = "[Op_save 1 ''t'' ''x'', Op_save_ack ''dev'' 1, Op_save_ack ''dev'' 4, Op_purge 2]"
  have "ops_ok doc_empty ?ops" by (simp add: doc_defs)
  moreover have "doc_acks (doc_run doc_empty ?ops) ''dev'' = {s \<in> {1, 4}. 2 < s}" by (simp add: doc_run_def doc_defs insert_commute)
  moreover have "{s \<in> {1, 4}. 2 < s} = {4 :: uint64}" by auto
  ultimately show ?thesis using store_follows_header [OF rbt_lmdb_healthy, of RBT.empty ?ops "''dev''" 1] by simp
qed

text \<open>
  \<^verbatim>\<open>load_range\<close> is the exception: whenever the store holds messages without NUL bytes only, it returns nothing,
  whatever range is asked for, while the header promises every message in the range.
\<close>

theorem load_range_departs_from_header:
  assumes "lmdb_healthy L eview tview" and "eview e = Map.empty" and "ops_ok doc_empty ops"
    and "\<forall>s t p. doc_messages (doc_run doc_empty ops) s = Some (t, p) \<longrightarrow> CHR 0x00 \<notin> set (t @ p)"
    and "doc_messages (doc_run doc_empty ops) s = Some (t, p)" and "a \<le> s" and "s \<le> b"
  shows "load_range L (store_run L e ops) a b = Inr [] \<and> (s, t, p) \<in> set (doc_load_range (doc_run doc_empty ops) a b)"
proof -
  let ?d = "doc_run doc_empty ops" and ?v = "eview (store_run L e ops)"
  have "store_rel doc_empty (eview e)" by (simp add: assms(2) store_rel_empty)
  from lmdb_healthy.run_simulates [OF assms(1) this assms(3)] have rel: "store_rel ?d ?v" .
  then have "store_inv ?v" by (simp add: store_rel_def)
  from lmdb_engine.load_range_sound [OF lmdb_healthy.axioms(1) [OF assms(1)] this, of a b]
  obtain r where r: "load_range L (store_run L e ops) a b = Inr r" "\<forall>(s, t, p) \<in> set r. ?v (msg_key s) = Some (t @ CHR 0x00 # p)" by fast
  have "(n, x, y) \<notin> set r" for n x y
  proof
    assume "(n, x, y) \<in> set r"
    with r(2) have "?v (msg_key n) = Some (x @ CHR 0x00 # y)" by auto
    with rel obtain t p where "doc_messages ?d n = Some (t, p)" "t @ p = x @ CHR 0x00 # y" by (auto simp: store_rel_def)
    with assms(4) have "CHR 0x00 \<notin> set (x @ CHR 0x00 # y)" by metis
    then show False by simp
  qed
  then have "r = []" by (cases r) auto
  moreover have "(s, t, p) \<in> set (doc_load_range ?d a b)"
    using assms(5-7) finite_subset [OF subset_UNIV, of "{s \<in> dom (doc_messages ?d). a \<le> s \<and> s \<le> b}"]
    by (force simp: doc_load_range_def)
  ultimately show ?thesis using r(1) by simp
qed

theorem load_range_departs_from_header_witness:
  "load_range (rbt_lmdb (\<lambda>_. False)) (store_run (rbt_lmdb (\<lambda>_. False)) RBT.empty [Op_save 1 ''t'' ''x'']) 1 10 = Inr [] \<and>
   (1, ''t'', ''x'') \<in> set (doc_load_range (doc_run doc_empty [Op_save 1 ''t'' ''x'']) 1 10)"
  by (rule load_range_departs_from_header [OF rbt_lmdb_healthy]) (auto simp: doc_run_def doc_defs split: if_splits)

end
