(* ===== verification/Handler_Steps.thy ===== *)
theory Handler_Steps
  imports Output_Spec
begin

text \<open>
  The handlers of \<^verbatim>\<open>src/session.cpp\<close> cut into the steps at which other threads may come in between: one step per
  section under the mutex of \<^verbatim>\<open>src/broker.cpp\<close> or of \<^verbatim>\<open>src/crypto/keystore.cpp\<close>, per read of the store outside of it
  and per call of \<^verbatim>\<open>Session::send\<close>. What a thread does between two such points is local to it and belongs to the next
  step. A step may decide which steps follow, as a loaded list of messages does. The lemmas show that the steps
  always come to an end and that, executed without interruption, they are the handlers of \<open>Session\<close>.
\<close>

section \<open>The steps\<close>

datatype action =
    Do_register bytes | Do_subscribe bytes | Do_replay bytes | Do_last_ack bytes bytes | Do_load bytes bytes uint64
  | Do_resend bytes | Do_resend_unacked bytes uint64 bytes | Do_unsubscribe bytes
  | Do_publish BinaryFrame | Do_signed_publish BinaryFrame | Do_text_publish RespValue RespValue
  | Do_verify BinaryFrame | Do_touch BinaryFrame | Do_scope BinaryFrame
  | Do_ack bytes uint64 | Do_reply packet | Do_unregister bytes | Do_remove

text \<open>The steps of \<^verbatim>\<open>handleBinaryFrame\<close>, \<^verbatim>\<open>handleCommand\<close> and the end of \<^verbatim>\<open>run\<close>.\<close>

definition frame_actions :: "Session \<Rightarrow> BinaryFrame \<Rightarrow> action list" where
  "frame_actions ses f =
     (let t = frame_topic f; ack = Do_reply (Bin (ack_frame (frame_sequence f)))
      in case frame_command f of
           CMD_SUBSCRIBE \<Rightarrow>
             (case str_find CHR 0x00 t of
                Some sep \<Rightarrow>
                  let c = take sep t; u = drop (sep + 1) t
                  in [Do_register c, Do_subscribe u, Do_replay u, Do_last_ack u c, ack]
              | None \<Rightarrow> [Do_subscribe t, Do_replay t, ack])
         | CMD_UNSUBSCRIBE \<Rightarrow> [Do_unsubscribe t, ack]
         | CMD_PUBLISH \<Rightarrow>
             if starts_with t ''secure/'' then [Do_reply (Bin (error_frame (secure_topic_error t)))]
             else [Do_publish f, ack]
         | CMD_PING \<Rightarrow> [Do_reply (Bin pong_frame)]
         | CMD_ACK \<Rightarrow> if client_id ses \<noteq> [] then [Do_ack (client_id ses) (frame_sequence f)] else []
         | CMD_SIGNED_PUBLISH \<Rightarrow> [Do_verify f]
         | CMD_SIGNED_MESSAGE \<Rightarrow> []
         | _ \<Rightarrow> [Do_reply (Bin (error_frame ''Unknown command''))])"

fun subscribe_actions :: "int \<Rightarrow> RespValue list \<Rightarrow> action list" where
  "subscribe_actions i [] = []"
| "subscribe_actions i (v # vs) =
     [Do_subscribe (asString v), Do_replay (asString v),
      Do_reply (Txt (RArray [BulkString ''subscribe'', BulkString (asString v), RInteger i]))] @ subscribe_actions (i + 1) vs"

definition unsubscribe_actions :: "RespValue list \<Rightarrow> action list" where
  "unsubscribe_actions vs =
     concat (map (\<lambda>v. [Do_unsubscribe (asString v),
       Do_reply (Txt (RArray [BulkString ''unsubscribe'', BulkString (asString v), RInteger 0]))]) vs)"

definition command_actions :: "Session \<Rightarrow> RespValue \<Rightarrow> action list" where
  "command_actions ses v =
     (let err = (\<lambda>e. [Do_reply (Txt (RError e))])
      in if \<not> isArray v then err ''ERR Protocol error: expected array''
         else case asArray v of
           [] \<Rightarrow> err ''ERR empty command''
         | c # args \<Rightarrow>
             let cmd = map toupper (asString c)
             in if cmd = ''SUBSCRIBE'' then subscribe_actions 1 args
                else if cmd = ''UNSUBSCRIBE'' then unsubscribe_actions args
                else if cmd = ''PUBLISH'' then
                  (case args of
                     [t, x] \<Rightarrow> [Do_text_publish t x, Do_reply (Txt (RInteger 1))]
                   | _ \<Rightarrow> err ''ERR wrong number of arguments for PUBLISH'')
                else if cmd = ''PING'' then
                  (case args of
                     [] \<Rightarrow> [Do_reply (Txt (SimpleString ''PONG''))]
                   | m # _ \<Rightarrow> [Do_reply (Txt (BulkString (asString m)))])
                else if cmd = ''ACK'' then
                  (case args of
                     [n] \<Rightarrow> (if client_id ses \<noteq> [] then [Do_ack (client_id ses) (word_of_int (asInteger n))] else []) @
                       [Do_reply (Txt (SimpleString ''OK''))]
                   | _ \<Rightarrow> err ''ERR wrong number of arguments for ACK'')
                else err (''ERR unknown command '' @ [CHR 0x27] @ cmd @ [CHR 0x27]))"

definition cleanup_actions :: "Session \<Rightarrow> action list" where
  "cleanup_actions ses = (if client_id ses \<noteq> [] then [Do_unregister (client_id ses)] else []) @ [Do_remove]"

text \<open>
  One step of a connection: the new state, and either an exception or the steps that come before the remaining ones.
\<close>

definition next_message :: "Session \<Rightarrow> BinaryFrame \<Rightarrow> BinaryFrame" where
  "next_message ses f = message_frame (frame_topic f) (frame_payload f) (ses_sequence ses + 1)"

definition next_signed_message :: "Session \<Rightarrow> BinaryFrame \<Rightarrow> BinaryFrame" where
  "next_signed_message ses f =
     signed_message_frame (frame_topic f) (frame_payload f) (frame_signature f) (frame_key_id f) (ses_sequence ses + 1)"

definition signed_part :: "BinaryFrame \<Rightarrow> uint8 list" where
  "signed_part f = map byte_of_char (frame_topic f @ frame_payload f)"

fun exec :: "('e, 't, 'r) ambient \<Rightarrow> action \<Rightarrow> 'e conn \<Rightarrow> 'e conn \<times> (exn + action list)" where
  "exec A (Do_register c) (ses, sys) =
     ((ses\<lparr>client_id := c\<rparr>, with_broker (\<lambda>b. registerClient (amb_lmdb A) (amb_order A) b c (ses_id ses)) sys), Inr [])"
| "exec A (Do_subscribe t) (ses, sys) = ((ses, with_broker (\<lambda>b. subscribe_locked b (ses_id ses) t) sys), Inr [])"
| "exec A (Do_replay t) (ses, sys) =
     ((ses, sys),
      case persistence (sys_broker sys) of
        None \<Rightarrow> Inr []
      | Some e \<Rightarrow>
          (case load_range (amb_lmdb A) e 0 (0 + MAX_STORED_MESSAGES) of
             Inl x \<Rightarrow> Inl x
           | Inr ms \<Rightarrow> Inr (map (\<lambda>(n, u, p). Do_resend p) (filter (\<lambda>(n, u, p). u = t) ms))))"
| "exec A (Do_last_ack t c) (ses, sys) = ((ses, sys), Inr [Do_load t c (getLastAck (sys_broker sys) c)])"
| "exec A (Do_load t c a) (ses, sys) =
     ((ses, sys),
      case persistence (sys_broker sys) of
        None \<Rightarrow> Inr []
      | Some e \<Rightarrow>
          (case load_range (amb_lmdb A) e (a + 1) (a + MAX_STORED_MESSAGES) of
             Inl x \<Rightarrow> Inl x
           | Inr ms \<Rightarrow> Inr (map (\<lambda>(n, u, p). Do_resend_unacked c n p) (filter (\<lambda>(n, u, p). u = t) ms))))"
| "exec A (Do_resend d) (ses, sys) = ((ses, with_broker (send_to (ses_id ses) d) sys), Inr [])"
| "exec A (Do_resend_unacked c n d) (ses, sys) =
     ((ses, sys), Inr (if isAcked (sys_broker sys) c n then [] else [Do_resend d]))"
| "exec A (Do_unsubscribe t) (ses, sys) = ((ses, with_broker (\<lambda>b. unsubscribe b (ses_id ses) t) sys), Inr [])"
| "exec A (Do_publish f) (ses, sys) =
     ((ses\<lparr>ses_sequence := ses_sequence ses + 1\<rparr>,
       with_broker (\<lambda>b. fst (publish (amb_lmdb A) (amb_latency A) b (frame_topic f) (serialize (next_message ses f)))) sys), Inr [])"
| "exec A (Do_signed_publish f) (ses, sys) =
     ((ses\<lparr>ses_sequence := ses_sequence ses + 1\<rparr>,
       with_broker (\<lambda>b. fst (publish (amb_lmdb A) (amb_latency A) b (frame_topic f) (serialize (next_signed_message ses f)))) sys), Inr [])"
| "exec A (Do_text_publish t x) (ses, sys) =
     ((ses, with_broker (\<lambda>b. fst (publish (amb_lmdb A) (amb_latency A) b (asString t) (resp_serialize (text_message t x)))) sys), Inr [])"
| "exec A (Do_verify f) (ses, sys) =
     ((ses, sys),
      Inr (case get_key (sys_keys sys) (frame_key_id f) of
             Some pk \<Rightarrow>
               if verify (amb_sodium A) (signed_part f) (frame_signature f) pk then [Do_touch f, Do_scope f]
               else [Do_reply (Bin (error_frame ''Invalid signature or unknown key''))]
           | None \<Rightarrow> [Do_reply (Bin (error_frame ''Invalid signature or unknown key''))]))"
| "exec A (Do_touch f) (ses, sys) =
     ((ses, sys\<lparr>sys_keys := touch (amb_clock A (sys_tick sys)) (sys_keys sys) (frame_key_id f)\<rparr>), Inr [])"
| "exec A (Do_scope f) (ses, sys) =
     ((ses, sys),
      Inr (if key_scope_ok (get_key_info (sys_keys sys) (frame_key_id f)) (frame_topic f)
           then [Do_signed_publish f, Do_reply (Bin (ack_frame (frame_sequence f)))]
           else [Do_reply (Bin (error_frame (''Key not authorized for topic '' @ [CHR 0x27] @ frame_topic f @ [CHR 0x27])))]))"
| "exec A (Do_ack c n) (ses, sys) = ((ses, with_broker (\<lambda>b. handleAck (amb_lmdb A) b c n) sys), Inr [])"
| "exec A (Do_reply r) (ses, sys) = ((ses, with_broker (send_to (ses_id ses) (packet_bytes r)) sys), Inr [])"
| "exec A (Do_unregister c) (ses, sys) = ((ses, with_broker (\<lambda>b. unregisterClient b c) sys), Inr [])"
| "exec A Do_remove (ses, sys) = ((ses, with_broker (\<lambda>b. removeSession b (ses_id ses)) sys), Inr [])"

section \<open>The steps come to an end\<close>

text \<open>A step is followed by steps of a lower rank only, however many they are.\<close>

fun rank :: "action \<Rightarrow> nat" where
  "rank (Do_last_ack t c) = 3"
| "rank (Do_load t c n) = 2"
| "rank (Do_verify f) = 2"
| "rank (Do_resend_unacked c n d) = 1"
| "rank (Do_replay t) = 1"
| "rank (Do_scope f) = 1"
| "rank _ = 0"

lemma exec_rank: "exec A a st = (st', Inr new) \<Longrightarrow> b \<in> set new \<Longrightarrow> rank b < rank a"
  by (cases st; cases a) (auto split: option.splits sum.splits if_splits)

definition ranked :: "nat \<Rightarrow> action list \<Rightarrow> nat" where
  "ranked k as = length (filter (\<lambda>a. rank a = k) as)"

definition todo_less :: "(action list \<times> action list) set" where
  "todo_less = measures [ranked 3, ranked 2, ranked 1, ranked 0]"

lemma wf_todo_less: "wf todo_less"
  by (simp add: todo_less_def)

lemma exec_todo_less:
  assumes "exec A a st = (st', Inr new)"
  shows "(new @ as, a # as) \<in> todo_less"
proof -
  have low: "\<forall>b \<in> set new. rank b < rank a" using exec_rank [OF assms] by blast
  then have same: "ranked k new = 0" if "rank a \<le> k" for k
    using that by (fastforce simp: ranked_def filter_empty_conv)
  have "rank a \<in> {0, 1, 2, 3}" by (cases a) simp_all
  then show ?thesis
    using same [of 0] same [of 1] same [of 2] same [of 3]
    by (auto simp: todo_less_def ranked_def)
qed

function run_actions :: "('e, 't, 'r) ambient \<Rightarrow> action list \<Rightarrow> 'e conn \<Rightarrow> 'e conn \<times> exn option" where
  "run_actions A [] st = (st, None)"
| "run_actions A (a # as) st =
     (case exec A a st of
        (st', Inl x) \<Rightarrow> (st', Some x)
      | (st', Inr new) \<Rightarrow> run_actions A (new @ as) st')"
  by pat_completeness auto
termination
proof (relation "inv_image todo_less (\<lambda>(A, as, st). as)")
  show "wf (inv_image todo_less (\<lambda>(A, as, st). as))" by (rule wf_inv_image [OF wf_todo_less])
qed (auto dest!: exec_todo_less [OF sym])

section \<open>Without interruption\<close>

lemma run_append:
  "run_actions A (as @ cs) st =
     (case run_actions A as st of (st', None) \<Rightarrow> run_actions A cs st' | (st', Some x) \<Rightarrow> (st', Some x))"
proof (induction A as st rule: run_actions.induct)
  case (2 A a as st)
  obtain st' r where r: "exec A a st = (st', r)" by fastforce
  then show ?case using 2 [OF r [symmetric]] by (cases r) simp_all
qed simp

lemma run_resend:
  "run_actions A (map (\<lambda>(n, u, p). Do_resend p) (filter (\<lambda>(n, u, p). u = t) ms)) (ses, sys) =
     ((ses, sys\<lparr>sys_broker := foldl (\<lambda>b (n, u, p). if u = t then send_to (ses_id ses) p b else b) (sys_broker sys) ms\<rparr>), None)"
  by (induction ms arbitrary: sys) (auto simp: with_broker_def)

lemma run_resend_unacked:
  "run_actions A (map (\<lambda>(n, u, p). Do_resend_unacked c n p) (filter (\<lambda>(n, u, p). u = t) ms)) (ses, sys) =
     ((ses, sys\<lparr>sys_broker := foldl (\<lambda>b (n, u, p). if u = t \<and> \<not> isAcked b c n then send_to (ses_id ses) p b else b)
        (sys_broker sys) ms\<rparr>), None)"
  by (induction ms arbitrary: sys) (auto simp: with_broker_def)

lemma run_replay:
  "run_actions A [Do_replay t] (ses, sys) =
     (case replayMessages (amb_lmdb A) (sys_broker sys) (ses_id ses) t 0 of (b, x) \<Rightarrow> ((ses, sys\<lparr>sys_broker := b\<rparr>), x))"
  by (simp add: replayMessages_def run_resend split: option.split sum.split)

lemma run_replay_client:
  "run_actions A [Do_last_ack t c] (ses, sys) =
     (case replayMessagesForClient (amb_lmdb A) (sys_broker sys) (ses_id ses) t c of (b, x) \<Rightarrow> ((ses, sys\<lparr>sys_broker := b\<rparr>), x))"
  by (simp add: replayMessagesForClient_def run_resend_unacked Let_def split: option.split sum.split)

lemma run_subscribe:
  "run_actions A (Do_subscribe t # Do_replay t # as) (ses, sys) =
     (case subscribe (amb_lmdb A) (sys_broker sys) (ses_id ses) t of
        (b, None) \<Rightarrow> run_actions A as (ses, sys\<lparr>sys_broker := b\<rparr>)
      | (b, Some x) \<Rightarrow> ((ses, sys\<lparr>sys_broker := b\<rparr>), Some x))"
proof -
  let ?sys = "with_broker (\<lambda>b. subscribe_locked b (ses_id ses) t) sys"
  have "run_actions A (Do_subscribe t # Do_replay t # as) (ses, sys) = run_actions A ([Do_replay t] @ as) (ses, ?sys)"
    by simp
  then show ?thesis
    unfolding run_append run_replay by (simp add: subscribe_def with_broker_def split: prod.split option.split)
qed

lemma run_reply:
  "run_actions A (Do_reply r # as) (ses, sys) = run_actions A as (ses, with_broker (send_to (ses_id ses) (packet_bytes r)) sys)"
  by simp

lemma run_subscribe_client:
  "run_actions A [Do_register c, Do_subscribe t, Do_replay t, Do_last_ack t c, Do_reply r] (ses, sys) =
     (let ses1 = ses\<lparr>client_id := c\<rparr>; sys1 = with_broker (\<lambda>b. registerClient (amb_lmdb A) (amb_order A) b c (ses_id ses)) sys
      in case subscribe (amb_lmdb A) (sys_broker sys1) (ses_id ses) t of
           (b2, Some x) \<Rightarrow> ((ses1, sys1\<lparr>sys_broker := b2\<rparr>), Some x)
         | (b2, None) \<Rightarrow>
             (case replayMessagesForClient (amb_lmdb A) b2 (ses_id ses) t c of
                (b3, Some x) \<Rightarrow> ((ses1, sys1\<lparr>sys_broker := b3\<rparr>), Some x)
              | (b3, None) \<Rightarrow> ((ses1, with_broker (send_to (ses_id ses) (packet_bytes r)) (sys1\<lparr>sys_broker := b3\<rparr>)), None)))"
proof -
  have client: "run_actions A [Do_last_ack t c, Do_reply r] (ses, sys) =
      (case replayMessagesForClient (amb_lmdb A) (sys_broker sys) (ses_id ses) t c of
         (b3, Some x) \<Rightarrow> ((ses, sys\<lparr>sys_broker := b3\<rparr>), Some x)
       | (b3, None) \<Rightarrow> ((ses, with_broker (send_to (ses_id ses) (packet_bytes r)) (sys\<lparr>sys_broker := b3\<rparr>)), None))" for ses sys
    using run_append [of A "[Do_last_ack t c]" "[Do_reply r]" "(ses, sys)"] unfolding run_replay_client
    by (simp split: prod.split option.split)
  have "run_actions A [Do_register c, Do_subscribe t, Do_replay t, Do_last_ack t c, Do_reply r] (ses, sys) =
      run_actions A [Do_subscribe t, Do_replay t, Do_last_ack t c, Do_reply r]
        (ses\<lparr>client_id := c\<rparr>, with_broker (\<lambda>b. registerClient (amb_lmdb A) (amb_order A) b c (ses_id ses)) sys)" by simp
  then show ?thesis unfolding run_subscribe client by (simp add: Let_def split: prod.split option.split)
qed

lemma run_signed:
  "run_actions A [Do_verify f] (ses, sys) = (on_signed_publish A (ses, sys) f, None)"
  by (auto simp: on_signed_publish_def verify_with_key_def get_key_def signed_part_def next_signed_message_def
      sendBinary_def with_broker_def Let_def split: option.split)

lemma run_subscribe_actions:
  "run_actions A (subscribe_actions i vs) (ses, sys) = (case resp_subscribe A ses i vs sys of (sys', x) \<Rightarrow> ((ses, sys'), x))"
proof (induction vs arbitrary: i sys)
  case (Cons v vs)
  then show ?case
    by (simp add: run_subscribe sendResp_def del: resp_serialize.simps run_actions.simps(2) split: prod.split option.split)
      (simp add: with_broker_def)
qed simp

lemma run_unsubscribe_actions:
  "run_actions A (unsubscribe_actions vs) (ses, sys) = ((ses, resp_unsubscribe ses vs sys), None)"
  by (induction vs arbitrary: sys) (simp_all add: unsubscribe_actions_def sendResp_def del: resp_serialize.simps)

lemma run_frame_actions:
  "run_actions A (frame_actions ses f) (ses, sys\<lparr>sys_tick := sys_tick sys + 1\<rparr>) = handleBinaryFrame A (ses, sys) f"
proof (cases "frame_command f")
  case CMD_SUBSCRIBE
  then show ?thesis
  proof (cases "str_find CHR 0x00 (frame_topic f)")
    case (Some k)
    with CMD_SUBSCRIBE show ?thesis
      by (simp add: frame_actions_def handleBinaryFrame_def on_subscribe_def run_subscribe_client sendBinary_def Let_def
          del: run_actions.simps(2) split: prod.split option.split)
  qed (simp add: frame_actions_def handleBinaryFrame_def on_subscribe_def run_subscribe run_reply sendBinary_def Let_def
      del: run_actions.simps(2) split: prod.split option.split)
next
  case CMD_SIGNED_PUBLISH
  then show ?thesis by (simp add: frame_actions_def handleBinaryFrame_def run_signed del: run_actions.simps(2))
qed (auto simp: frame_actions_def handleBinaryFrame_def on_publish_def next_message_def sendBinary_def Let_def)

lemma run_command_actions:
  "run_actions A (command_actions ses v) (ses, sys\<lparr>sys_tick := sys_tick sys + 1\<rparr>) = handleCommand A (ses, sys) v"
proof -
  define sys1 where "sys1 = sys\<lparr>sys_tick := sys_tick sys + 1\<rparr>"
  show ?thesis
    unfolding command_actions_def handleCommand_def Let_def fst_conv snd_conv sys1_def [symmetric]
    by (auto simp: run_subscribe_actions run_unsubscribe_actions sendResp_def text_message_def
        simp del: resp_serialize.simps split: list.split prod.split)
qed

lemma run_cleanup_actions: "run_actions A (cleanup_actions ses) (ses, sys) = ((ses, session_cleanup (ses, sys)), None)"
  by (simp add: cleanup_actions_def session_cleanup_def)

section \<open>Properties\<close>

text \<open>
  (C6) Cutting the handlers into steps loses nothing: executed one after the other without interruption, the steps of a
  binary frame and of a text command give the same session, the same broker, the same registry and the same exception,
  if there is one, as the handlers, whatever state they start in and whatever the store does; and so do the
  steps that end a session. Every step leads to steps of lower rank only, so that a thread reaches the end of its
  handler in finitely many of its own steps, whatever the others do in between.
\<close>

theorem handlers_as_steps:
  "run_actions A (frame_actions ses f) (ses, sys\<lparr>sys_tick := sys_tick sys + 1\<rparr>) = handleBinaryFrame A (ses, sys) f \<and>
   run_actions A (command_actions ses v) (ses, sys\<lparr>sys_tick := sys_tick sys + 1\<rparr>) = handleCommand A (ses, sys) v \<and>
   run_actions A (cleanup_actions ses) (ses, sys) = ((ses, session_cleanup (ses, sys)), None) \<and>
   wf {(bs, as). \<exists>a rest st st' new. as = a # rest \<and> exec A a st = (st', Inr new) \<and> bs = new @ rest}"
proof (intro conjI)
  show "wf {(bs, as). \<exists>a rest st st' new. as = a # rest \<and> exec A a st = (st', Inr new) \<and> bs = new @ rest}"
    by (rule wf_subset [OF wf_todo_less]) (auto dest: exec_todo_less)
qed (rule run_frame_actions run_command_actions run_cleanup_actions)+

end
