(* ===== verification/Threads.thy ===== *)
theory Threads
  imports Handler_Steps
begin

text \<open>
  All session threads together, step by step: the connections of \<open>Server\<close>, each with the steps its thread has left to
  do. A schedule is any list of moves, in which threads take turns as they like, new requests are taken up by idle
  threads, connections come, the broker is stopped, and the key registry is changed from outside. The lemmas relate every
  such run to the abstract machine of \<open>Pubsub_Spec\<close>, one effect at a time.
\<close>

section \<open>Interleaved threads\<close>

record 'e threads =
  th_server :: "'e server"
  th_todo :: "session_id \<Rightarrow> action list"
  th_request :: "session_id \<Rightarrow> input"

text \<open>
  \<open>Arrive\<close> is the accept loop taking a connection, the shutdown request, or a thread taking the next frame or command
  from its buffer or finding the connection closed; \<open>Proceed\<close> is the next step of a thread; \<open>Registry\<close> is a call on the
  process-wide registry of keys from outside the sessions.
\<close>

datatype move = Arrive input | Proceed | Registry ks_op

definition threads_start :: "('e, 't) lmdb \<Rightarrow> 'e \<Rightarrow> TrustedKeyStore \<Rightarrow> 'e threads" where
  "threads_start L e keys = \<lparr>th_server = server_start L e keys, th_todo = (\<lambda>_. []), th_request = (\<lambda>_. Disconnect)\<rparr>"

abbreviation th_broker :: "'e threads \<Rightarrow> 'e Broker" where
  "th_broker th \<equiv> sys_broker (sv_sys (th_server th))"

abbreviation th_session :: "'e threads \<Rightarrow> session_id \<Rightarrow> Session" where
  "th_session th i \<equiv> sv_sessions (th_server th) i"

definition input_actions :: "Session \<Rightarrow> input \<Rightarrow> action list" where
  "input_actions ses inp =
     (case inp of Frame f \<Rightarrow> frame_actions ses f | Command v \<Rightarrow> command_actions ses v | Disconnect \<Rightarrow> cleanup_actions ses | _ \<Rightarrow> [])"

text \<open>The clock counts the frames and commands handled.\<close>

definition begin_request :: "session_id \<Rightarrow> input \<Rightarrow> 'e threads \<Rightarrow> 'e threads" where
  "begin_request i inp th =
     (let sv = th_server th; sys = sv_sys sv
      in th\<lparr>th_server := (if inp = Disconnect then sv else sv\<lparr>sv_sys := sys\<lparr>sys_tick := sys_tick sys + 1\<rparr>\<rparr>),
            th_todo := (th_todo th)(i := input_actions (sv_sessions sv i) inp),
            th_request := (th_request th)(i := inp)\<rparr>)"

text \<open>An exception leaves the handler for the clean-up of the session.\<close>

definition proceed :: "('e, 't, 'r) ambient \<Rightarrow> session_id \<Rightarrow> 'e threads \<Rightarrow> 'e threads" where
  "proceed A i th =
     (case th_todo th i of
        [] \<Rightarrow> th
      | a # as \<Rightarrow>
          (case exec A a (th_session th i, sv_sys (th_server th)) of
             ((ses, sys), r) \<Rightarrow>
               th\<lparr>th_server := (th_server th)\<lparr>sv_sessions := (sv_sessions (th_server th))(i := ses), sv_sys := sys\<rparr>,
                  th_todo := (th_todo th)(i := (case r of Inr new \<Rightarrow> new @ as | Inl _ \<Rightarrow> cleanup_actions ses))\<rparr>))"

definition idle :: "'e threads \<Rightarrow> session_id \<Rightarrow> bool" where
  "idle th i \<longleftrightarrow> i \<in> set (b_sessions (th_broker th)) \<and> th_todo th i = []"

definition thread_step :: "('e, 't, 'r) ambient \<Rightarrow> 'e threads \<Rightarrow> session_id \<times> move \<Rightarrow> 'e threads" where
  "thread_step A th m =
     (let (i, mv) = m; sv = th_server th
      in case mv of
           Arrive (Connect now) \<Rightarrow> th\<lparr>th_server := server_step A sv (i, Connect now)\<rparr>
         | Arrive Shutdown \<Rightarrow> th\<lparr>th_server := server_step A sv (i, Shutdown)\<rparr>
         | Arrive inp \<Rightarrow> if idle th i then begin_request i inp th else th
         | Proceed \<Rightarrow> proceed A i th
         | Registry op \<Rightarrow>
             th\<lparr>th_server := sv\<lparr>sv_sys := (sv_sys sv)\<lparr>sys_keys := ks_step (amb_sodium A) (sys_keys (sv_sys sv)) op\<rparr>\<rparr>\<rparr>)"

definition threads_run :: "('e, 't, 'r) ambient \<Rightarrow> 'e threads \<Rightarrow> (session_id \<times> move) list \<Rightarrow> 'e threads" where
  "threads_run A th ms = foldl (thread_step A) th ms"

lemma threads_run_simps [simp]:
  "threads_run A th [] = th" "threads_run A th (m # ms) = threads_run A (thread_step A th m) ms"
  by (simp_all add: threads_run_def)

section \<open>What the steps of a thread do to the broker\<close>

text \<open>A thread acts only while its session is connected, and removing the session is the last thing it does.\<close>

definition threads_ok :: "'e threads \<Rightarrow> bool" where
  "threads_ok th \<longleftrightarrow> sessions_ok (th_server th) \<and> broker_inv (th_broker th) \<and>
     (\<forall>i. (th_todo th i \<noteq> [] \<longrightarrow> i \<in> set (b_sessions (th_broker th))) \<and> Do_remove \<notin> set (butlast (th_todo th i)))"

lemma threads_ok_start: "threads_ok (threads_start L e keys)"
  using sessions_ok_start [of L e keys] by (simp add: threads_ok_def threads_start_def server_start_def)

lemma exec_no_remove: "exec A a st = (st', Inr new) \<Longrightarrow> Do_remove \<notin> set new"
  by (cases st; cases a) (auto split: option.splits sum.splits if_splits)

lemma actions_no_remove:
  "Do_remove \<notin> set (frame_actions ses f)" "Do_remove \<notin> set (command_actions ses v)"
proof -
  have "Do_remove \<notin> set (subscribe_actions i vs)" for i vs by (induction vs arbitrary: i) simp_all
  then show "Do_remove \<notin> set (command_actions ses v)"
    by (auto simp: command_actions_def unsubscribe_actions_def Let_def split: list.splits)
  show "Do_remove \<notin> set (frame_actions ses f)"
    by (cases "frame_command f") (auto simp: frame_actions_def Let_def split: option.splits)
qed

lemma input_actions_last: "Do_remove \<notin> set (butlast (input_actions ses inp))"
proof -
  have "Do_remove \<notin> set (butlast (cleanup_actions ses))" by (simp add: cleanup_actions_def butlast_append)
  then show ?thesis
    using actions_no_remove in_set_butlastD by (cases inp) (fastforce simp: input_actions_def)+
qed

lemma exec_keeps:
  assumes "exec A a (ses, sys) = ((ses', sys'), r)"
  shows "ses_id ses' = ses_id ses"
    "b_sessions (sys_broker sys') = (if a = Do_remove then filter (\<lambda>x. x \<noteq> ses_id ses) (b_sessions (sys_broker sys)) else b_sessions (sys_broker sys))"
  using assms by (cases a; auto simp: with_broker_def removeSession_def update_metrics_def Let_def)+

text \<open>Every step is a step of the broker or leaves it alone.\<close>

lemma exec_bsteps:
  assumes "exec A a (ses, sys) = ((ses', sys'), r)" and "ses_id ses \<in> set (b_sessions (sys_broker sys))"
  shows "bsteps A (sys_broker sys) (sys_broker sys')"
proof -
  have "broker_step (amb_lmdb A) (amb_order A) (amb_latency A) (sys_broker sys) (sys_broker sys') \<or> sys_broker sys' = sys_broker sys"
    using assms by (cases a) (auto simp: with_broker_def intro: broker_step.intros)
  then show ?thesis by auto
qed

section \<open>Effects\<close>

text \<open>What the moves mean to the clients.\<close>

datatype effect =
    Came session_id | Subscribed session_id bytes | Unsubscribed session_id bytes | Published session_id bytes packet
  | Acknowledged session_id uint64 | Replied session_id packet | Resent session_id bytes | Left session_id | Stopped

fun action_effects :: "Session \<Rightarrow> action \<Rightarrow> effect list" where
  "action_effects ses (Do_subscribe t) = [Subscribed (ses_id ses) t]"
| "action_effects ses (Do_unsubscribe t) = [Unsubscribed (ses_id ses) t]"
| "action_effects ses (Do_publish f) = [Published (ses_id ses) (frame_topic f) (Bin (next_message ses f))]"
| "action_effects ses (Do_signed_publish f) = [Published (ses_id ses) (frame_topic f) (Bin (next_signed_message ses f))]"
| "action_effects ses (Do_text_publish t x) = [Published (ses_id ses) (asString t) (Txt (text_message t x))]"
| "action_effects ses (Do_ack c n) = [Acknowledged (ses_id ses) n]"
| "action_effects ses (Do_reply r) = [Replied (ses_id ses) r]"
| "action_effects ses (Do_resend d) = [Resent (ses_id ses) d]"
| "action_effects ses Do_remove = [Left (ses_id ses)]"
| "action_effects ses _ = []"

definition move_effects :: "'e threads \<Rightarrow> session_id \<times> move \<Rightarrow> effect list" where
  "move_effects th m =
     (case m of
        (i, Arrive (Connect now)) \<Rightarrow> [Came i]
      | (i, Arrive Shutdown) \<Rightarrow> [Stopped]
      | (i, Proceed) \<Rightarrow> (case th_todo th i of [] \<Rightarrow> [] | a # as \<Rightarrow> action_effects (th_session th i) a)
      | _ \<Rightarrow> [])"

fun effects :: "('e, 't, 'r) ambient \<Rightarrow> 'e threads \<Rightarrow> (session_id \<times> move) list \<Rightarrow> effect list" where
  "effects A th [] = []"
| "effects A th (m # ms) = move_effects th m @ effects A (thread_step A th m) ms"

text \<open>The abstract machine, driven by effects, and the list of what is sent to one connection.\<close>

fun effect_step :: "pubsub \<Rightarrow> effect \<Rightarrow> pubsub" where
  "effect_step p (Came i) = pubsub_step p (i, Connect 0)"
| "effect_step p (Subscribed i t) = p\<lparr>subs := insert (i, t) (subs p)\<rparr>"
| "effect_step p (Unsubscribed i t) = p\<lparr>subs := subs p - {(i, t)}\<rparr>"
| "effect_step p (Left i) = p\<lparr>live := live p - {i}, subs := {x \<in> subs p. fst x \<noteq> i}\<rparr>"
| "effect_step p Stopped = p\<lparr>down := True\<rparr>"
| "effect_step p _ = p"

fun effect_sends :: "pubsub \<Rightarrow> session_id \<Rightarrow> effect \<Rightarrow> bytes list" where
  "effect_sends p r (Published i t m) = replicate (matches p r t) (packet_bytes m)"
| "effect_sends p r (Replied i m) = (if r = i then [packet_bytes m] else [])"
| "effect_sends p r (Resent i d) = (if r = i then [d] else [])"
| "effect_sends p r _ = []"

fun stream :: "session_id \<Rightarrow> pubsub \<Rightarrow> effect list \<Rightarrow> bytes list" where
  "stream r p [] = []"
| "stream r p (e # es) = effect_sends p r e @ stream r (effect_step p e) es"

lemma stream_append: "stream r p (es @ es') = stream r p es @ stream r (foldl effect_step p es) es'"
  by (induction es arbitrary: p) simp_all

definition sends_to :: "session_id \<Rightarrow> 'e Broker \<Rightarrow> bytes list" where
  "sends_to r b = map snd (filter (\<lambda>x. fst x = r) (sent b))"

lemma wire_sends_to: "wire r (sent b) = concat (sends_to r b)"
  by (simp add: wire_def sends_to_def)

lemma sends_fan_out: "map snd (filter (\<lambda>x. fst x = r) (map (\<lambda>s. (s, d)) ss)) = replicate (count_list ss r) d"
  by (induction ss) simp_all

lemma sends_to_publish:
  assumes "broker_inv b"
  shows "sends_to r (fst (publish L lat b t d)) = sends_to r b @ replicate (matches (pubsub_of b) r t) d"
proof -
  have "distinct (subscribers b u)" for u using subscribers_inv [of b u] assms by (simp add: broker_inv_def)
  then show ?thesis
    unfolding sends_to_def sent_publish map_append filter_append sends_fan_out replicate_add [symmetric] append_assoc
    by (simp add: matches_def pubsub_of_def count_list_distinct)
qed

lemma sends_to_frame [simp]:
  "sends_to r (subscribe_locked b s t) = sends_to r b" "sends_to r (unsubscribe b s t) = sends_to r b"
  "sends_to r (removeSession b s) = sends_to r b" "sends_to r (unregisterClient b c) = sends_to r b"
  "sends_to r (registerClient L ord b c s) = sends_to r b" "sends_to r (fst (accept_step b ev)) = sends_to r b"
  "sends_to r (stop b) = sends_to r b" "sends_to r (handleAck L b c n) = sends_to r b"
  "sends_to r (send_to s d b) = sends_to r b @ (if r = s then [d] else [])"
  by (simp_all add: sends_to_def) (simp add: send_to_def)

lemma exec_effects:
  assumes "exec A a (ses, sys) = ((ses', sys'), r)" and "broker_inv (sys_broker sys)"
  shows "pubsub_of (sys_broker sys') = foldl effect_step (pubsub_of (sys_broker sys)) (action_effects ses a)"
    "sends_to s (sys_broker sys') = sends_to s (sys_broker sys) @ stream s (pubsub_of (sys_broker sys)) (action_effects ses a)"
proof -
  have inv: "topics_inv (sys_broker sys)" using assms(2) by (simp add: broker_inv_def)
  show "pubsub_of (sys_broker sys') = foldl effect_step (pubsub_of (sys_broker sys)) (action_effects ses a)"
    using assms(1) by (cases a) (auto simp: with_broker_def pubsub_of_subscribe pubsub_of_unsubscribe [OF inv] pubsub_of_remove [OF inv])
  show "sends_to s (sys_broker sys') = sends_to s (sys_broker sys) @ stream s (pubsub_of (sys_broker sys)) (action_effects ses a)"
    using assms by (cases a) (auto simp: with_broker_def sends_to_publish)
qed

section \<open>Every schedule\<close>

lemma bsteps_inv: "bsteps A b b' \<Longrightarrow> broker_inv b \<Longrightarrow> broker_inv b'"
  by (induction rule: rtranclp_induct) (auto intro: broker_step_inv)

lemma proceed_eq:
  assumes "th_todo th i = a # as" and "exec A a (th_session th i, sv_sys (th_server th)) = ((ses, sys), r)"
  shows "th_broker (proceed A i th) = sys_broker sys" "sv_sessions (th_server (proceed A i th)) = (sv_sessions (th_server th))(i := ses)"
    "th_todo (proceed A i th) = (th_todo th)(i := (case r of Inr new \<Rightarrow> new @ as | Inl _ \<Rightarrow> cleanup_actions ses))"
    "sys_keys (sv_sys (th_server (proceed A i th))) = sys_keys sys" "th_request (proceed A i th) = th_request th"
  using assms by (simp_all add: proceed_def)

lemma proceed_ok:
  assumes "threads_ok th" and "th_todo th i = a # as" and "exec A a (th_session th i, sv_sys (th_server th)) = ((ses, sys), r)"
  shows "threads_ok (proceed A i th)" "bsteps A (th_broker th) (sys_broker sys)"
proof -
  have id: "ses_id (th_session th i) = i" and live: "i \<in> set (b_sessions (th_broker th))"
    using assms(1,2) by (auto simp: threads_ok_def sessions_ok_def)
  from exec_bsteps [OF assms(3)] id live show steps: "bsteps A (th_broker th) (sys_broker sys)" by simp
  have last: "Do_remove \<notin> set (butlast (a # as))" using assms(1,2) by (metis threads_ok_def)
  define new where "new = (case r of Inr new \<Rightarrow> new @ as | Inl _ \<Rightarrow> cleanup_actions ses)"
  have new: "Do_remove \<notin> set (butlast new)"
  proof (cases r)
    case (Inr n)
    then have "Do_remove \<notin> set n" using exec_no_remove assms(3) by blast
    with last Inr show ?thesis by (auto simp: new_def butlast_append dest: in_set_butlastD split: if_splits)
  qed (simp add: new_def cleanup_actions_def butlast_append)
  have gone: "new = []" if "a = Do_remove"
    using that last assms(3) by (auto simp: new_def split: if_splits)
  have inv: "broker_inv (sys_broker sys)" using bsteps_inv [OF steps] assms(1) by (simp add: threads_ok_def)
  have here: "j \<in> set (b_sessions (sys_broker sys))" if "((th_todo th)(i := new)) j \<noteq> []" for j
    using that gone assms(1) live id exec_keeps(2) [OF assms(3)] by (cases "j = i") (auto simp: threads_ok_def split: if_splits)
  show "threads_ok (proceed A i th)"
    using assms(1) inv here new exec_keeps(1) [OF assms(3)] id
    unfolding threads_ok_def sessions_ok_def proceed_eq [OF assms(2,3)] new_def [symmetric] by auto
qed

text \<open>
  A move keeps the invariant, makes broker steps, and does to the subscriptions and the outputs what its effects say.
\<close>

lemma thread_step_ok:
  assumes "threads_ok th"
  shows "threads_ok (thread_step A th m) \<and> bsteps A (th_broker th) (th_broker (thread_step A th m)) \<and>
    pubsub_of (th_broker (thread_step A th m)) = foldl effect_step (pubsub_of (th_broker th)) (move_effects th m) \<and>
    sends_to r (th_broker (thread_step A th m)) = sends_to r (th_broker th) @ stream r (pubsub_of (th_broker th)) (move_effects th m)"
proof -
  obtain i mv where m: "m = (i, mv)" by fastforce
  have ok: "sessions_ok (th_server th)" "broker_inv (th_broker th)" using assms by (simp_all add: threads_ok_def)
  have conn: "conn_inv (th_broker th)" using ok(2) by (simp add: broker_inv_def)
  note step = server_step_steps [OF ok(1), of A]
  have begun: ?thesis if "mv = Arrive inp" "inp \<noteq> Shutdown" "\<forall>now. inp \<noteq> Connect now" for inp
    using assms that input_actions_last [of "th_session th i" inp]
    by (cases inp) (auto simp: m thread_step_def begin_request_def idle_def move_effects_def threads_ok_def sessions_ok_def Let_def)
  show ?thesis
  proof (cases mv)
    case (Arrive inp)
    show ?thesis
    proof (cases inp)
      case (Connect now)
      let ?sv = "server_step A (th_server th) (i, Connect now)"
      have steps: "sessions_ok ?sv" "bsteps A (th_broker th) (sys_broker (sv_sys ?sv))" using step by auto
      have more: "set (b_sessions (th_broker th)) \<subseteq> set (b_sessions (sys_broker (sv_sys ?sv)))"
        by (auto simp: server_step_def with_broker_def accept_step_def update_metrics_def Let_def)
      have "pubsub_of (sys_broker (sv_sys ?sv)) = pubsub_step (pubsub_of (th_broker th)) (i, Connect 0)"
        using pubsub_of_accept [OF conn, of i]
        by (auto simp: server_step_def pubsub_step_def Let_def) (simp_all add: pubsub_of_def)
      moreover have "sends_to r (sys_broker (sv_sys ?sv)) = sends_to r (th_broker th)" by (simp add: server_step_def Let_def)
      ultimately show ?thesis
        using Arrive Connect assms steps bsteps_inv [OF steps(2) ok(2)] more
        by (auto simp: m thread_step_def move_effects_def threads_ok_def)
    next
      case Shutdown
      let ?sv = "server_step A (th_server th) (i, Shutdown)"
      have steps: "sessions_ok ?sv" "bsteps A (th_broker th) (sys_broker (sv_sys ?sv))" using step by auto
      have b: "sys_broker (sv_sys ?sv) = stop (th_broker th)" by (simp add: server_step_def with_broker_def Let_def)
      then have "pubsub_of (sys_broker (sv_sys ?sv)) = (pubsub_of (th_broker th))\<lparr>down := True\<rparr>"
        by (simp add: pubsub_of_def)
      then show ?thesis
        using Arrive Shutdown assms steps bsteps_inv [OF steps(2) ok(2)] b
        by (auto simp: m thread_step_def move_effects_def threads_ok_def)
    qed (use begun Arrive in auto)
  next
    case Proceed
    show ?thesis
    proof (cases "th_todo th i")
      case Nil
      with Proceed assms show ?thesis by (simp add: m thread_step_def proceed_def move_effects_def)
    next
      case (Cons a as)
      obtain ses sys x where e: "exec A a (th_session th i, sv_sys (th_server th)) = ((ses, sys), x)" by (metis surj_pair)
      from proceed_ok [OF assms Cons e] exec_effects [OF e ok(2)] proceed_eq(1) [OF Cons e] Proceed Cons show ?thesis
        by (simp add: m thread_step_def move_effects_def)
    qed
  next
    case (Registry op)
    with assms show ?thesis by (simp add: m thread_step_def move_effects_def threads_ok_def sessions_ok_def Let_def)
  qed
qed

lemma threads_run_ok:
  assumes "threads_ok th"
  shows "threads_ok (threads_run A th ms) \<and> bsteps A (th_broker th) (th_broker (threads_run A th ms)) \<and>
    pubsub_of (th_broker (threads_run A th ms)) = foldl effect_step (pubsub_of (th_broker th)) (effects A th ms) \<and>
    sends_to r (th_broker (threads_run A th ms)) = sends_to r (th_broker th) @ stream r (pubsub_of (th_broker th)) (effects A th ms)"
  using assms
proof (induction ms arbitrary: th)
  case (Cons m ms)
  note first = thread_step_ok [OF Cons.prems, of A m] and rest = Cons.IH [of "thread_step A th m"]
  have "bsteps A (th_broker th) (th_broker (threads_run A (thread_step A th m) ms))"
    using first rest rtranclp_trans by metis
  with first rest show ?case by (auto simp: stream_append)
qed simp

section \<open>Properties\<close>

text \<open>
  (C5) However the steps of the session threads interleave, with whatever requests, whatever is done to the registry of keys
  and whatever LMDB calls fail: the broker stays within its reachable states, so that all its invariants hold between any two
  steps; its connections and subscriptions are those of the abstract machine after the effects so far; and what each
  connection was sent is, call by call, what these effects prescribe, each message once per matching subscription at
  the moment of the publish. All clients therefore see messages in one common order.
\<close>

theorem interleaving_refines:
  "reachable (amb_lmdb A) (amb_order A) (amb_latency A) e (th_broker (threads_run A (threads_start (amb_lmdb A) e keys) ms)) \<and>
   pubsub_of (th_broker (threads_run A (threads_start (amb_lmdb A) e keys) ms)) =
     foldl effect_step pubsub_init (effects A (threads_start (amb_lmdb A) e keys) ms) \<and>
   sends_to r (th_broker (threads_run A (threads_start (amb_lmdb A) e keys) ms)) =
     stream r pubsub_init (effects A (threads_start (amb_lmdb A) e keys) ms)"
proof -
  let ?start = "threads_start (amb_lmdb A) e keys"
  have "th_broker ?start = broker_new (amb_lmdb A) e" by (simp add: threads_start_def server_start_def)
  moreover from this have "pubsub_of (th_broker ?start) = pubsub_init" "sends_to r (th_broker ?start) = []"
    by (simp_all add: pubsub_of_def pubsub_init_def broker_new_def subscribers_def sends_to_def)
  ultimately show ?thesis
    using threads_run_ok [OF threads_ok_start [of "amb_lmdb A" e keys], of A ms r] by (simp add: reachable_def)
qed

end
