(* ===== verification/Linearization.thy ===== *)
theory Linearization
  imports Threads
begin

text \<open>
  What interleaving single steps can and cannot change. Each request has one step at which it takes effect for the
  other clients. Listing the requests in the order of these steps gives a history of whole requests, and the lemmas
  show that the machine of \<open>Server\<close>, which handles one request at a time, has the same subscriptions after this history,
  delivers the same messages in the same order and gives the same replies: only the place of a client's own
  replies among the messages it receives is open. The last section shows where this ends: the handler of a signed
  publish asks the registry twice, and a key removed in between escapes its topic scope.
\<close>

section \<open>Messages and replies\<close>

text \<open>The output of the abstract machine, split into what is forwarded and what is answered.\<close>

definition frame_message :: "(BinaryFrame \<Rightarrow> verdict) \<Rightarrow> uint64 \<Rightarrow> BinaryFrame \<Rightarrow> BinaryFrame option" where
  "frame_message J n f =
     (case frame_command f of
        CMD_PUBLISH \<Rightarrow>
          if starts_with (frame_topic f) ''secure/'' then None else Some (message_frame (frame_topic f) (frame_payload f) n)
      | CMD_SIGNED_PUBLISH \<Rightarrow>
          if J f = Granted
          then Some (signed_message_frame (frame_topic f) (frame_payload f) (frame_signature f) (frame_key_id f) n) else None
      | _ \<Rightarrow> None)"

definition frame_reply :: "(BinaryFrame \<Rightarrow> verdict) \<Rightarrow> BinaryFrame \<Rightarrow> BinaryFrame list" where
  "frame_reply J f =
     (let t = frame_topic f; ack = [ack_frame (frame_sequence f)]
      in case frame_command f of
           CMD_SUBSCRIBE \<Rightarrow> ack
         | CMD_UNSUBSCRIBE \<Rightarrow> ack
         | CMD_PUBLISH \<Rightarrow> if starts_with t ''secure/'' then [error_frame (secure_topic_error t)] else ack
         | CMD_SIGNED_PUBLISH \<Rightarrow>
             (case J f of
                Rejected \<Rightarrow> [error_frame ''Invalid signature or unknown key'']
              | Forbidden \<Rightarrow> [error_frame (''Key not authorized for topic '' @ [CHR 0x27] @ t @ [CHR 0x27])]
              | Granted \<Rightarrow> ack)
         | CMD_PING \<Rightarrow> [pong_frame]
         | CMD_ACK \<Rightarrow> []
         | CMD_SIGNED_MESSAGE \<Rightarrow> []
         | _ \<Rightarrow> [error_frame ''Unknown command''])"

definition event_messages :: "(BinaryFrame \<Rightarrow> verdict) \<Rightarrow> pubsub \<Rightarrow> (session_id \<Rightarrow> uint64) \<Rightarrow> session_id \<times> input \<Rightarrow> session_id \<Rightarrow> packet list" where
  "event_messages J p n ev r =
     (case ev of
        (i, Frame f) \<Rightarrow>
          (case frame_message J (n i + 1) f of
             Some m \<Rightarrow> if i \<in> live p then replicate (matches p r (frame_topic f)) (Bin m) else []
           | None \<Rightarrow> [])
      | (i, Command v) \<Rightarrow>
          (case text_publish v of
             Some (t, x) \<Rightarrow> if i \<in> live p then replicate (matches p r (asString t)) (Txt (text_message t x)) else []
           | None \<Rightarrow> [])
      | _ \<Rightarrow> [])"

definition input_reply :: "(BinaryFrame \<Rightarrow> verdict) \<Rightarrow> input \<Rightarrow> packet list" where
  "input_reply J inp = (case inp of Frame f \<Rightarrow> map Bin (frame_reply J f) | Command v \<Rightarrow> map Txt (command_reply v) | _ \<Rightarrow> [])"

definition event_replies :: "(BinaryFrame \<Rightarrow> verdict) \<Rightarrow> pubsub \<Rightarrow> session_id \<times> input \<Rightarrow> session_id \<Rightarrow> packet list" where
  "event_replies J p ev r = (if r = fst ev \<and> r \<in> live p then input_reply J (snd ev) else [])"

lemma pubsub_out_split: "pubsub_out J p n ev r = event_messages J p n ev r @ event_replies J p ev r"
proof (cases "snd ev")
  case (Frame f)
  then show ?thesis
    by (cases ev; cases "frame_command f")
      (auto simp: pubsub_out_def frame_out_def event_messages_def event_replies_def frame_message_def frame_reply_def
        input_reply_def Let_def split: verdict.split)
next
  case (Command v)
  then show ?thesis
    by (cases ev) (auto simp: pubsub_out_def command_out_def event_messages_def event_replies_def input_reply_def split: option.split)
qed (cases ev; simp add: pubsub_out_def event_messages_def event_replies_def input_reply_def)+

fun messages_for :: "(BinaryFrame \<Rightarrow> verdict) \<Rightarrow> session_id \<Rightarrow> pubsub \<Rightarrow> (session_id \<Rightarrow> uint64) \<Rightarrow> (session_id \<times> input) list \<Rightarrow> packet list" where
  "messages_for J r p n [] = []"
| "messages_for J r p n (ev # evs) = event_messages J p n ev r @ messages_for J r (pubsub_step p ev) (pubsub_count J p n ev) evs"

fun replies_for :: "(BinaryFrame \<Rightarrow> verdict) \<Rightarrow> session_id \<Rightarrow> pubsub \<Rightarrow> (session_id \<times> input) list \<Rightarrow> packet list" where
  "replies_for J r p [] = []"
| "replies_for J r p (ev # evs) = event_replies J p ev r @ replies_for J r (pubsub_step p ev) evs"

lemma shuffles_append: "xs \<in> shuffles a b \<Longrightarrow> ys \<in> shuffles c d \<Longrightarrow> xs @ ys \<in> shuffles (a @ c) (b @ d)"
proof (induction xs arbitrary: a b)
  case (Cons x xs)
  then consider "a \<noteq> []" "hd a = x" "xs \<in> shuffles (tl a) b" | "b \<noteq> []" "hd b = x" "xs \<in> shuffles a (tl b)"
    by (auto simp: Cons_in_shuffles_iff)
  then show ?case
    by cases (use Cons in \<open>auto simp: Cons_in_shuffles_iff\<close>)
qed simp

lemma shuffles_left: "ys \<in> shuffles c d \<Longrightarrow> xs @ ys \<in> shuffles (xs @ c) d"
  using shuffles_append [of xs xs "[]" ys c d] by simp

lemma append_in_shuffles: "xs @ ys \<in> shuffles xs ys"
  using shuffles_append [of xs xs "[]" ys "[]" ys] by simp

lemma packets_for_shuffle: "packets_for J r p n evs \<in> shuffles (messages_for J r p n evs) (replies_for J r p evs)"
  by (induction evs arbitrary: p n) (simp_all add: pubsub_out_split shuffles_append append_in_shuffles del: append_assoc)

text \<open>The same split of the effects of a schedule.\<close>

fun messages_in :: "session_id \<Rightarrow> pubsub \<Rightarrow> effect list \<Rightarrow> packet list" where
  "messages_in r p [] = []"
| "messages_in r p (Published i t m # es) = replicate (matches p r t) m @ messages_in r p es"
| "messages_in r p (e # es) = messages_in r (effect_step p e) es"

fun replies_in :: "session_id \<Rightarrow> effect list \<Rightarrow> packet list" where
  "replies_in r [] = []"
| "replies_in r (Replied i m # es) = (if r = i then m # replies_in r es else replies_in r es)"
| "replies_in r (e # es) = replies_in r es"

definition no_resend :: "effect list \<Rightarrow> bool" where
  "no_resend es \<longleftrightarrow> (\<forall>i d. Resent i d \<notin> set es)"

lemma stream_shuffle:
  "no_resend es \<Longrightarrow> stream r p es \<in> shuffles (map packet_bytes (messages_in r p es)) (map packet_bytes (replies_in r es))"
proof (induction es arbitrary: p)
  case (Cons e es)
  then have "stream r q es \<in> shuffles (map packet_bytes (messages_in r q es)) (map packet_bytes (replies_in r es))" for q
    by (simp add: no_resend_def)
  then show ?case
    using Cons.prems
    by (cases e) (auto simp: no_resend_def map_replicate intro: Cons_in_shuffles_rightI shuffles_left)
qed simp

section \<open>The order of the requests\<close>

text \<open>
  The steps at which a request takes effect: the change of the subscriptions, the publish, the removal of the
  session; for a signed publish that is refused, the look-up that refuses it.
\<close>

definition takes_effect :: "'r sodium \<Rightarrow> TrustedKeyStore \<Rightarrow> action \<Rightarrow> bool" where
  "takes_effect S keys a =
     (case a of
        Do_subscribe t \<Rightarrow> True
      | Do_unsubscribe t \<Rightarrow> True
      | Do_publish f \<Rightarrow> True
      | Do_signed_publish f \<Rightarrow> True
      | Do_text_publish t x \<Rightarrow> True
      | Do_remove \<Rightarrow> True
      | Do_verify f \<Rightarrow>
          (case get_key keys (frame_key_id f) of
             Some pk \<Rightarrow> \<not> verify S (signed_part f) (frame_signature f) pk
           | None \<Rightarrow> True)
      | Do_scope f \<Rightarrow> \<not> key_scope_ok (get_key_info keys (frame_key_id f)) (frame_topic f)
      | _ \<Rightarrow> False)"

text \<open>The steps of a handler that wait for that point.\<close>

fun decisive :: "action \<Rightarrow> bool" where
  "decisive (Do_subscribe t) = True"
| "decisive (Do_unsubscribe t) = True"
| "decisive (Do_publish f) = True"
| "decisive (Do_signed_publish f) = True"
| "decisive (Do_text_publish t x) = True"
| "decisive (Do_verify f) = True"
| "decisive (Do_scope f) = True"
| "decisive Do_remove = True"
| "decisive _ = False"

definition undecided :: "action list \<Rightarrow> bool" where
  "undecided as = list_ex decisive as"

definition decided_at :: "('e, 't, 'r) ambient \<Rightarrow> 'e threads \<Rightarrow> session_id \<times> move \<Rightarrow> (session_id \<times> input) list" where
  "decided_at A th m =
     (case m of
        (i, Arrive (Connect now)) \<Rightarrow> if i \<in> set (b_sessions (th_broker th)) then [] else [(i, Connect now)]
      | (i, Arrive Shutdown) \<Rightarrow> [(i, Shutdown)]
      | (i, Arrive inp) \<Rightarrow> if idle th i \<and> \<not> undecided (input_actions (th_session th i) inp) then [(i, inp)] else []
      | (i, Proceed) \<Rightarrow>
          (case th_todo th i of
             a # as \<Rightarrow> if takes_effect (amb_sodium A) (sys_keys (sv_sys (th_server th))) a then [(i, th_request th i)] else []
           | [] \<Rightarrow> [])
      | (i, Registry op) \<Rightarrow> [])"

fun linearization :: "('e, 't, 'r) ambient \<Rightarrow> 'e threads \<Rightarrow> (session_id \<times> move) list \<Rightarrow> (session_id \<times> input) list" where
  "linearization A th [] = []"
| "linearization A th (m # ms) = decided_at A th m @ linearization A (thread_step A th m) ms"

text \<open>The requests taken up, in the order in which they were.\<close>

definition taken_at :: "'e threads \<Rightarrow> session_id \<times> move \<Rightarrow> (session_id \<times> input) list" where
  "taken_at th m =
     (case m of
        (i, Arrive (Connect now)) \<Rightarrow> if i \<in> set (b_sessions (th_broker th)) then [] else [(i, Connect now)]
      | (i, Arrive Shutdown) \<Rightarrow> [(i, Shutdown)]
      | (i, Arrive inp) \<Rightarrow> if idle th i then [(i, inp)] else []
      | _ \<Rightarrow> [])"

fun taken :: "('e, 't, 'r) ambient \<Rightarrow> 'e threads \<Rightarrow> (session_id \<times> move) list \<Rightarrow> (session_id \<times> input) list" where
  "taken A th [] = []"
| "taken A th (m # ms) = taken_at th m @ taken A (thread_step A th m) ms"

text \<open>The requests of one connection; the shutdown request belongs to none.\<close>

definition requests_of :: "session_id \<Rightarrow> (session_id \<times> input) list \<Rightarrow> (session_id \<times> input) list" where
  "requests_of r evs = filter (\<lambda>x. fst x = r \<and> snd x \<noteq> Shutdown) evs"

lemma requests_of_simps [simp]:
  "requests_of r [] = []" "requests_of r (evs @ evs') = requests_of r evs @ requests_of r evs'"
  "requests_of r [(i, inp)] = (if i = r \<and> inp \<noteq> Shutdown then [(i, inp)] else [])"
  by (simp_all add: requests_of_def)

text \<open>The replies that a thread still owes for a request that has taken effect.\<close>

fun replies_of :: "action list \<Rightarrow> packet list" where
  "replies_of [] = []"
| "replies_of (Do_reply r # as) = r # replies_of as"
| "replies_of (a # as) = replies_of as"

definition due :: "'e threads \<Rightarrow> session_id \<Rightarrow> packet list" where
  "due th i = (if undecided (th_todo th i) then [] else replies_of (th_todo th i))"

text \<open>The schedules covered: text subscriptions name at most one topic, and the registry is left alone.\<close>

definition single_request :: "input \<Rightarrow> bool" where
  "single_request inp =
     (case inp of
        Command v \<Rightarrow>
          (case asArray v of
             c # t # u # args \<Rightarrow> map toupper (asString c) \<noteq> ''SUBSCRIBE'' \<and> map toupper (asString c) \<noteq> ''UNSUBSCRIBE''
           | _ \<Rightarrow> True)
      | _ \<Rightarrow> True)"

definition quiet_move :: "move \<Rightarrow> bool" where
  "quiet_move mv = (case mv of Arrive inp \<Rightarrow> quiet_event inp \<and> single_request inp | Proceed \<Rightarrow> True | Registry op \<Rightarrow> False)"

section \<open>Quiet steps\<close>

text \<open>Steps that find nothing to replay and publish only topics without NUL bytes.\<close>

fun quiet_action :: "action \<Rightarrow> bool" where
  "quiet_action (Do_replay t) = quiet_topic t"
| "quiet_action (Do_last_ack t c) = quiet_topic t"
| "quiet_action (Do_load t c n) = quiet_topic t"
| "quiet_action (Do_resend d) = False"
| "quiet_action (Do_resend_unacked c n d) = False"
| "quiet_action (Do_publish f) = (CHR 0x00 \<notin> set (frame_topic f))"
| "quiet_action (Do_signed_publish f) = (CHR 0x00 \<notin> set (frame_topic f))"
| "quiet_action (Do_text_publish t x) = (CHR 0x00 \<notin> set (asString t))"
| "quiet_action (Do_verify f) = (CHR 0x00 \<notin> set (frame_topic f))"
| "quiet_action (Do_scope f) = (CHR 0x00 \<notin> set (frame_topic f))"
| "quiet_action _ = True"

lemma quiet_actions:
  assumes "quiet_event inp"
  shows "list_all quiet_action (input_actions ses inp)"
proof -
  have sub: "list_all quiet_action (subscribe_actions i vs)" if "list_all (\<lambda>w. quiet_topic (asString w)) vs" for i vs
    using that by (induction vs arbitrary: i) simp_all
  have unsub: "list_all quiet_action (unsubscribe_actions vs)" for vs
    by (simp add: unsubscribe_actions_def list_all_iff)
  have part: "quiet_topic (drop k t)" if "quiet_topic t" for k t
    using that set_drop_subset [of k t] by (auto simp: quiet_topic_def)
  show ?thesis
  proof (cases inp)
    case (Frame f)
    then show ?thesis
      using assms part
      by (cases "frame_command f")
        (auto simp: input_actions_def frame_actions_def quiet_event_def nul_free_topics_def Let_def split: option.split)
  next
    case (Command v)
    then show ?thesis
      using assms sub unsub
      by (auto simp: input_actions_def command_actions_def quiet_event_def nul_free_topics_def Let_def split: list.splits)
  qed (simp_all add: input_actions_def cleanup_actions_def)
qed

context lmdb_engine
begin

lemma exec_quiet:
  assumes "amb_lmdb A = L" and "store_sat (\<lambda>e. wire_store (eview e)) (sys_broker sys)" and "quiet_action a"
    and "exec A a (ses, sys) = ((ses', sys'), r)"
  shows "store_sat (\<lambda>e. wire_store (eview e)) (sys_broker sys')" "\<exists>new. r = Inr new \<and> list_all quiet_action new"
proof -
  have pub: "store_sat (\<lambda>e. wire_store (eview e)) (fst (publish L lat (sys_broker sys) t (serialize f)))"
    if "CHR 0x00 \<notin> set t" "frame_version f = BINARY_PROTOCOL_VERSION" for lat t f
    using that assms(2) by (intro wire_store_publish wire_value_frame)
  have textual: "store_sat (\<lambda>e. wire_store (eview e)) (fst (publish L lat (sys_broker sys) (asString t) (resp_serialize (text_message t x))))"
    if "CHR 0x00 \<notin> set (asString t)" for lat t x
    unfolding text_message_def using that assms(2) by (intro wire_store_publish wire_value_array)
  have same: "store_sat (\<lambda>e. wire_store (eview e)) b" if "persistence b = persistence (sys_broker sys)" for b
    using assms(2) that by (simp add: store_sat_def)
  have acked: "store_sat (\<lambda>e. wire_store (eview e)) (handleAck L (sys_broker sys) c n)" for c n
    using assms(2) by (auto simp: store_sat_def wire_store_ops split: option.split)
  have version: "frame_version (next_message ses f) = BINARY_PROTOCOL_VERSION" "frame_version (next_signed_message ses f) = BINARY_PROTOCOL_VERSION" for f
    by (simp_all add: next_message_def next_signed_message_def frame_defs)
  show "store_sat (\<lambda>e. wire_store (eview e)) (sys_broker sys')"
    using assms(1,3,4) pub textual acked version
    by (cases a) (auto simp: with_broker_def simp del: resp_serialize.simps intro: same)
  have none: "\<exists>ms. load_range L e k m = Inr ms \<and> filter (\<lambda>(n, u, p). u = t) ms = []"
    if "quiet_topic t" "persistence (sys_broker sys) = Some e" for t e k m
    using loaded_topics [OF assms(2), of t e k m] that by (fastforce simp: quiet_topic_def filter_empty_conv)
  show "\<exists>new. r = Inr new \<and> list_all quiet_action new"
  proof (cases a)
    case (Do_replay t)
    then show ?thesis
      using assms none [of t _ 0 "0 + MAX_STORED_MESSAGES"] by (cases "persistence (sys_broker sys)") auto
  next
    case (Do_load t c n)
    then show ?thesis
      using assms none [of t _ "n + 1" "n + MAX_STORED_MESSAGES"] by (cases "persistence (sys_broker sys)") auto
  qed (use assms in \<open>auto split: option.split\<close>)
qed

end

section \<open>Requests and their steps\<close>

text \<open>The step by which a request takes effect when it is granted.\<close>

definition performs :: "(BinaryFrame \<Rightarrow> verdict) \<Rightarrow> input \<Rightarrow> action \<Rightarrow> bool" where
  "performs J inp a =
     (case inp of
        Frame f \<Rightarrow>
          (frame_command f = CMD_SUBSCRIBE \<and> a = Do_subscribe (subscribe_target (frame_topic f))) \<or>
          (frame_command f = CMD_UNSUBSCRIBE \<and> a = Do_unsubscribe (frame_topic f)) \<or>
          (frame_command f = CMD_PUBLISH \<and> \<not> starts_with (frame_topic f) ''secure/'' \<and> a = Do_publish f) \<or>
          (frame_command f = CMD_SIGNED_PUBLISH \<and> J f = Granted \<and> a = Do_signed_publish f)
      | Command v \<Rightarrow>
          isArray v \<and>
          (\<exists>c t. (asArray v = [c, t] \<and> map toupper (asString c) = ''SUBSCRIBE'' \<and> a = Do_subscribe (asString t)) \<or>
                 (asArray v = [c, t] \<and> map toupper (asString c) = ''UNSUBSCRIBE'' \<and> a = Do_unsubscribe (asString t)) \<or>
                 (\<exists>x. text_publish v = Some (t, x) \<and> a = Do_text_publish t x))
      | Disconnect \<Rightarrow> a = Do_remove
      | _ \<Rightarrow> False)"

fun preparing :: "action \<Rightarrow> bool" where
  "preparing (Do_register c) = True"
| "preparing (Do_unregister c) = True"
| "preparing _ = False"

inductive awaiting :: "(BinaryFrame \<Rightarrow> verdict) \<Rightarrow> input \<Rightarrow> action list \<Rightarrow> bool" for J where
  await_effect: "list_all preparing pre \<Longrightarrow> performs J inp a \<Longrightarrow> replies_of post = input_reply J inp \<Longrightarrow> \<not> undecided post \<Longrightarrow>
    awaiting J inp (pre @ a # post)"
| await_verify: "frame_command f = CMD_SIGNED_PUBLISH \<Longrightarrow> awaiting J (Frame f) [Do_verify f]"
| await_touch: "frame_command f = CMD_SIGNED_PUBLISH \<Longrightarrow> J f \<noteq> Rejected \<Longrightarrow> awaiting J (Frame f) [Do_touch f, Do_scope f]"
| await_scope: "frame_command f = CMD_SIGNED_PUBLISH \<Longrightarrow> J f \<noteq> Rejected \<Longrightarrow> awaiting J (Frame f) [Do_scope f]"

lemma undecided_simps [simp]: "\<not> undecided []" "undecided (a # as) = (decisive a \<or> undecided as)"
  by (simp_all add: undecided_def)

lemma preparing_no_effect: "preparing a \<Longrightarrow> \<not> takes_effect S keys a"
  by (cases a) (simp_all add: takes_effect_def)

lemma awaiting_request: "awaiting J inp as \<Longrightarrow> inp \<noteq> Shutdown"
  by (erule awaiting.cases) (auto simp: performs_def)

lemma takes_effect_decisive: "takes_effect S keys a \<Longrightarrow> decisive a"
  by (cases a) (simp_all add: takes_effect_def)

lemma performs_decisive: "performs J inp a \<Longrightarrow> decisive a"
  by (auto simp: performs_def split: input.splits)

text \<open>A request without a decisive step changes nothing and forwards nothing.\<close>

definition silent :: "(BinaryFrame \<Rightarrow> verdict) \<Rightarrow> input \<Rightarrow> bool" where
  "silent J inp \<longleftrightarrow> (\<forall>i p n r. pubsub_step p (i, inp) = p \<and> event_messages J p n (i, inp) r = [] \<and> pubsub_count J p n (i, inp) = n)"

lemma awaitingI:
  "as = pre @ a # post \<Longrightarrow> list_all preparing pre \<Longrightarrow> performs J inp a \<Longrightarrow> replies_of post = input_reply J inp \<Longrightarrow>
     \<not> undecided post \<Longrightarrow> awaiting J inp as"
  by (simp add: await_effect)

lemma frame_request:
  "if undecided (frame_actions ses f) then awaiting J (Frame f) (frame_actions ses f)
   else silent J (Frame f) \<and> replies_of (frame_actions ses f) = input_reply J (Frame f)"
proof (cases "frame_command f")
  case CMD_SUBSCRIBE
  show ?thesis
  proof (cases "str_find CHR 0x00 (frame_topic f)")
    case None
    with CMD_SUBSCRIBE show ?thesis
      by (auto simp: frame_actions_def performs_def subscribe_target_def input_reply_def frame_reply_def Let_def
          intro!: awaitingI [where pre = "[]"])
  next
    case (Some k)
    let ?c = "take k (frame_topic f)" and ?t = "drop (k + 1) (frame_topic f)"
    have "frame_actions ses f = [Do_register ?c] @ Do_subscribe ?t # [Do_replay ?t, Do_last_ack ?t ?c, Do_reply (Bin (ack_frame (frame_sequence f)))]"
      using CMD_SUBSCRIBE Some by (simp add: frame_actions_def Let_def)
    then have "awaiting J (Frame f) (frame_actions ses f)"
      by (rule awaitingI) (use CMD_SUBSCRIBE Some in \<open>simp_all add: performs_def subscribe_target_def input_reply_def frame_reply_def\<close>)
    then show ?thesis using CMD_SUBSCRIBE Some by (simp add: frame_actions_def Let_def)
  qed
next
  case CMD_SIGNED_PUBLISH
  then show ?thesis by (simp add: frame_actions_def await_verify)
qed (auto simp: frame_actions_def performs_def input_reply_def frame_reply_def silent_def pubsub_step_def pubsub_frame_def
    event_messages_def frame_message_def pubsub_count_def numbers_def Let_def intro!: awaitingI [where pre = "[]"])

lemma command_request:
  assumes "single_request (Command v)"
  shows "if undecided (command_actions ses v) then awaiting J (Command v) (command_actions ses v)
    else silent J (Command v) \<and> replies_of (command_actions ses v) = input_reply J (Command v)"
proof -
  have silent: "silent J (Command v)" if "\<And>i p. pubsub_command i v p = p" "text_publish v = None"
    using that by (simp add: silent_def pubsub_step_def event_messages_def pubsub_count_def)
  show ?thesis
  proof (cases "asArray v")
    case Nil
    then show ?thesis
      by (auto simp: command_actions_def input_reply_def command_reply_def pubsub_command_def text_publish_def intro!: silent)
  next
    case (Cons c args)
    show ?thesis
    proof (cases "isArray v")
      case False
      with Cons show ?thesis
        by (auto simp: command_actions_def input_reply_def command_reply_def pubsub_command_def text_publish_def Let_def
            intro!: silent split: list.split)
    next
      case True
      define cmd where "cmd = map toupper (asString c)"
      note unf = command_actions_def input_reply_def command_reply_def pubsub_command_def text_publish_def performs_def
        unsubscribe_actions_def Cons cmd_def [symmetric] Let_def True
      show ?thesis
      proof (cases "cmd = ''SUBSCRIBE'' \<or> cmd = ''UNSUBSCRIBE''")
        case sub: True
        show ?thesis
        proof (cases args)
          case Nil
          with sub show ?thesis by (elim disjE) (simp_all add: unf silent)
        next
          case args: (Cons t rest)
          have "rest = []" using assms sub by (cases rest) (auto simp: single_request_def Cons args cmd_def [symmetric])
          with sub args show ?thesis by (elim disjE) (simp_all add: unf awaitingI [where pre = "[]"])
        qed
      next
        case other: False
        have silent': "silent J (Command v)" if "text_publish v = None"
          using other that by (intro silent) (auto simp: pubsub_command_def Cons cmd_def [symmetric] Let_def)
        show ?thesis
        proof (cases "text_publish v")
          case (Some tx)
          then obtain t x where pub: "cmd = ''PUBLISH''" "args = [t, x]" "tx = (t, x)"
            by (auto simp: text_publish_def Cons cmd_def split: list.splits if_splits)
          then have as: "command_actions ses v = [Do_text_publish t x, Do_reply (Txt (RInteger 1))]"
              "input_reply J (Command v) = [Txt (RInteger 1)]"
            by (simp_all add: unf)
          have "performs J (Command v) (Do_text_publish t x)" using Some pub(3) True by (simp add: performs_def)
          then have "awaiting J (Command v) (command_actions ses v)" by (rule awaitingI [where pre = "[]", rotated 2]) (simp_all add: as)
          then show ?thesis by (simp add: as)
        next
          case None
          have "\<not> undecided (command_actions ses v) \<and> replies_of (command_actions ses v) = input_reply J (Command v)"
          proof -
            consider "args = []" | x where "args = [x]" | x y where "args = [x, y]" | x y z zs where "args = x # y # z # zs"
              by (cases args rule: remdups_adj.cases; cases "tl (tl args)") auto
            then show ?thesis by cases (use other None in \<open>simp_all add: unf split: if_splits\<close>)
          qed
          with silent' [OF None] show ?thesis by simp
        qed
      qed
    qed
  qed
qed

lemma input_request:
  assumes "single_request inp" and "inp \<noteq> Shutdown" and "\<And>now. inp \<noteq> Connect now"
  shows "if undecided (input_actions ses inp) then awaiting J inp (input_actions ses inp)
    else silent J inp \<and> replies_of (input_actions ses inp) = input_reply J inp"
proof (cases inp)
  case (Frame f)
  then show ?thesis using frame_request [of ses f J] by (simp add: input_actions_def)
next
  case (Command v)
  then show ?thesis using command_request [of v ses J] assms(1) by (simp add: input_actions_def)
next
  case Disconnect
  have "awaiting J Disconnect (cleanup_actions ses)"
    unfolding cleanup_actions_def by (rule awaitingI [OF refl]) (simp_all add: performs_def input_reply_def)
  moreover have "undecided (cleanup_actions ses)" by (simp add: cleanup_actions_def)
  ultimately show ?thesis using Disconnect by (simp add: input_actions_def)
qed (use assms in simp_all)

text \<open>What the registry answers, in the terms of the verdict.\<close>

lemma verify_verdict:
  "(case get_key keys (frame_key_id f) of Some pk \<Rightarrow> verify S (signed_part f) (frame_signature f) pk | None \<Rightarrow> False) \<longleftrightarrow>
     signed_verdict S keys f \<noteq> Rejected"
  by (auto simp: signed_verdict_def get_key_def signed_part_def split: option.split)

lemma scope_verdict:
  "signed_verdict S keys f \<noteq> Rejected \<Longrightarrow>
     key_scope_ok (get_key_info keys (frame_key_id f)) (frame_topic f) \<longleftrightarrow> signed_verdict S keys f = Granted"
  by (auto simp: signed_verdict_def get_key_info_def split: option.splits if_splits)

lemma trust_touch: "trust (touch now keys k) = trust keys"
  by (rule ext) (auto simp: trust_def touch_def alist_simps split: option.split)

lemma exec_trust: "exec A a (ses, sys) = ((ses', sys'), r) \<Longrightarrow> trust (sys_keys sys') = trust (sys_keys sys)"
  by (cases a) (auto simp: trust_touch)

section \<open>One step\<close>

text \<open>The step at which a request takes effect does what the machine does for the whole request, up to the reply.\<close>

lemma decisive_step:
  assumes "awaiting J inp (a # as)" and "takes_effect (amb_sodium A) (sys_keys sys) a" and "exec A a (ses, sys) = ((ses', sys'), Inr new)"
    and "J = signed_verdict (amb_sodium A) (sys_keys sys)" and "ses_id ses = i" and "i \<in> live p" and "n i = ses_sequence ses"
  shows "foldl effect_step p (action_effects ses a) = pubsub_step p (i, inp) \<and>
    messages_in r p (action_effects ses a) = event_messages J p n (i, inp) r \<and> replies_in r (action_effects ses a) = [] \<and>
    pubsub_count J p n (i, inp) = n(i := ses_sequence ses') \<and> \<not> undecided (new @ as) \<and> replies_of (new @ as) = input_reply J inp"
proof -
  have refused: ?thesis
    if "inp = Frame f" "frame_command f = CMD_SIGNED_PUBLISH" "J f \<noteq> Granted" "as = []" "action_effects ses a = []" "ses' = ses"
      "new = map (\<lambda>g. Do_reply (Bin g)) (frame_reply J f)" for f
  proof -
    have "replies_of (map (\<lambda>g. Do_reply (Bin g)) gs) = map Bin gs" "\<not> undecided (map (\<lambda>g. Do_reply (Bin g)) gs)" for gs
      by (induction gs) simp_all
    with that assms(7) show ?thesis
      by (simp add: pubsub_step_def pubsub_frame_def event_messages_def frame_message_def pubsub_count_def numbers_def
          input_reply_def fun_upd_idem)
  qed
  from assms(1) show ?thesis
  proof (cases rule: awaiting.cases)
    case s: (await_effect pre b post)
    have "pre = []"
    proof (cases pre)
      case (Cons x xs)
      then have "preparing a" using s(1,2) by simp
      with assms(2) show ?thesis by (simp add: preparing_no_effect)
    qed
    then have p: "performs J inp a" "as = post" using s(1,3) by simp_all
    show ?thesis
    proof (cases inp)
      case (Frame f)
      note defs = pubsub_step_def pubsub_frame_def event_messages_def frame_message_def pubsub_count_def numbers_def
        next_message_def next_signed_message_def fun_upd_idem
      from p(1) show ?thesis
        unfolding performs_def Frame input.case
        by (elim disjE conjE) (use p(2) s(4,5) Frame assms(3,5-7) in \<open>simp_all add: defs, auto simp: fun_upd_idem\<close>)
    next
      case (Command v)
      have same: "n(ses_id ses := ses_sequence ses) = n" using assms(5,7) by (simp add: fun_upd_idem)
      note defs = pubsub_step_def pubsub_command_def event_messages_def pubsub_count_def text_publish_def Let_def
      from p(1) show ?thesis
        unfolding performs_def Command input.case
        by (elim conjE exE disjE)
          (use p(2) s(4,5) Command assms(3,5-6) same in \<open>auto simp: defs split: list.splits if_splits\<close>)
    next
      case Disconnect
      with p s(4,5) assms(3,5-7) show ?thesis
        by (auto simp: performs_def pubsub_step_def event_messages_def pubsub_count_def input_reply_def fun_upd_idem)
    qed (use p in \<open>simp_all add: performs_def\<close>)
  next
    case (await_verify f)
    with refused [of f] verify_verdict [of "amb_sodium A" f "sys_keys sys"] assms(2-4) show ?thesis
      by (auto simp: takes_effect_def frame_reply_def split: option.splits)
  next
    case (await_touch f)
    with assms(2) show ?thesis by (simp add: takes_effect_def)
  next
    case (await_scope f)
    then have J: "J f = Forbidden"
      using scope_verdict [of "amb_sodium A" "sys_keys sys" f] assms(2,4) by (cases "J f") (simp_all add: takes_effect_def)
    have "new = map (\<lambda>g. Do_reply (Bin g)) (frame_reply J f)" "ses' = ses"
      using await_scope J assms(2,3) by (auto simp: takes_effect_def frame_reply_def)
    with refused [of f] await_scope J show ?thesis by simp
  qed
qed

text \<open>Any other step is silent, or the reply of a request that has taken effect.\<close>

lemma waiting_step:
  assumes "awaiting J inp (a # as)" and "\<not> takes_effect (amb_sodium A) (sys_keys sys) a" and "exec A a (ses, sys) = ((ses', sys'), Inr new)"
    and "J = signed_verdict (amb_sodium A) (sys_keys sys)"
  shows "action_effects ses a = [] \<and> ses_sequence ses' = ses_sequence ses \<and> awaiting J inp (new @ as) \<and> undecided (new @ as)"
  using assms(1)
proof (cases rule: awaiting.cases)
  case s: (await_effect pre b post)
  have "takes_effect (amb_sodium A) (sys_keys sys) b" using s(3) by (auto simp: performs_def takes_effect_def split: input.splits)
  moreover have "hd (pre @ b # post) = a" using s(1) by (metis list.sel(1))
  ultimately have "pre \<noteq> []" using assms(2) by (cases pre) simp_all
  then obtain pre' where pre: "pre = a # pre'" using s(1) by (cases pre) simp_all
  have p: "as = pre' @ b # post" "preparing a" "list_all preparing pre'" using s(1,2) unfolding pre by simp_all
  have "awaiting J inp as" by (rule awaitingI [OF p(1,3) s(3-5)])
  moreover have "undecided as" using performs_decisive [OF s(3)] p(1) by (simp add: undecided_def)
  ultimately show ?thesis using assms(3) p(2) by (cases a) auto
next
  case (await_verify f)
  with verify_verdict [of "amb_sodium A" f "sys_keys sys"] assms(2-4) show ?thesis
    by (auto simp: takes_effect_def intro: await_touch split: option.splits)
next
  case (await_touch f)
  with assms(3) show ?thesis by (auto intro: await_scope)
next
  case (await_scope f)
  with scope_verdict [of "amb_sodium A" "sys_keys sys" f] assms(2,4) have "J f = Granted" by (simp add: takes_effect_def)
  moreover have "new = [Do_signed_publish f, Do_reply (Bin (ack_frame (frame_sequence f)))]" "ses' = ses"
    using await_scope assms(2,3) by (auto simp: takes_effect_def)
  ultimately show ?thesis
    using await_scope by (auto simp: performs_def input_reply_def frame_reply_def intro!: awaitingI [where pre = "[]"])
qed

lemma settled_step:
  assumes "\<not> undecided (a # as)" and "exec A a (ses, sys) = ((ses', sys'), Inr new)" and "list_all quiet_action new" and "quiet_action a"
  shows "\<not> takes_effect S keys a \<and> foldl effect_step p (action_effects ses a) = p \<and> messages_in r p (action_effects ses a) = [] \<and>
    ses_sequence ses' = ses_sequence ses \<and> \<not> undecided (new @ as) \<and>
    (if r = ses_id ses then replies_of (a # as) = replies_in r (action_effects ses a) @ replies_of (new @ as)
     else replies_in r (action_effects ses a) = [])"
proof -
  have "new = [] \<or> (\<exists>t c n. new = [Do_load t c n])"
    using assms by (cases a) (auto simp: list_all_iff filter_empty_conv split: option.splits sum.splits, metis+)
  with assms show ?thesis by (cases a) (auto simp: takes_effect_def)
qed

section \<open>Every schedule\<close>

text \<open>What holds between two moves; \<open>J\<close> is the verdict of the registry, which no step changes.\<close>

definition linear_inv :: "('e \<Rightarrow> (bytes \<rightharpoonup> bytes)) \<Rightarrow> 'r sodium \<Rightarrow> (BinaryFrame \<Rightarrow> verdict) \<Rightarrow> 'e threads \<Rightarrow> bool" where
  "linear_inv view S J th \<longleftrightarrow> threads_ok th \<and> store_sat (\<lambda>e. wire_store (view e)) (th_broker th) \<and>
     signed_verdict S (sys_keys (sv_sys (th_server th))) = J \<and>
     (\<forall>i. list_all quiet_action (th_todo th i) \<and>
        (undecided (th_todo th i) \<longrightarrow> awaiting J (th_request th i) (th_todo th i) \<and> quiet_event (th_request th i)))"

definition counters :: "'e threads \<Rightarrow> session_id \<Rightarrow> uint64" where
  "counters th i = ses_sequence (th_session th i)"

definition pending :: "'e threads \<Rightarrow> session_id \<Rightarrow> (session_id \<times> input) list" where
  "pending th i = (if undecided (th_todo th i) then [(i, th_request th i)] else [])"

text \<open>One move against the requests that it decides.\<close>

definition follows :: "(BinaryFrame \<Rightarrow> verdict) \<Rightarrow> 'e threads \<Rightarrow> effect list \<Rightarrow> (session_id \<times> input) list \<Rightarrow> (session_id \<times> input) list \<Rightarrow> 'e threads \<Rightarrow> bool" where
  "follows J th es evs new th' \<longleftrightarrow>
     (let p = pubsub_of (th_broker th)
      in foldl effect_step p es = foldl pubsub_step p evs \<and>
         counters th' = snd (foldl (\<lambda>(p, n) ev. (pubsub_step p ev, pubsub_count J p n ev)) (p, counters th) evs) \<and>
         (\<forall>r. messages_in r p es = messages_for J r p (counters th) evs \<and>
              due th r @ replies_for J r p evs = replies_in r es @ due th' r \<and>
              pending th r @ requests_of r new = requests_of r evs @ pending th' r) \<and>
         no_resend es \<and> (\<forall>ev \<in> set evs. quiet_event (snd ev)))"

context lmdb_engine
begin

lemma proceed_follows:
  assumes "amb_lmdb A = L" and "linear_inv eview (amb_sodium A) J th" and "th_todo th i = a # as"
  shows "linear_inv eview (amb_sodium A) J (proceed A i th) \<and>
    follows J th (move_effects th (i, Proceed)) (decided_at A th (i, Proceed)) [] (proceed A i th)"
proof -
  let ?sys = "sv_sys (th_server th)" and ?ses = "th_session th i" and ?p = "pubsub_of (th_broker th)"
  have ok: "threads_ok th" "store_sat (\<lambda>e. wire_store (eview e)) (th_broker th)" "J = signed_verdict (amb_sodium A) (sys_keys ?sys)"
    using assms(2) by (simp_all add: linear_inv_def)
  have q: "list_all quiet_action (a # as)" and w: "undecided (a # as) \<Longrightarrow> awaiting J (th_request th i) (a # as) \<and> quiet_event (th_request th i)"
    using assms(2,3) unfolding linear_inv_def by metis+
  obtain ses sys r where e: "exec A a (?ses, ?sys) = ((ses, sys), r)" by (metis surj_pair)
  obtain new where r: "r = Inr new" "list_all quiet_action new"
    using exec_quiet(2) [OF assms(1) ok(2) _ e] q by auto
  note e = e [unfolded r(1)]
  note th' = proceed_eq [OF assms(3) e] and ok' = proceed_ok(1) [OF ok(1) assms(3) e]
  have live: "ses_id ?ses = i" "i \<in> live ?p" using ok(1) assms(3) by (auto simp: threads_ok_def sessions_ok_def pubsub_of_def)
  have J': "signed_verdict (amb_sodium A) (sys_keys sys) = J"
    using exec_trust [OF e] by (simp add: ok(3) signed_verdict_trust [abs_def] fun_eq_iff)
  have store: "store_sat (\<lambda>e. wire_store (eview e)) (sys_broker sys)" using exec_quiet(1) [OF assms(1) ok(2) _ e] q by simp
  have quiet: "list_all quiet_action (new @ as)" using q r(2) by simp
  have cnt: "counters (proceed A i th) = (counters th)(i := ses_sequence ses)" by (auto simp: counters_def th'(2))
  have due': "due (proceed A i th) s = (if s = i then (if undecided (new @ as) then [] else replies_of (new @ as)) else due th s)"
    "pending (proceed A i th) s = (if s = i then (if undecided (new @ as) then [(i, th_request th i)] else []) else pending th s)" for s
    by (simp_all add: due_def pending_def th'(3,5))
  have now: "due th i = (if undecided (a # as) then [] else replies_of (a # as))"
    "pending th i = (if undecided (a # as) then [(i, th_request th i)] else [])"
    by (simp_all add: due_def pending_def assms(3))
  have effs: "move_effects th (i, Proceed) = action_effects ?ses a" by (simp add: move_effects_def assms(3))
  have none: "no_resend (action_effects ?ses a)" using q by (cases a) (auto simp: no_resend_def)
  show ?thesis
  proof (cases "takes_effect (amb_sodium A) (sys_keys ?sys) a")
    case True
    then have und: "undecided (a # as)" by (simp add: takes_effect_decisive)
    note d = decisive_step [OF conjunct1 [OF w [OF und]] True e ok(3) live(1) live(2), of "counters th"]
    have evs: "decided_at A th (i, Proceed) = [(i, th_request th i)]" using True by (simp add: decided_at_def assms(3))
    have "follows J th (action_effects ?ses a) [(i, th_request th i)] [] (proceed A i th)"
      using d w [OF und] none live(2) und awaiting_request [OF conjunct1 [OF w [OF und]]]
      by (auto simp: follows_def cnt due' counters_def now event_replies_def Let_def)
    moreover have "linear_inv eview (amb_sodium A) J (proceed A i th)"
      using assms(2) ok' store J' quiet d unfolding linear_inv_def th' by (auto simp: counters_def)
    ultimately show ?thesis by (simp add: evs effs)
  next
    case False
    have evs: "decided_at A th (i, Proceed) = []" using False by (simp add: decided_at_def assms(3))
    show ?thesis
    proof (cases "undecided (a # as)")
      case True
      note d = waiting_step [OF conjunct1 [OF w [OF True]] False e ok(3)]
      have "follows J th (action_effects ?ses a) [] [] (proceed A i th)"
        using d True by (auto simp: follows_def cnt due' counters_def now no_resend_def Let_def)
      moreover have "linear_inv eview (amb_sodium A) J (proceed A i th)"
        using assms(2) ok' store J' quiet d w [OF True] unfolding linear_inv_def th' by auto
      ultimately show ?thesis by (simp add: evs effs)
    next
      case False
      have q': "quiet_action a" using q by simp
      note d = settled_step [OF False e r(2) q', of "amb_sodium A" "sys_keys ?sys" ?p]
      have reply: "replies_of (a # as) = replies_in i (action_effects ?ses a) @ replies_of (new @ as)" using d [of i] live(1) by simp
      have other: "replies_in s (action_effects ?ses a) = []" if "s \<noteq> i" for s using d [of s] live(1) that by simp
      have same: "(counters th)(i := ses_sequence ses) = counters th" using d [of i] by (simp add: counters_def fun_upd_idem)
      have silent: "foldl effect_step ?p (action_effects ?ses a) = ?p" "\<And>s. messages_in s ?p (action_effects ?ses a) = []" "\<not> undecided (new @ as)"
        using d by blast+
      have "follows J th (action_effects ?ses a) [] [] (proceed A i th)"
        using silent False none reply other by (auto simp: follows_def cnt due' same now Let_def simp del: replies_of.simps)
      moreover have "linear_inv eview (amb_sodium A) J (proceed A i th)"
        using assms(2) ok' store J' quiet silent(3) unfolding linear_inv_def th' by auto
      ultimately show ?thesis by (simp add: evs effs)
    qed
  qed
qed

end

lemma begin_request_eq:
  "th_broker (begin_request i inp th) = th_broker th" "sv_sessions (th_server (begin_request i inp th)) = sv_sessions (th_server th)"
  "sys_keys (sv_sys (th_server (begin_request i inp th))) = sys_keys (sv_sys (th_server th))"
  "th_todo (begin_request i inp th) = (th_todo th)(i := input_actions (th_session th i) inp)"
  "th_request (begin_request i inp th) = (th_request th)(i := inp)"
  by (simp_all add: begin_request_def Let_def)

context lmdb_engine
begin

lemma arrive_follows:
  assumes "linear_inv eview S J th" and "quiet_event inp" and "single_request inp" and "inp \<noteq> Shutdown" and "\<And>now. inp \<noteq> Connect now"
    and "idle th i"
  shows "linear_inv eview S J (begin_request i inp th) \<and>
    follows J th [] (if undecided (input_actions (th_session th i) inp) then [] else [(i, inp)]) [(i, inp)] (begin_request i inp th)"
proof -
  let ?as = "input_actions (th_session th i) inp" and ?th = "begin_request i inp th" and ?p = "pubsub_of (th_broker th)"
  note th' = begin_request_eq [of i inp th]
  have live: "i \<in> live ?p" "th_todo th i = []" using assms(6) by (simp_all add: idle_def pubsub_of_def)
  note req = input_request [OF assms(3-5), of "th_session th i" J]
  have "threads_ok ?th"
    using assms(1,6) input_actions_last [of "th_session th i" inp]
    unfolding linear_inv_def threads_ok_def sessions_ok_def idle_def th' by auto
  then have inv: "linear_inv eview S J ?th"
    using assms(1,2) req quiet_actions [OF assms(2), of "th_session th i"] unfolding linear_inv_def th' by auto
  have state: "counters ?th = counters th" "due ?th r = (if r = i then (if undecided ?as then [] else replies_of ?as) else due th r)"
      "pending ?th r = (if r = i then (if undecided ?as then [(i, inp)] else []) else pending th r)" for r
    by (simp_all add: counters_def [abs_def] th' due_def pending_def)
  have before: "due th i = []" "pending th i = []" using live(2) by (simp_all add: due_def pending_def)
  show ?thesis
  proof (cases "undecided ?as")
    case True
    then show ?thesis using inv assms(4) by (auto simp: follows_def state before no_resend_def Let_def)
  next
    case False
    then have "silent J inp" "replies_of ?as = input_reply J inp" using req by simp_all
    then show ?thesis
      using inv False live(1) assms(2,4) by (auto simp: follows_def state before no_resend_def silent_def event_replies_def Let_def)
  qed
qed

lemma thread_step_follows:
  assumes "amb_lmdb A = L" and "linear_inv eview (amb_sodium A) J th" and "quiet_move (snd m)"
  shows "linear_inv eview (amb_sodium A) J (thread_step A th m) \<and>
    follows J th (move_effects th m) (decided_at A th m) (taken_at th m) (thread_step A th m)"
proof -
  obtain i mv where m: "m = (i, mv)" by fastforce
  have still: "follows J th [] [] [] th" unfolding follows_def no_resend_def by simp
  show ?thesis
  proof (cases mv)
    case Proceed
    show ?thesis
    proof (cases "th_todo th i")
      case Nil
      with Proceed have "thread_step A th m = th" "move_effects th m = []" "decided_at A th m = []" "taken_at th m = []"
        by (simp_all add: m thread_step_def proceed_def move_effects_def decided_at_def taken_at_def)
      then show ?thesis using still assms(2) by simp
    next
      case (Cons a as)
      with proceed_follows [OF assms(1,2) Cons] Proceed show ?thesis by (simp add: m thread_step_def taken_at_def)
    qed
  next
    case (Arrive inp)
    have q: "quiet_event inp" "single_request inp" using assms(3) by (simp_all add: m Arrive quiet_move_def)
    have from_outside: ?thesis
      if "thread_step A th m = th\<lparr>th_server := server_step A (th_server th) (i, inp)\<rparr>" "decided_at A th m = [(i, inp)]" "taken_at th m = [(i, inp)]"
        "inp = Shutdown \<or> (\<exists>now. inp = Connect now) \<and> i \<notin> set (b_sessions (th_broker th))"
    proof -
      let ?sv = "server_step A (th_server th) (i, inp)" and ?p = "pubsub_of (th_broker th)"
      have es: "foldl effect_step ?p (move_effects th m) = pubsub_step ?p (i, inp)" "messages_in r ?p (move_effects th m) = []"
          "replies_in r (move_effects th m) = []" "no_resend (move_effects th m)" for r
        using that(4) by (auto simp: m Arrive move_effects_def pubsub_step_def no_resend_def)
      have ok: "threads_ok th" "threads_ok (thread_step A th m)" using thread_step_ok [of th A m] assms(2) by (simp_all add: linear_inv_def)
      moreover have "store_sat (\<lambda>e. wire_store (eview e)) (sys_broker (sv_sys ?sv))"
        using wire_step [OF assms(1), of "th_server th" "(i, inp)"] assms(2) q(1) by (simp add: linear_inv_def quiet_event_def)
      moreover have "sys_keys (sv_sys ?sv) = sys_keys (sv_sys (th_server th))"
        using that(4) by (auto simp: server_step_def with_broker_def Let_def)
      ultimately have inv: "linear_inv eview (amb_sodium A) J (thread_step A th m)" using assms(2) by (simp add: that(1) linear_inv_def)
      have "counters (thread_step A th m) = pubsub_count J ?p (counters th) (i, inp)"
        using that(4)
        by (auto simp: that(1) counters_def [abs_def] server_step_def pubsub_count_def pubsub_of_def session_new_def fun_eq_iff Let_def)
      moreover have "messages_for J r ?p n [(i, inp)] = []" "replies_for J r ?p [(i, inp)] = []" for r n
        using that(4) by (auto simp: event_messages_def event_replies_def input_reply_def)
      moreover have "pending th r @ requests_of r [(i, inp)] = requests_of r [(i, inp)] @ pending th r" for r
        using that(4) ok(1) by (cases "r = i"; cases "th_todo th i") (auto simp: pending_def threads_ok_def)
      moreover have "due (thread_step A th m) r = due th r" "pending (thread_step A th m) r = pending th r" for r
        by (simp_all add: that(1) due_def pending_def)
      ultimately have "follows J th (move_effects th m) [(i, inp)] [(i, inp)] (thread_step A th m)"
        using es q(1) by (simp add: follows_def Let_def)
      with inv that(2,3) show ?thesis by simp
    qed
    consider (outside) "inp = Shutdown \<or> (\<exists>now. inp = Connect now) \<and> i \<notin> set (b_sessions (th_broker th))"
      | (again) now where "inp = Connect now" "i \<in> set (b_sessions (th_broker th))"
      | (inside) "inp \<noteq> Shutdown" "\<And>now. inp \<noteq> Connect now" by blast
    then show ?thesis
    proof cases
      case outside
      then show ?thesis by (intro from_outside) (auto simp: m Arrive thread_step_def decided_at_def taken_at_def)
    next
      case again
      then have "thread_step A th m = th" "decided_at A th m = []" "taken_at th m = []" "move_effects th m = [Came i]"
        by (simp_all add: m Arrive thread_step_def server_step_def decided_at_def taken_at_def move_effects_def)
      moreover have "follows J th [Came i] [] [] th"
        using again(2) by (simp add: follows_def no_resend_def pubsub_step_def pubsub_of_def)
      ultimately show ?thesis using assms(2) by simp
    next
      case inside
      then have eqs: "thread_step A th m = (if idle th i then begin_request i inp th else th)" "move_effects th m = []"
        "decided_at A th m = (if idle th i \<and> \<not> undecided (input_actions (th_session th i) inp) then [(i, inp)] else [])"
        "taken_at th m = (if idle th i then [(i, inp)] else [])"
        by (cases inp; auto simp: m Arrive thread_step_def move_effects_def decided_at_def taken_at_def)+
      show ?thesis
        unfolding eqs using arrive_follows [OF assms(2) q inside, of i] still assms(2) by auto
    qed
  next
    case (Registry op)
    then show ?thesis using assms(3) by (simp add: m quiet_move_def)
  qed
qed

end

text \<open>Runs of the abstract machine can be cut anywhere.\<close>

definition count_run :: "(BinaryFrame \<Rightarrow> verdict) \<Rightarrow> pubsub \<Rightarrow> (session_id \<Rightarrow> uint64) \<Rightarrow> (session_id \<times> input) list \<Rightarrow> session_id \<Rightarrow> uint64" where
  "count_run J p n evs = snd (foldl (\<lambda>(p, n) ev. (pubsub_step p ev, pubsub_count J p n ev)) (p, n) evs)"

lemma count_run_simps [simp]:
  "count_run J p n [] = n" "count_run J p n (ev # evs) = count_run J (pubsub_step p ev) (pubsub_count J p n ev) evs"
  by (simp_all add: count_run_def)

lemma machine_append:
  "count_run J p n (evs @ evs') = count_run J (foldl pubsub_step p evs) (count_run J p n evs) evs'"
  "messages_for J r p n (evs @ evs') = messages_for J r p n evs @ messages_for J r (foldl pubsub_step p evs) (count_run J p n evs) evs'"
  "replies_for J r p (evs @ evs') = replies_for J r p evs @ replies_for J r (foldl pubsub_step p evs) evs'"
  by (induction evs arbitrary: p n) simp_all

lemma effects_append:
  "messages_in r p (es @ es') = messages_in r p es @ messages_in r (foldl effect_step p es) es'"
  "replies_in r (es @ es') = replies_in r es @ replies_in r es'" "no_resend (es @ es') \<longleftrightarrow> no_resend es \<and> no_resend es'"
proof -
  show "messages_in r p (es @ es') = messages_in r p es @ messages_in r (foldl effect_step p es) es'"
    by (induction r p es rule: messages_in.induct) simp_all
  show "replies_in r (es @ es') = replies_in r es @ replies_in r es'"
    by (induction r es rule: replies_in.induct) simp_all
qed (auto simp: no_resend_def)

lemma follows_trans:
  assumes "follows J th es evs new th'" and "follows J th' es' evs' new' th''"
    and "pubsub_of (th_broker th') = foldl effect_step (pubsub_of (th_broker th)) es"
  shows "follows J th (es @ es') (evs @ evs') (new @ new') th''"
  using assms unfolding follows_def Let_def count_run_def [symmetric]
  by (auto simp: machine_append effects_append) (metis append_assoc)+

context lmdb_engine
begin

lemma threads_run_follows:
  assumes "amb_lmdb A = L" and "\<forall>m \<in> set ms. quiet_move (snd m)" and "linear_inv eview (amb_sodium A) J th"
  shows "linear_inv eview (amb_sodium A) J (threads_run A th ms) \<and>
    follows J th (effects A th ms) (linearization A th ms) (taken A th ms) (threads_run A th ms)"
  using assms(2,3)
proof (induction ms arbitrary: th)
  case (Cons m ms)
  note step = thread_step_follows [OF assms(1) Cons.prems(2), of m]
  have "pubsub_of (th_broker (thread_step A th m)) = foldl effect_step (pubsub_of (th_broker th)) (move_effects th m)"
    using thread_step_ok [of th A m] Cons.prems(2) by (simp add: linear_inv_def)
  with step Cons show ?case by (auto intro: follows_trans)
qed (simp add: follows_def no_resend_def)

end

lemma linearization_append:
  "linearization A th (ms @ ms') = linearization A th ms @ linearization A (threads_run A th ms) ms'"
  by (induction ms arbitrary: th) simp_all

section \<open>Properties\<close>


text \<open>For runs worked out by hand: the parts of the state that decide what is done next.\<close>

definition shows_state :: "'e threads \<Rightarrow> (session_id \<Rightarrow> action list) \<Rightarrow> (session_id \<Rightarrow> input) \<Rightarrow> session_id list \<Rightarrow> bool" where
  "shows_state th todo req conns \<longleftrightarrow> th_todo th = todo \<and> th_request th = req \<and> b_sessions (th_broker th) = conns \<and>
     active_connections (th_broker th) = of_nat (length conns) \<and> \<not> shutdown_requested (th_broker th)"

lemma state_connect:
  assumes "shows_state th todo req conns" and "i \<notin> set conns" and "length conns < 1000"
  shows "shows_state (thread_step A th (i, Arrive (Connect now))) todo req (conns @ [i])"
    "decided_at A th (i, Arrive (Connect now)) = [(i, Connect now)]"
proof -
  have "\<not> (of_nat MAX_CONNECTIONS :: uint64) \<le> of_nat (length conns)"
    using assms(3) by (simp add: MAX_CONNECTIONS_def not_le word_less_nat_alt unat_of_nat)
  then show "shows_state (thread_step A th (i, Arrive (Connect now))) todo req (conns @ [i])"
    using assms
    by (auto simp: shows_state_def thread_step_def server_step_def with_broker_def accept_step_def update_metrics_def Let_def)
  show "decided_at A th (i, Arrive (Connect now)) = [(i, Connect now)]"
    using assms(1,2) by (simp add: decided_at_def shows_state_def)
qed

lemma state_frame:
  assumes "shows_state th todo req conns" and "i \<in> set conns" and "todo i = []"
  shows "shows_state (thread_step A th (i, Arrive (Frame f))) (todo(i := frame_actions (th_session th i) f)) (req(i := Frame f)) conns"
    "decided_at A th (i, Arrive (Frame f)) = (if undecided (frame_actions (th_session th i) f) then [] else [(i, Frame f)])"
  using assms by (auto simp: shows_state_def thread_step_def idle_def begin_request_eq input_actions_def decided_at_def)

lemma state_proceed:
  assumes "shows_state th todo req conns" and "todo i = a # as" and "a = Do_subscribe t \<or> a = Do_publish f"
  shows "shows_state (thread_step A th (i, Proceed)) (todo(i := as)) req conns" "decided_at A th (i, Proceed) = [(i, req i)]"
proof -
  have "active_connections (fst (publish (amb_lmdb A) lat (th_broker th) u p)) = active_connections (th_broker th)"
      "active_connections (subscribe_locked (th_broker th) s u) = active_connections (th_broker th)" for lat s u p
    by (simp_all add: publish_eq subscribe_locked_def update_metrics_def Let_def)
  then show "shows_state (thread_step A th (i, Proceed)) (todo(i := as)) req conns"
    using assms by (auto simp: shows_state_def thread_step_def proceed_def with_broker_def)
  show "decided_at A th (i, Proceed) = [(i, req i)]"
    using assms by (auto simp: shows_state_def decided_at_def takes_effect_def)
qed

text \<open>A subscription that is not yet confirmed when the first message comes.\<close>

definition overtaking :: "(session_id \<times> move) list" where
  "overtaking =
     [(7, Arrive (Connect 0)), (7, Arrive (Frame (subscribe_frame ''t'' 1))), (7, Proceed),
      (3, Arrive (Connect 0)), (3, Arrive (Frame (publish_frame ''t'' ''x'' 9))), (3, Proceed)]"


section \<open>Where it ends: the registry asked twice\<close>

text \<open>
  (C32) The handler of a signed publish looks up the key twice, for the signature and for the topic scope, and takes a key that
  is gone at the second look for one without restrictions. So a device whose key does not cover a topic, and
  whose signed publishes to it are refused both before and after its key is removed, gets one through when the key is
  removed between the two look-ups: the message is sent to every subscriber of the topic, or of \<^verbatim>\<open>#\<close>, and no order of the
  publish and the removal as wholes explains it.
\<close>

theorem key_removed_midway:
  assumes "threads_ok th" and "idle th i" and "frame_command f = CMD_SIGNED_PUBLISH"
    and "signed_verdict (amb_sodium A) (sys_keys (sv_sys (th_server th))) f = Forbidden" and "rm = (i, Registry (Remove (frame_key_id f)))"
    and "m = next_signed_message (th_session th i) f"
  shows "effects A th [(i, Arrive (Frame f)), (i, Proceed), (i, Proceed), rm, (i, Proceed), (i, Proceed)] = [Published i (frame_topic f) (Bin m)] \<and>
    sends_to r (th_broker (threads_run A th [(i, Arrive (Frame f)), (i, Proceed), (i, Proceed), rm, (i, Proceed), (i, Proceed)])) =
      sends_to r (th_broker th) @ replicate (matches (pubsub_of (th_broker th)) r (frame_topic f)) (serialize m) \<and>
    effects A th [(i, Arrive (Frame f)), (i, Proceed), (i, Proceed), (i, Proceed), (i, Proceed), rm] =
      [Replied i (Bin (error_frame (''Key not authorized for topic '' @ [CHR 0x27] @ frame_topic f @ [CHR 0x27])))] \<and>
    effects A th [rm, (i, Arrive (Frame f)), (i, Proceed), (i, Proceed)] = [Replied i (Bin (error_frame ''Invalid signature or unknown key''))]"
proof -
  let ?keys = "sys_keys (sv_sys (th_server th))"
  obtain tk where tk: "map_of (ks_keys ?keys) (frame_key_id f) = Some tk" "tk_enabled tk"
      "verify (amb_sodium A) (signed_part f) (frame_signature f) (tk_public_key tk)" "\<not> key_scope_ok (Some tk) (frame_topic f)"
    using assms(4) by (auto simp: signed_verdict_def signed_part_def split: option.splits if_splits)
  have id: "ses_id (th_session th i) = i" "i \<in> set (b_sessions (th_broker th))" "th_todo th i = []"
    using assms(1,2) by (auto simp: threads_ok_def sessions_ok_def idle_def)
  have keys: "get_key ?keys (frame_key_id f) = Some (tk_public_key tk)" "get_key (fst (remove_key ?keys (frame_key_id f))) (frame_key_id f) = None"
      "get_key_info (fst (remove_key ks (frame_key_id f))) (frame_key_id f) = None" "key_scope_ok None t"
      "\<not> key_scope_ok (get_key_info (touch now ?keys (frame_key_id f)) (frame_key_id f)) (frame_topic f)" for ks t now
    using tk by (simp_all add: get_key_def get_key_info_def remove_key_def touch_def key_scope_ok_def alist_simps)
  have acts: "frame_actions ses f = [Do_verify f]" for ses using assms(3) by (simp add: frame_actions_def)
  note eval = assms(5) thread_step_def begin_request_def idle_def input_actions_def proceed_def move_effects_def acts keys tk(3) id
  have race: "effects A th [(i, Arrive (Frame f)), (i, Proceed), (i, Proceed), rm, (i, Proceed), (i, Proceed)] = [Published i (frame_topic f) (Bin m)]"
    by (simp add: eval assms(6) Let_def)
  moreover have "effects A th [(i, Arrive (Frame f)), (i, Proceed), (i, Proceed), (i, Proceed), (i, Proceed), rm] =
      [Replied i (Bin (error_frame (''Key not authorized for topic '' @ [CHR 0x27] @ frame_topic f @ [CHR 0x27])))]"
    by (simp add: eval Let_def)
  moreover have "effects A th [rm, (i, Arrive (Frame f)), (i, Proceed), (i, Proceed)] = [Replied i (Bin (error_frame ''Invalid signature or unknown key''))]"
    by (simp add: eval Let_def)
  ultimately show ?thesis
    using threads_run_ok [OF assms(1), of A "[(i, Arrive (Frame f)), (i, Proceed), (i, Proceed), rm, (i, Proceed), (i, Proceed)]" r] by simp
qed

definition demo_scoped :: "tree threads" where
  "demo_scoped = thread_step demo_ambient
     (threads_start (amb_lmdb demo_ambient) RBT.empty (fst (register_key 0 ks_new [1] ''d'' ''a''))) (7, Arrive (Connect 0))"

theorem key_removed_midway_witness:
  "effects demo_ambient demo_scoped
     [(7, Arrive (Frame (signed_publish_frame ''t'' ''x'' [1, 116, 120] 1 9))), (7, Proceed), (7, Proceed), (7, Registry (Remove 1)), (7, Proceed), (7, Proceed)] =
     [Published 7 ''t'' (Bin (signed_message_frame ''t'' ''x'' [1, 116, 120] 1 1))]"
proof -
  let ?f = "signed_publish_frame ''t'' ''x'' [1, 116, 120] 1 9"
  have f: "frame_command ?f = CMD_SIGNED_PUBLISH" "frame_key_id ?f = 1" "frame_topic ?f = ''t''" "next_signed_message (th_session demo_scoped 7) ?f = signed_message_frame ''t'' ''x'' [1, 116, 120] 1 1"
    by (simp_all add: frame_defs next_signed_message_def demo_scoped_def thread_step_def threads_start_def server_start_def server_step_def
        session_new_def with_broker_def broker_new_def Let_def)
  have ok: "threads_ok demo_scoped"
    unfolding demo_scoped_def by (rule thread_step_ok [THEN conjunct1, OF threads_ok_start])
  have idle: "idle demo_scoped 7"
    by (simp add: idle_def demo_scoped_def thread_step_def threads_start_def server_start_def server_step_def with_broker_def broker_new_def
        accept_step_def update_metrics_def MAX_CONNECTIONS_def Let_def)
  have "sys_keys (sv_sys (th_server demo_scoped)) = fst (register_key 0 ks_new [1] ''d'' ''a'')"
    by (simp add: demo_scoped_def thread_step_def threads_start_def server_start_def server_step_def with_broker_def broker_new_def Let_def)
  then have "signed_verdict (amb_sodium demo_ambient) (sys_keys (sv_sys (th_server demo_scoped))) ?f = Forbidden"
    by (simp add: signed_verdict_def register_key_def ks_new_def new_key_def demo_ambient_def demo_sodium_def verify_def frame_defs
        byte_of_char_def key_scope_ok_def topic_allowed_def Let_def)
  from key_removed_midway [OF ok idle f(1) this refl refl, THEN conjunct1] show ?thesis by (simp add: f)
qed

end
