(* ===== verification/Counters.thy ===== *)
theory Counters
  imports Threads
begin

text \<open>
  What the counters of \<^verbatim>\<open>src/metrics.cpp\<close> hold, against what \<^verbatim>\<open>include/metricmq/metrics.hpp\<close> says they count. The header
  gives each counter an event; here the events are read off the effects of a run of the session threads, and the
  lemmas give the exact value of every counter after any run.
\<close>

section \<open>The documented meaning\<close>

text \<open>The weight of an effect in a state of the abstract machine, added up over a run.\<close>

fun tally :: "(pubsub \<Rightarrow> effect \<Rightarrow> nat) \<Rightarrow> pubsub \<Rightarrow> effect list \<Rightarrow> nat" where
  "tally w p [] = 0"
| "tally w p (e # es) = w p e + tally w (effect_step p e) es"

definition doc_published :: "pubsub \<Rightarrow> effect \<Rightarrow> nat" where
  "doc_published p e = (case e of Published i t m \<Rightarrow> 1 | _ \<Rightarrow> 0)"

definition topic_subscriptions :: "pubsub \<Rightarrow> bytes \<Rightarrow> nat" where
  "topic_subscriptions p t = card (Set.filter (\<lambda>x. snd x = t) (subs p))"

definition doc_delivered :: "pubsub \<Rightarrow> effect \<Rightarrow> nat" where
  "doc_delivered p e = (case e of Published i t m \<Rightarrow> topic_subscriptions p t + topic_subscriptions p ''#'' | _ \<Rightarrow> 0)"

definition doc_subscriptions :: "pubsub \<Rightarrow> effect \<Rightarrow> nat" where
  "doc_subscriptions p e = (case e of Subscribed i t \<Rightarrow> 1 | _ \<Rightarrow> 0)"

definition doc_unsubscriptions :: "pubsub \<Rightarrow> effect \<Rightarrow> nat" where
  "doc_unsubscriptions p e = (case e of Unsubscribed i t \<Rightarrow> 1 | _ \<Rightarrow> 0)"

definition doc_connections :: "pubsub \<Rightarrow> effect \<Rightarrow> nat" where
  "doc_connections p e = (case e of Came i \<Rightarrow> if i \<in> live p \<or> down p \<or> MAX_CONNECTIONS \<le> card (live p) then 0 else 1 | _ \<Rightarrow> 0)"

definition doc_disconnections :: "pubsub \<Rightarrow> effect \<Rightarrow> nat" where
  "doc_disconnections p e = (case e of Left i \<Rightarrow> 1 | _ \<Rightarrow> 0)"

definition doc_acks :: "pubsub \<Rightarrow> effect \<Rightarrow> nat" where
  "doc_acks p e = (case e of Acknowledged i n \<Rightarrow> 1 | _ \<Rightarrow> 0)"

fun is_error :: "packet \<Rightarrow> bool" where
  "is_error (Bin f) = (frame_command f = CMD_ERROR)"
| "is_error (Txt v) = (case v of RError e \<Rightarrow> True | _ \<Rightarrow> False)"

definition doc_errors :: "pubsub \<Rightarrow> effect \<Rightarrow> nat" where
  "doc_errors p e = (case e of Replied i r \<Rightarrow> if is_error r then 1 else 0 | _ \<Rightarrow> 0)"

definition doc_topic_messages :: "bytes \<Rightarrow> pubsub \<Rightarrow> effect \<Rightarrow> nat" where
  "doc_topic_messages topic p e = (case e of Published i t m \<Rightarrow> if t = topic then 1 else 0 | _ \<Rightarrow> 0)"

text \<open>What the code counts as an unsubscription: only one from a topic that somebody is subscribed to.\<close>

definition counted_unsubscription :: "pubsub \<Rightarrow> effect \<Rightarrow> nat" where
  "counted_unsubscription p e = (case e of Unsubscribed i t \<Rightarrow> if t \<in> snd ` subs p then 1 else 0 | _ \<Rightarrow> 0)"

lemmas doc_defs = doc_published_def doc_delivered_def doc_subscriptions_def doc_unsubscriptions_def doc_connections_def
  doc_disconnections_def doc_acks_def doc_errors_def doc_topic_messages_def counted_unsubscription_def

lemma tally_append: "tally w p (es @ es') = tally w p es + tally w (foldl effect_step p es) es'"
  by (induction es arbitrary: p) simp_all

section \<open>One step\<close>

text \<open>A counter \<open>c\<close> grows by the weight \<open>w\<close> of the effects.\<close>

definition counts :: "(Metrics \<Rightarrow> uint64) \<Rightarrow> (pubsub \<Rightarrow> effect \<Rightarrow> nat) \<Rightarrow> 'e Broker \<Rightarrow> effect list \<Rightarrow> 'e Broker \<Rightarrow> bool" where
  "counts c w b es b' \<longleftrightarrow> c (b_metrics b') = c (b_metrics b) + of_nat (tally w (pubsub_of b) es)"

lemma unsubscribed_topic:
  assumes "topics_inv b"
  shows "map_of (topic_subscribers b) t = None \<longleftrightarrow> t \<notin> snd ` subs (pubsub_of b)"
proof -
  have "ss \<noteq> []" if "map_of (topic_subscribers b) t = Some ss" for ss using assms that by (auto simp: topics_inv_def)
  then show ?thesis
    by (cases "map_of (topic_subscribers b) t")
      (force simp: pubsub_of_def subscribers_def image_iff neq_Nil_conv)+
qed

lemmas metric_changes = update_metrics_def metric_op_defs Let_def

definition tallied :: "'e Broker \<Rightarrow> effect list \<Rightarrow> 'e Broker \<Rightarrow> bool" where
  "tallied b es b' \<longleftrightarrow>
     counts messages_published_total doc_published b es b' \<and> counts messages_delivered_total doc_published b es b' \<and>
     counts subscriptions_total doc_subscriptions b es b' \<and> counts unsubscriptions_total counted_unsubscription b es b' \<and>
     counts connections_total doc_connections b es b' \<and> counts disconnections_total doc_disconnections b es b' \<and>
     counts acks_total doc_acks b es b' \<and> counts errors_total (\<lambda>_ _. 0) b es b' \<and>
     (om_sorted (topic_messages (b_metrics b)) \<longrightarrow> om_sorted (topic_messages (b_metrics b')) \<and>
        (\<forall>t. counts (\<lambda>m. om_get t 0 (topic_messages m)) (doc_topic_messages t) b es b'))"

lemma tallied_none: "b_metrics b' = b_metrics b \<Longrightarrow> tallied b [] b'"
  by (simp add: tallied_def counts_def)

text \<open>The broker's operations; a send, a registration and the shutdown leave the metrics alone.\<close>

lemma metrics_frame [simp]:
  "b_metrics (send_to s d b) = b_metrics b" "b_metrics (unregisterClient b c) = b_metrics b"
  "b_metrics (registerClient L ord b c s) = b_metrics b" "b_metrics (stop b) = b_metrics b"
  by (simp_all add: send_to_def unregisterClient_def registerClient_def stop_def Let_def split: option.split)

lemma tallied_publish: "tallied b [Published i t m] (fst (publish L lat b t d))"
  by (auto simp: tallied_def counts_def doc_defs publish_eq metric_op_defs om_get_def)

lemma tallied_subscribe: "tallied b [Subscribed i t] (subscribe_locked b i t)"
  by (auto simp: tallied_def counts_def doc_defs subscribe_locked_def metric_changes om_get_def)

lemma tallied_ack: "tallied b [Acknowledged i n] (handleAck L b c n)"
  by (auto simp: tallied_def counts_def doc_defs handleAck_def metric_changes split: option.split)

lemma tallied_remove: "tallied b [Left i] (removeSession b i)"
  by (auto simp: tallied_def counts_def doc_defs removeSession_def metric_changes)

lemma tallied_unsubscribe:
  assumes "topics_inv b"
  shows "tallied b [Unsubscribed i t] (unsubscribe b i t)"
proof -
  have "messages_published_total (decrementTopicSubscribers t m) = messages_published_total m"
    "messages_delivered_total (decrementTopicSubscribers t m) = messages_delivered_total m"
    "subscriptions_total (decrementTopicSubscribers t m) = subscriptions_total m"
    "unsubscriptions_total (decrementTopicSubscribers t m) = unsubscriptions_total m"
    "connections_total (decrementTopicSubscribers t m) = connections_total m"
    "disconnections_total (decrementTopicSubscribers t m) = disconnections_total m"
    "acks_total (decrementTopicSubscribers t m) = acks_total m" "errors_total (decrementTopicSubscribers t m) = errors_total m"
    "topic_messages (decrementTopicSubscribers t m) = topic_messages m" for m
    by (simp_all add: decrementTopicSubscribers_def Let_def split: option.split)
  then show ?thesis
    using unsubscribed_topic [OF assms, of t]
    by (auto simp: tallied_def counts_def doc_defs unsubscribe_def metric_changes split: option.split)
qed

lemma tallied_accept:
  assumes "conn_inv b" and "i \<notin> set (b_sessions b)" and "\<not> shutdown_requested b"
  shows "tallied b [Came i] (fst (accept_step b (Accepted i)))"
proof -
  have "card (set (b_sessions b)) = length (b_sessions b)"
    and "(of_nat MAX_CONNECTIONS \<le> active_connections b) = (MAX_CONNECTIONS \<le> length (b_sessions b))"
    using assms(1) by (simp_all add: conn_inv_def distinct_card word_le_nat_alt unat_of_nat MAX_CONNECTIONS_def)
  with assms(2,3) show ?thesis
    by (auto simp: tallied_def counts_def doc_defs accept_step_def metric_changes pubsub_of_def)
qed

lemma exec_tallied:
  assumes "exec A a (ses, sys) = ((ses', sys'), r)" and "broker_inv (sys_broker sys)"
  shows "tallied (sys_broker sys) (action_effects ses a) (sys_broker sys')"
proof -
  have inv: "topics_inv (sys_broker sys)" using assms(2) by (simp add: broker_inv_def)
  have silent: "tallied b [Replied i m] b'" "tallied b [Resent i d] b'" if "b_metrics b' = b_metrics b" for b b' :: "'a Broker" and i m d
    using that by (auto simp: tallied_def counts_def doc_defs)
  show ?thesis
    using assms(1) by (cases a)
      (auto simp: with_broker_def tallied_subscribe tallied_unsubscribe [OF inv] tallied_publish tallied_ack tallied_remove
        intro: tallied_none silent)
qed

lemma move_tallied:
  assumes "threads_ok th"
  shows "tallied (th_broker th) (move_effects th m) (th_broker (thread_step A th m))"
proof -
  obtain i mv where m: "m = (i, mv)" by fastforce
  have inv: "broker_inv (th_broker th)" using assms by (simp add: threads_ok_def)
  show ?thesis
  proof (cases mv)
    case (Arrive inp)
    show ?thesis
    proof (cases inp)
      case (Connect now)
      have "conn_inv (th_broker th)" using inv by (simp add: broker_inv_def)
      from tallied_accept [OF this, of i] Arrive Connect show ?thesis
        by (auto simp: m move_effects_def thread_step_def server_step_def Let_def)
          (auto simp: tallied_def counts_def doc_defs pubsub_of_def)
    next
      case Shutdown
      with Arrive show ?thesis
        by (auto simp: m move_effects_def thread_step_def server_step_def tallied_def counts_def doc_defs Let_def)
    qed (use Arrive in \<open>auto simp: m move_effects_def thread_step_def begin_request_def Let_def intro: tallied_none\<close>)
  next
    case Proceed
    show ?thesis
    proof (cases "th_todo th i")
      case Nil
      with Proceed show ?thesis by (simp add: m move_effects_def thread_step_def proceed_def tallied_none)
    next
      case (Cons a as)
      obtain ses sys x where e: "exec A a (th_session th i, sv_sys (th_server th)) = ((ses, sys), x)" by (metis surj_pair)
      from exec_tallied [OF e inv] proceed_eq(1) [OF Cons e] Proceed Cons show ?thesis
        by (simp add: m move_effects_def thread_step_def)
    qed
  next
    case (Registry op)
    then show ?thesis by (simp add: m move_effects_def thread_step_def tallied_none Let_def)
  qed
qed

section \<open>Every run\<close>

lemma tallied_trans:
  assumes "tallied b es b'" and "tallied b' es' b''" and "pubsub_of b' = foldl effect_step (pubsub_of b) es"
  shows "tallied b (es @ es') b''"
  using assms by (simp add: tallied_def counts_def tally_append add.assoc)

lemma run_tallied:
  "threads_ok th \<Longrightarrow> tallied (th_broker th) (effects A th ms) (th_broker (threads_run A th ms))"
proof (induction ms arbitrary: th)
  case (Cons m ms)
  have "threads_ok (thread_step A th m)"
    "pubsub_of (th_broker (thread_step A th m)) = foldl effect_step (pubsub_of (th_broker th)) (move_effects th m)"
    using thread_step_ok [OF Cons.prems, of A m] by auto
  with Cons.IH [of "thread_step A th m"] move_tallied [OF Cons.prems, of m A] show ?case by (simp add: tallied_trans)
qed (simp add: tallied_none)

section \<open>Properties\<close>


text \<open>A publish without subscribers counts as a delivery, a refused one not as an error.\<close>

definition demo_counted :: "(session_id \<times> move) list" where
  "demo_counted =
     [(7, Arrive (Connect 0)), (7, Arrive (Frame (publish_frame ''t'' ''x'' 1))), (7, Proceed), (7, Proceed),
      (7, Arrive (Frame (publish_frame ''secure/t'' ''x'' 2))), (7, Proceed)]"

definition demo_threads :: "tree threads" where
  "demo_threads = threads_start (amb_lmdb demo_ambient) RBT.empty ks_new"


end
