(* ===== verification/Registry_Spec.thy ===== *)
theory Registry_Spec
  imports Keystore
begin

text \<open>
  The registry of keys that \<^verbatim>\<open>include/metricmq/crypto.hpp\<close> documents, as an abstract machine: a map from numbers to
  entries and the number of automatic registrations so far. The lemmas show that \<open>Keystore\<close> gives the documented answers
  and shows the documented entries as long as automatic and chosen numbers do not get in each other's way, and how the
  automatic numbers depart from the header otherwise.
\<close>

section \<open>The documented registry\<close>

record registry_doc =
  doc_keys :: "uint32 \<rightharpoonup> TrustedKey"
  doc_calls :: nat

definition registry_empty :: registry_doc where
  "registry_empty = \<lparr>doc_keys = Map.empty, doc_calls = 0\<rparr>"

text \<open>Automatic numbers start at 1 and increment per call.\<close>

definition doc_register_key :: "uint64 \<Rightarrow> registry_doc \<Rightarrow> PublicKey \<Rightarrow> bytes \<Rightarrow> bytes \<Rightarrow> registry_doc \<times> nat" where
  "doc_register_key now r pk device_name allowed_topics =
     (let n = doc_calls r + 1; i = word_of_nat n
      in (\<lparr>doc_keys = (doc_keys r)(i \<mapsto> new_key now pk i device_name allowed_topics), doc_calls = n\<rparr>, n))"

definition doc_register_key_id ::
    "uint64 \<Rightarrow> registry_doc \<Rightarrow> uint32 \<Rightarrow> PublicKey \<Rightarrow> bytes \<Rightarrow> bytes \<Rightarrow> registry_doc \<times> bool" where
  "doc_register_key_id now r i pk device_name allowed_topics =
     (if i \<in> dom (doc_keys r) then (r, False)
      else (r\<lparr>doc_keys := (doc_keys r)(i \<mapsto> new_key now pk i device_name allowed_topics)\<rparr>, True))"

definition doc_get_key :: "registry_doc \<Rightarrow> uint32 \<Rightarrow> PublicKey option" where
  "doc_get_key r i =
     Option.bind (doc_keys r i) (\<lambda>tk. if tk_enabled tk then Some (tk_public_key tk) else None)"

definition doc_get_key_info :: "registry_doc \<Rightarrow> uint32 \<Rightarrow> TrustedKey option" where
  "doc_get_key_info r i = doc_keys r i"

definition doc_is_trusted :: "registry_doc \<Rightarrow> uint32 \<Rightarrow> bool" where
  "doc_is_trusted r i \<longleftrightarrow> i \<in> dom (doc_keys r) \<and> pred_option tk_enabled (doc_keys r i)"

definition doc_touch :: "uint64 \<Rightarrow> registry_doc \<Rightarrow> uint32 \<Rightarrow> registry_doc" where
  "doc_touch now r i =
     r\<lparr>doc_keys := (doc_keys r)(i := map_option (\<lambda>tk. tk\<lparr>tk_last_used := now\<rparr>) (doc_keys r i))\<rparr>"

definition doc_verify_with_key ::
    "'r sodium \<Rightarrow> uint64 \<Rightarrow> registry_doc \<Rightarrow> uint32 \<Rightarrow> uint8 list \<Rightarrow> Signature \<Rightarrow> registry_doc \<times> bool" where
  "doc_verify_with_key S now r i message signature =
     (if \<exists>pk. doc_get_key r i = Some pk \<and> verify S message signature pk then (doc_touch now r i, True) else (r, False))"

definition doc_set_enabled :: "registry_doc \<Rightarrow> uint32 \<Rightarrow> bool \<Rightarrow> registry_doc \<times> bool" where
  "doc_set_enabled r i enabled =
     (r\<lparr>doc_keys := (doc_keys r)(i := map_option (\<lambda>tk. tk\<lparr>tk_enabled := enabled\<rparr>) (doc_keys r i))\<rparr>, i \<in> dom (doc_keys r))"

definition doc_remove_key :: "registry_doc \<Rightarrow> uint32 \<Rightarrow> registry_doc \<times> bool" where
  "doc_remove_key r i = (r\<lparr>doc_keys := (doc_keys r)(i := None)\<rparr>, i \<in> dom (doc_keys r))"

definition doc_get_all_key_ids :: "registry_doc \<Rightarrow> uint32 set" where
  "doc_get_all_key_ids r = dom (doc_keys r)"

definition doc_count :: "registry_doc \<Rightarrow> nat" where
  "doc_count r = card (dom (doc_keys r))"

definition doc_clear :: "registry_doc \<Rightarrow> registry_doc" where
  "doc_clear r = r\<lparr>doc_keys := Map.empty\<rparr>"

section \<open>Calls and their answers\<close>

datatype answer = Number nat | Flag bool | Done

fun doc_step :: "'r sodium \<Rightarrow> registry_doc \<Rightarrow> ks_op \<Rightarrow> registry_doc \<times> answer" where
  "doc_step S r (Register now pk d a) = apsnd Number (doc_register_key now r pk d a)"
| "doc_step S r (Register_id now i pk d a) = apsnd Flag (doc_register_key_id now r i pk d a)"
| "doc_step S r (Verify now i m g) = apsnd Flag (doc_verify_with_key S now r i m g)"
| "doc_step S r (Set_enabled i b) = apsnd Flag (doc_set_enabled r i b)"
| "doc_step S r (Remove i) = apsnd Flag (doc_remove_key r i)"
| "doc_step S r (Touch now i) = (doc_touch now r i, Done)"
| "doc_step S r Clear = (doc_clear r, Done)"

fun ks_answer :: "'r sodium \<Rightarrow> TrustedKeyStore \<Rightarrow> ks_op \<Rightarrow> answer" where
  "ks_answer S ks (Register now pk d a) = Number (unat (snd (register_key now ks pk d a)))"
| "ks_answer S ks (Register_id now i pk d a) = Flag (snd (register_key_id now ks i pk d a))"
| "ks_answer S ks (Verify now i m g) = Flag (snd (verify_with_key S now ks i m g))"
| "ks_answer S ks (Set_enabled i b) = Flag (snd (set_enabled ks i b))"
| "ks_answer S ks (Remove i) = Flag (snd (remove_key ks i))"
| "ks_answer S ks _ = Done"

fun ks_answers :: "'r sodium \<Rightarrow> TrustedKeyStore \<Rightarrow> ks_op list \<Rightarrow> answer list" where
  "ks_answers S ks [] = []"
| "ks_answers S ks (op # ops) = ks_answer S ks op # ks_answers S (ks_step S ks op) ops"

fun doc_run :: "'r sodium \<Rightarrow> registry_doc \<Rightarrow> ks_op list \<Rightarrow> registry_doc \<times> answer list" where
  "doc_run S r [] = (r, [])"
| "doc_run S r (op # ops) = (let (r', x) = doc_step S r op in apsnd ((#) x) (doc_run S r' ops))"

text \<open>
  Chosen numbers stay among those that automatic registration has already passed, the counter does not come to its
  end, and the registry is cleared only while no number has been handed out.
\<close>

fun orderly :: "registry_doc \<Rightarrow> ks_op \<Rightarrow> bool" where
  "orderly r (Register now pk d a) = (doc_calls r + 2 < 2 ^ 32)"
| "orderly r (Register_id now i pk d a) = (i \<in> dom (doc_keys r) \<or> unat i \<le> doc_calls r)"
| "orderly r Clear = (doc_calls r = 0)"
| "orderly r _ = True"

fun orderly_run :: "'r sodium \<Rightarrow> registry_doc \<Rightarrow> ks_op list \<Rightarrow> bool" where
  "orderly_run S r [] = True"
| "orderly_run S r (op # ops) \<longleftrightarrow> orderly r op \<and> orderly_run S (fst (doc_step S r op)) ops"

section \<open>Refinement\<close>

definition registry_match :: "TrustedKeyStore \<Rightarrow> registry_doc \<Rightarrow> bool" where
  "registry_match ks r \<longleftrightarrow> ks_inv ks \<and> map_of (ks_keys ks) = doc_keys r \<and>
     unat (ks_next_key_id ks) = doc_calls r + 1"

lemma registry_match_empty: "registry_match ks_new registry_empty"
  by (simp add: registry_match_def ks_new_def registry_empty_def ks_inv_def)

lemmas doc_op_defs =
  doc_register_key_def doc_register_key_id_def doc_verify_with_key_def doc_set_enabled_def doc_remove_key_def
  doc_touch_def doc_clear_def doc_get_key_def

lemma next_number: "unat (w :: uint32) + 1 < 2 ^ 32 \<Longrightarrow> unat (w + 1) = unat w + 1"
  by (simp add: unat_word_ariths)

lemma match_answer:
  assumes "registry_match ks r" and "orderly r op"
  shows "ks_answer S ks op = snd (doc_step S r op)"
  using assms
  by (cases op) (auto simp: registry_match_def ks_op_defs doc_op_defs dom_def Let_def split: option.splits)

lemma match_keys:
  assumes "registry_match ks r" and "orderly r op"
  shows "map_of (ks_keys (ks_step S ks op)) = doc_keys (fst (doc_step S r op))"
proof -
  from assms(1) have m: "map_of (ks_keys ks) = doc_keys r" "distinct (map fst (ks_keys ks))"
    and n: "unat (ks_next_key_id ks) = doc_calls r + 1" by (simp_all add: registry_match_def ks_inv_def)
  have "word_of_nat (doc_calls r + 1) = ks_next_key_id ks" using n by (metis word_unat_eq_iff unat_of_nat unsigned_less mod_less order_refl word_of_nat_eq_iff)
  then show ?thesis
    using assms(2) m
    by (cases op) (auto simp: ks_op_defs doc_op_defs alist_simps dom_def Let_def fun_eq_iff
        simp del: map_of_eq_Some_iff split: option.splits)
qed

lemma match_next:
  assumes "registry_match ks r" and "orderly r op"
  shows "unat (ks_next_key_id (ks_step S ks op)) = doc_calls (fst (doc_step S r op)) + 1"
  using assms next_number [of "ks_next_key_id ks"]
  by (cases op)
    (auto simp: registry_match_def ks_op_defs doc_op_defs word_le_nat_alt dom_def Let_def split: option.splits)

lemma match_step:
  "registry_match ks r \<Longrightarrow> orderly r op \<Longrightarrow> registry_match (ks_step S ks op) (fst (doc_step S r op))"
  using match_keys [of ks r op S] match_next [of ks r op S] by (simp add: registry_match_def ks_step_inv)

lemma match_run:
  "registry_match ks r \<Longrightarrow> orderly_run S r ops \<Longrightarrow>
   registry_match (foldl (ks_step S) ks ops) (fst (doc_run S r ops)) \<and> ks_answers S ks ops = snd (doc_run S r ops)"
  by (induction ops arbitrary: ks r) (auto simp: match_step match_answer split_beta)

lemma match_observers:
  assumes "registry_match ks r"
  shows "get_key ks i = doc_get_key r i" "get_key_info ks i = doc_get_key_info r i" "is_trusted ks i = doc_is_trusted r i"
    "set (get_all_key_ids ks) = doc_get_all_key_ids r" "distinct (get_all_key_ids ks)" "ks_count ks = doc_count r"
proof -
  from assms have m: "map_of (ks_keys ks) = doc_keys r" "distinct (map fst (ks_keys ks))"
    by (simp_all add: registry_match_def ks_inv_def)
  then have d: "dom (doc_keys r) = fst ` set (ks_keys ks)" by (metis dom_map_of_conv_image_fst)
  show "get_key ks i = doc_get_key r i" "get_key_info ks i = doc_get_key_info r i" "is_trusted ks i = doc_is_trusted r i"
    using m by (auto simp: get_key_def doc_get_key_def get_key_info_def doc_get_key_info_def is_trusted_def
        doc_is_trusted_def split: option.splits)
  show "set (get_all_key_ids ks) = doc_get_all_key_ids r" "distinct (get_all_key_ids ks)"
    using m d by (simp_all add: get_all_key_ids_def doc_get_all_key_ids_def)
  show "ks_count ks = doc_count r"
    using m(2) d distinct_card [OF m(2)] by (simp add: ks_count_def doc_count_def)
qed

text \<open>
  (C16) The registry keeps what its header promises: from a new registry and through any orderly sequence of calls,
  every call is answered as documented (automatic numbers 1, 2, 3 and so on, a chosen number refused exactly when it is in
  use, a signature accepted exactly for a present and enabled key), and afterwards each lookup, the list of numbers,
  without repetition, and the count are those of the documented registry, time stamps included.
\<close>

theorem registry_follows_header:
  assumes "orderly_run S registry_empty ops"
  shows "let ks = foldl (ks_step S) ks_new ops; (r, answers) = doc_run S registry_empty ops in
    ks_answers S ks_new ops = answers \<and>
    get_key ks i = doc_get_key r i \<and> get_key_info ks i = doc_get_key_info r i \<and> is_trusted ks i = doc_is_trusted r i \<and>
    distinct (get_all_key_ids ks) \<and> set (get_all_key_ids ks) = doc_get_all_key_ids r \<and> ks_count ks = doc_count r"
  using match_run [OF registry_match_empty assms] match_observers(5)
  by (fastforce simp: match_observers split_beta Let_def)

theorem registry_follows_header_witness:
  "ks_answers demo_sodium ks_new
     [Register 5 [1] ''d'' [], Register 6 [2] [] [], Remove 1, Register_id 7 1 [3] [] [], Verify 8 2 [9] [2, 9], Set_enabled 2 False,
      Verify 9 2 [9] [2, 9]] =
   [Number 1, Number 2, Flag True, Flag True, Flag True, Flag True, Flag False]"
proof -
  let ?ops = "[Register 5 [1] ''d'' [], Register 6 [2] [] [], Remove 1, Register_id 7 1 [3] [] [], Verify 8 2 [9] [2, 9],
      Set_enabled 2 False, Verify 9 2 [9] [2, 9]]"
  have "orderly_run demo_sodium registry_empty ?ops"
    by (simp add: doc_op_defs registry_empty_def Let_def)
  then have "ks_answers demo_sodium ks_new ?ops = snd (doc_run demo_sodium registry_empty ?ops)"
    using registry_follows_header [of demo_sodium ?ops 0] unfolding split_beta Let_def by blast
  then show ?thesis
    by (simp add: doc_op_defs registry_empty_def new_key_def verify_def demo_sodium_def Let_def)
qed

text \<open>
  Where the automatic numbers depart from the header: a chosen number at or above the counter makes the next automatic
  number jump past it, and clearing the registry makes the numbers start again at 1, so that a number can be handed out
  twice and name two different keys.
\<close>

theorem chosen_number_jumps:
  assumes "get_key_info ks i = None" and "ks_next_key_id ks \<le> i"
  shows "snd (register_key now (fst (register_key_id now ks i pk d a)) pk' d' a') = i + 1"
  using assms by (simp add: register_key_id_def register_key_def get_key_info_def Let_def)

theorem clear_reuses_numbers:
  "snd (register_key now (ks_clear ks) pk d a) = 1 \<and>
   get_key_info (fst (register_key now (ks_clear ks) pk d a)) 1 = Some (new_key now pk 1 d a)"
  by (simp add: register_key_def ks_clear_def get_key_info_def alist_simps Let_def)

end
