(* ===== verification/Queue_Spec.thy ===== *)
theory Queue_Spec
  imports Demos
begin

text \<open>
  The work queue that \<^verbatim>\<open>include/metricmq/queue.hpp\<close> documents, and what the queue library and the broker make of it.
  Several consumers pull from a queue, a producer pushes tasks; the header hands each task to exactly one consumer, in
  turn, while the consumers of the library all receive every task.
\<close>

section \<open>The documented queue\<close>

text \<open>Round robin: task \<open>j\<close> goes to consumer \<open>j mod n\<close> of \<open>n\<close>.\<close>

definition doc_tasks :: "session_id list \<Rightarrow> bytes list \<Rightarrow> session_id \<Rightarrow> bytes list" where
  "doc_tasks cs ts r = map ((!) ts) (filter (\<lambda>j. cs ! (j mod length cs) = r) [0..<length ts])"

lemma doc_tasks_single: "doc_tasks [r] ts r = ts"
  by (simp add: doc_tasks_def map_nth)

lemma doc_tasks_second:
  assumes "distinct (c # d # cs)" and "ts \<noteq> []"
  shows "doc_tasks (c # d # cs) ts d \<noteq> ts"
proof -
  have "[0..<length ts] = 0 # [1..<length ts]" using assms(2) by (simp add: upt_conv_Cons)
  then have "length (doc_tasks (c # d # cs) ts d) < length ts"
    using assms length_filter_le [of "\<lambda>j. (c # d # cs) ! (j mod length (c # d # cs)) = d" "[1..<length ts]"]
    by (simp add: doc_tasks_def le_imp_less_Suc) (simp add: le_less_trans)
  then show ?thesis by auto
qed

section \<open>The library's queue\<close>

text \<open>What a consumer writes before anything arrives, and the tasks its callback gets from the broker's answer.\<close>

definition consumer :: "net \<Rightarrow> (QueueConsumer, bytes list) client" where
  "consumer N = (case QueueConsumer_new N localhost 6379 io_new of (c, i) \<Rightarrow> (c, i, []))"

definition pull_request :: "net \<Rightarrow> bytes \<Rightarrow> bytes" where
  "pull_request N q = (case queue_pull N task_callback (consumer N) q [] of Some ((c, i, u), _) \<Rightarrow> io_out i | None \<Rightarrow> [])"

definition pulled_tasks :: "net \<Rightarrow> bytes \<Rightarrow> bytes \<Rightarrow> bytes list option" where
  "pulled_tasks N q stream =
     (case queue_pull N task_callback (consumer N) q [stream] of Some ((c, i, ts), None) \<Rightarrow> Some ts | _ \<Rightarrow> None)"

definition pushed :: "net \<Rightarrow> (nat \<Rightarrow> bytes option) \<Rightarrow> bytes \<Rightarrow> bytes list \<Rightarrow> bytes" where
  "pushed N replies q ts =
     io_out (snd (fst (send_each (\<lambda>k st m. queue_push N (replies k) st q m) (\<lambda>_. []) 0 (QueueProducer_new N localhost 6379 io_new) ts)))"

text \<open>The consumers \<open>cs\<close> connect and pull, then the producer connects as \<open>i\<close> and pushes.\<close>

definition queue_history :: "net \<Rightarrow> (nat \<Rightarrow> bytes option) \<Rightarrow> bytes \<Rightarrow> session_id list \<Rightarrow> session_id \<Rightarrow> bytes list \<Rightarrow> (session_id \<times> input) list" where
  "queue_history N replies q cs i ts =
     concat (map (\<lambda>r. binary_session r (pull_request N q)) cs) @ binary_session i (pushed N replies q ts)"

definition sendable_task :: "bytes \<Rightarrow> bool" where
  "sendable_task t \<longleftrightarrow> length t \<le> unat MAX_PAYLOAD_LEN"

lemma tasks_valid:
  "length t \<le> unat MAX_TOPIC_LEN \<Longrightarrow> list_all sendable_task ms \<Longrightarrow> list_all valid_frame (numbered_publishes t n ms)"
  by (induction t n ms rule: numbered_publishes.induct) (auto simp: valid_frame_eval sendable_task_def)

lemma pull_request_eq: "works N \<Longrightarrow> pull_request N q = serialize (subscribe_frame (''q:'' @ q) 1)"
  by (simp add: pull_request_def consumer_def QueueConsumer_new_def works_open queue_pull_def receive_def Let_def)
    (simp add: works_def)

lemma queue_history_eq:
  assumes "works N" and "length q < 190" and "list_all sendable_task ts"
  shows "queue_history N replies q cs i ts =
    concat (map (\<lambda>r. binary_subscribe r (''q:'' @ q)) cs) @ (i, Connect 0) # published i 0 (map (Pair (''q:'' @ q)) ts)"
proof -
  have "binary_session r (serialize (subscribe_frame (''q:'' @ q) 1)) = binary_subscribe r (''q:'' @ q)" for r
    using binary_session_eq [of "[subscribe_frame (''q:'' @ q) 1]" r] assms(2) by (simp add: binary_subscribe_def valid_frame_eval)
  moreover have "binary_session i (pushed N replies q ts) = (i, Connect 0) # published i 0 (map (Pair (''q:'' @ q)) ts)"
    using binary_session_eq [OF tasks_valid [of "''q:'' @ q" ts 0], of i] assms(2,3)
    by (simp add: pushed_def senders_out(3) [OF assms(1)] published_numbered size_defs)
  ultimately show ?thesis by (simp add: queue_history_def pull_request_eq [OF assms(1)])
qed

lemma delivered_consumers:
  assumes "length ss + length cs < MAX_CONNECTIONS" and "distinct (map fst ss @ cs)" and "CHR 0x00 \<notin> set t"
  shows "delivered J r (joined ss []) (concat (map (\<lambda>c. binary_subscribe c t) cs) @ evs) =
    delivered J r (joined (rev (map (\<lambda>c. (c, t)) cs) @ ss) []) evs"
  using assms
proof (induction cs arbitrary: ss)
  case (Cons c cs)
  then show ?case
    using Cons.IH [of "(c, t) # ss"] delivered_binary_subscribe [of ss "[]" c t J r] by simp
qed simp

lemma delivered_tasks:
  assumes "distinct (i # cs)" and "length cs < MAX_CONNECTIONS" and "CHR 0x00 \<notin> set q" and "r \<in> set cs"
  shows "delivered J r pubsub_init (concat (map (\<lambda>r. binary_subscribe r (''q:'' @ q)) cs) @ (i, Connect 0) # published i 0 (map (Pair (''q:'' @ q)) ts)) =
    map (Pair (''q:'' @ q)) ts"
proof -
  let ?t = "''q:'' @ q"
  let ?p = "joined (rev (map (\<lambda>c. (c, ?t)) cs)) [i]"
  have "matches ?p r ?t = 1" using assms(4) by (auto simp: matches_def joined_def)
  moreover have "i \<in> live ?p" by (simp add: joined_def)
  moreover have "\<not> starts_with ?t ''secure/''" by (simp add: starts_with_def)
  ultimately have "delivered J r ?p (published i 0 (map (Pair ?t) ts)) = map (Pair ?t) ts"
    using delivered_published(1) [of i ?p "map (Pair ?t) ts" J r 0 "[]"] by (simp add: comp_def)
  moreover have "i \<notin> set (map fst (rev (map (\<lambda>c. (c, ?t)) cs))) \<union> set []" using assms(1) by (simp add: rev_map comp_def)
  ultimately show ?thesis
    using delivered_consumers [of "[]" cs ?t J r] delivered_connect [of "rev (map (\<lambda>c. (c, ?t)) cs)" "[]" i J r 0] assms
    by (simp add: pubsub_init_joined del: delivered.simps(2))
qed

lemma all_pull_all:
  assumes "lmdb_engine (amb_lmdb A) eview tview" and "eview e = Map.empty" and "works N"
    and "distinct (i # cs)" and "length cs < MAX_CONNECTIONS" and "CHR 0x00 \<notin> set q" and "length q < 190"
    and "quiet_topic q" and "list_all sendable_task ts" and "r \<in> set cs"
  shows "pulled_tasks N q (stream_to A e keys (queue_history N replies q cs i ts) r) = Some ts"
proof -
  let ?t = "''q:'' @ q"
  let ?evs = "concat (map (\<lambda>r. binary_subscribe r ?t) cs) @ (i, Connect 0) # published i 0 (map (Pair ?t) ts)"
  have subs: "binary_only (concat (map (\<lambda>r. binary_subscribe r ?t) cs))" "unsigned_only (concat (map (\<lambda>r. binary_subscribe r ?t) cs))"
    "valid_history (concat (map (\<lambda>r. binary_subscribe r ?t) cs))"
    using assms(6,7,8) by (induction cs) (simp_all add: quiet_topic_def, simp_all add: unsigned_only_def)
  have "valid_history (published i 0 (map (Pair ?t) ts))"
    using assms(6,7,9) by (intro published_valid(1)) (auto simp: list_all_iff sendable_task_def size_defs)
  with subs have ok: "valid_history ?evs" "binary_only ?evs" "unsigned_only ?evs" by simp_all
  obtain c i1 where new: "QueueConsumer_new N localhost 6379 io_new = (c, i1)" by fastforce
  have cb: "task_callback u x = (u @ [x], None)" for u x by (simp add: task_callback_def)
  have all: "foldl (\<lambda>u x. u @ [x]) u xs = u @ xs" for u xs :: "bytes list" by (induction xs arbitrary: u) simp_all
  have tasks: "map snd (filter (\<lambda>m. starts_with (fst m) ''q:'') (map (Pair ?t) ts)) = ts"
    by (induction ts) (simp_all add: starts_with_def)
  note run = queue_receives [where cb = task_callback and g = "\<lambda>u x. u @ [x]" and u = "[]" and q = q and keys = keys,
      OF assms(1,2) ok assms(3) cb new delivered_tasks [OF assms(4-6,10), symmetric], unfolded tasks all]
  then show ?thesis
    unfolding queue_history_eq [OF assms(3,7,9)] pulled_tasks_def consumer_def new by fastforce
qed



end
