(* ===== verification/Spec2Isabelle.thy ===== *)
theory Spec2Isabelle
  imports Delivery Binary_Client Queue_Client Resp_Client Devices Examples Broker_Main Keygen
    Demos Benchmarks Benchmark_Threads Concurrent_Send Public_Protocol Store_Spec
    Linearization Counters Registry_Spec Queue_Spec
begin

text \<open>
  MetricMQ: a publish/subscribe broker for small devices, its client libraries and its tools.

  \<^bold>\<open>The program.\<close> Clients connect over TCP and speak either a binary protocol with a 16-byte header or the text
  protocol RESP; the broker tells them apart by the first byte. One thread per connection (\<^verbatim>\<open>src/session.cpp\<close>)
  collects bytes, cuts them into frames or commands and calls the broker (\<^verbatim>\<open>src/broker.cpp\<close>), which keeps the
  connection table, the subscriptions, the acknowledgements of named clients and a sequence counter, forwards
  messages to subscribers and stores them in LMDB (\<^verbatim>\<open>src/storage/LmdbStorage.cpp\<close>). Publishes can carry an Ed25519
  signature that is checked against a registry of trusted keys (\<^verbatim>\<open>src/crypto\<close>). Counters and histograms
  (\<^verbatim>\<open>src/metrics.cpp\<close>) are exported over HTTP (\<^verbatim>\<open>src/metrics_server.cpp\<close>), \<^verbatim>\<open>src/main.cpp\<close> starts and stops
  everything. The client libraries are \<^verbatim>\<open>src/binary_pubsub.cpp\<close>, \<^verbatim>\<open>src/pubsub.cpp\<close> and \<^verbatim>\<open>src/queue.cpp\<close>; the tools
  and devices are \<^verbatim>\<open>tools/keygen.cpp\<close>, two Arduino sketches and a PlatformIO program; \<^verbatim>\<open>examples\<close> and \<^verbatim>\<open>benchmark\<close> hold programs
  that use the libraries against a running broker.

  \<^bold>\<open>The theories\<close>, each with the sources it models:
  \<^item> \<open>Prelude\<close>: bytes, exceptions, string helpers, decimal printing, and the lemmas the components share.
  \<^item> \<open>Framing\<close>: the buffer, parse and consume loop of sessions and clients. The locale \<open>frame_codec\<close> states what a
    wire format owes the loop (round trip, progress, prefix stability) and proves once that the loop terminates and
    reassembles any stream, however it is cut.
  \<^item> \<open>Binary_Protocol\<close> (\<^verbatim>\<open>src/binary_protocol.*\<close>) and \<open>Resp_Parser\<close> (\<^verbatim>\<open>src/resp_parser.*\<close>): parsers and serializers on
    bytes, integers as words of their width; both interpret \<open>frame_codec\<close>. \<open>Public_Protocol\<close>: the installed copy of the
    declarations (\<^verbatim>\<open>include/metricmq/binary_protocol.hpp\<close>) with the frame layout and parser contract it documents.
  \<^item> \<open>Ack_Set\<close>: \<^verbatim>\<open>BoundedAckSet\<close> of \<^verbatim>\<open>src/broker.hpp\<close>, refining a bounded queue of distinct numbers.
  \<^item> \<open>Lmdb\<close>: LMDB as a record of functions with the locales \<open>lmdb_engine\<close> (documented behaviour, any call may fail)
    and \<open>lmdb_healthy\<close> (no call fails), interpreted on red-black trees. \<open>Lmdb_Storage\<close>: the storage class over it. \<open>Store_Spec\<close>: the store that
    \<^verbatim>\<open>src/storage/LmdbStorage.hpp\<close> documents, as an abstract machine.
  \<^item> \<open>Signing\<close> (\<^verbatim>\<open>src/crypto/signing.cpp\<close>), with libsodium as a record and its correctness as the locale
    \<open>sodium_correct\<close>, and \<open>Keystore\<close> (\<^verbatim>\<open>src/crypto/keystore.cpp\<close>).
  \<^item> \<open>Metrics\<close>, \<open>Metrics_Server\<close>, \<open>Logger\<close>: the sources of these names.
  \<^item> \<open>Broker\<close>: the record \<open>Broker\<close> has the class's members plus the list of all \<^verbatim>\<open>Session::send\<close> calls in order; every
    method is a function on it. \<open>broker_step\<close> is the relation of all methods, \<open>reachable\<close> its closure, \<open>broker_inv\<close>
    its invariant.
  \<^item> \<open>Session\<close>: the session object, protocol detection, both command handlers, the run loop over arbitrary \<^verbatim>\<open>recv\<close>
    outcomes, the exception barrier and the clean-up. \<open>Concurrent_Send\<close>: several threads in \<^verbatim>\<open>Session::send\<close> for one
    session, as interleaved \<^verbatim>\<open>::send\<close> calls.
  \<^item> \<open>Server\<close>: all connections together, as a state machine driven by any interleaving of connects, frames,
    commands, disconnects and the shutdown request. \<open>Pubsub_Spec\<close>: the abstract publish/subscribe machine and the
    refinement. \<open>Output_Spec\<close>: the same machine with outputs, for plain, signed and text traffic. \<open>Delivery\<close>: what the
    client libraries make of these outputs, and the scenarios and verdicts of \<^verbatim>\<open>examples/exactly_once_test.cpp\<close>.
  \<^item> \<open>Handler_Steps\<close>: the handlers cut into the steps between which other threads may run. \<open>Threads\<close>: all session threads,
    each with the steps it has left, under any schedule. \<open>Linearization\<close>: such runs against the server of whole requests.
  \<^item> \<open>Registry_Spec\<close>, \<open>Counters\<close>, \<open>Queue_Spec\<close>: the key registry of \<^verbatim>\<open>include/metricmq/crypto.hpp\<close>, the meaning of the counters
    of \<^verbatim>\<open>include/metricmq/metrics.hpp\<close> and the work queue of \<^verbatim>\<open>include/metricmq/queue.hpp\<close>, each as these headers document it.
  \<^item> \<open>Net_Client\<close>: sockets as a parameter, the connection set-up, and the clients' receive loop (locale
    \<open>client_codec\<close>, an extension of \<open>frame_codec\<close>). \<open>Binary_Client\<close>, \<open>Resp_Client\<close>, \<open>Queue_Client\<close>: the six client classes.
  \<^item> \<open>Broker_Main\<close>: \<^verbatim>\<open>main\<close> as a program counter with signals between any two statements.
  \<^item> \<open>Keygen\<close>, \<open>Devices\<close>, \<open>Examples\<close>: the key generator, the sketches and the PlatformIO program, the signing examples and the
    size formulas. \<open>Demos\<close>: the programs of \<^verbatim>\<open>examples\<close> that talk to a broker. \<open>Benchmarks\<close>: the storage, throughput and
    protocol benchmarks. \<open>Benchmark_Threads\<close>: the benchmarks with several threads, as interleaved lists of statements.
  \<^item> This theory: the properties that join a client library, the broker and another client.

  \<^bold>\<open>What is shown.\<close>
  \<^item> End to end: what one client library sends reaches the callback of the other once per subscription, signed or
    not; the client id survives the handshake (this theory).
  \<^item> The broker refines the abstract machine under every interleaving, so subscriptions of one client are never
    disturbed by another, and each publish is sent once per matching subscription (\<open>Pubsub_Spec\<close>). The bytes on each
    connection are exactly the frames and text replies the machine prescribes, in order (\<open>Output_Spec\<close>); what the
    callbacks of the client libraries get follows, with the verdicts of the delivery tests, and that one message in the
    other protocol silences a subscriber (\<open>Delivery\<close>). The example programs print what their counterparts send (\<open>Demos\<close>).
  \<^item> Threads: the steps of the handlers, run through, are the handlers, and each thread comes to the end of its handler
    (\<open>Handler_Steps\<close>). Under any interleaving of single steps the broker stays reachable and every effect is that of
    the abstract machine (\<open>Threads\<close>); whole requests can be put in one order that explains all messages and replies
    (\<open>Linearization\<close>), unless a key is removed while the publish it signs is being checked.
  \<^item> Concurrent sends to one client put exactly the interleavings of their bytes on its connection: harmless when the
    kernel takes each message whole, a forged message when it does not (\<open>Concurrent_Send\<close>).
  \<^item> Codecs: round trips, exactness of acceptance, totality, blocking on malformed headers, and the documented layout and
    parser contract.
  \<^item> Invariants: connection table, topics, acknowledgement caches and gauges; the key space of the store; and the
    process with its signals.
  \<^item> Access control: when a publish passes, lasting revocation, the documented registry, and the three ways around it
    that the code leaves open (text clients, the moved topic boundary, and a key removed halfway).
  \<^item> Metrics: exact histograms, and the exact value of every counter, three of which are not what the header says.
  \<^item> Queues: every consumer gets every task, so that the documented round robin needs a single consumer.
  \<^item> Persistence: atomic saves, compaction windows, restart of counter and acknowledgements; and that replay never
    delivers anything, because topic and payload are stored without a separator. \<open>Store_Spec\<close>: the store refines its
    documentation in everything but range reads.
  \<^item> Devices and tools: which sketches the broker understands, the printed keys, the size formulas.
  \<^item> Benchmarks: what the writing ones store and send; that the reading ones read nothing, that two latency benchmarks
    never finish, and that the subscriber benchmarks wait for their connections to end.

  \<^bold>\<open>Choices.\<close> Each section under the broker's mutex is one atomic step, and so is each section under the registry's, each
  read of the store outside them (one LMDB snapshot) and each \<^verbatim>\<open>Session::send\<close>. \<open>Session\<close>, \<open>Server\<close>, \<open>Pubsub_Spec\<close>, \<open>Output_Spec\<close> and \<open>Delivery\<close>
  compose them to whole handlers that run one after the other; \<open>Handler_Steps\<close>, \<open>Threads\<close>, \<open>Linearization\<close> and \<open>Counters\<close> interleave the
  single steps. The linearization covers text subscriptions to one topic per command, an untouched registry and topics
  for which nothing is replayed; the refinement of \<open>Threads\<close> and the counters need none of this. Loops are recursive functions:
  structural ones by \<^theory_text>\<open>fun\<close>, the receive loop by \<^theory_text>\<open>partial_function\<close> with totality proved for both codecs, so no fuel
  is used anywhere. An exception is a value of the type \<open>exn\<close>, a failed system call the source's early return.
  Parameters, never defined here: LMDB, libsodium, the socket calls, Poco's server, spdlog's sinks, the Arduino
  environment and its device library, the iteration order of hash tables, clocks and measured latencies. A message
  handed to \<^verbatim>\<open>Session::send\<close> is recorded as sent; whether the socket takes it all and in one piece is the subject of \<open>send_loop\<close>
  and \<open>Concurrent_Send\<close> alone.

  \<^bold>\<open>Not modelled\<close>: placeholder headers without behaviour; console banners and log texts; sleeps, times and rates; the
  Windows socket start-up. Of what the code shares outside its mutexes, the sends of one session and the two look-ups of a
  key are modelled; not modelled are accesses that C++ leaves undefined when they race, such as \<^verbatim>\<open>Broker::stop\<close> closing
  the store under a running request, because no sequence of steps describes them.
\<close>

section \<open>From publisher to subscriber\<close>

lemma serialize_Cons: "\<exists>r. serialize f = char_of_byte (frame_version f) # r"
  by (simp add: serialize_split frame_header_def)

lemma detect_binary: "frame_version f = BINARY_PROTOCOL_VERSION \<Longrightarrow> detectProtocol (serialize f) = BINARY"
proof -
  assume v: "frame_version f = BINARY_PROTOCOL_VERSION"
  have "char_of_byte BINARY_PROTOCOL_VERSION = CHR 0x01"
    by (simp add: char_of_byte_def BINARY_PROTOCOL_VERSION_def char_of_eq_iff)
  moreover have "byte_of_char CHR 0x01 = BINARY_PROTOCOL_VERSION"
    by (simp add: byte_of_char_def BINARY_PROTOCOL_VERSION_def)
  ultimately show ?thesis using serialize_Cons [of f] v by (auto simp: detectProtocol_def)
qed

lemma one_frame_loop:
  assumes "valid_frame f" and "h s f = (s', None)"
  shows "recv_loop parse h s (serialize f) = Some (s', [], None)"
  using parse_serialize_gen [OF assms(1), of "[]"] binary_codec.render_not_Nil [OF assms(1)] assms(2)
  by (simp add: recv_loop_step)

text \<open>One whole frame arriving on an idle connection that is not a text one.\<close>

lemma on_data_frame:
  assumes "valid_frame f" and "length (serialize f) \<le> MAX_RECV_BUFFER" and "recv_buffer ses = []"
    and "protocol_type ses \<noteq> RESP"
    and "handleBinaryFrame A (ses\<lparr>last_activity := now, recv_buffer := serialize f, protocol_type := BINARY\<rparr>, sys) f =
      ((ses', sys'), None)"
  shows "on_data A (ses, sys) now (serialize f) = Some ((ses'\<lparr>recv_buffer := []\<rparr>, sys'), Waiting)"
proof -
  let ?ses = "ses\<lparr>last_activity := now, recv_buffer := serialize f, protocol_type := BINARY\<rparr>"
  have "frame_version f = BINARY_PROTOCOL_VERSION" using assms(1) by (simp add: valid_frame_def)
  then have det: "detectProtocol (serialize f) = BINARY" by (rule detect_binary)
  have "recv_loop parse (handleBinaryFrame A) (?ses, sys) (serialize f) = Some ((ses', sys'), [], None)"
    by (rule one_frame_loop [where h = "handleBinaryFrame A", OF assms(1,5)])
  then have drained: "drain A (?ses, sys) = Some ((ses', sys'), [], None)" by (simp add: drain_def)
  have "ses\<lparr>last_activity := now, recv_buffer := serialize f\<rparr> = ?ses" if "protocol_type ses = BINARY"
    using that by (cases ses) simp
  with drained det assms(2-4) show ?thesis
    by (cases "protocol_type ses") (simp_all add: on_data_def Let_def)
qed

text \<open>What the broker sends when the unsigned publish \<open>q\<close> of a session is accepted.\<close>

definition publish_sent :: "bytes \<Rightarrow> bytes \<Rightarrow> uint64 \<Rightarrow> Session \<Rightarrow> 'e Broker \<Rightarrow> (session_id \<times> bytes) list" where
  "publish_sent t p q ses b =
     map (\<lambda>s. (s, serialize (message_frame t p (ses_sequence ses + 1)))) (subscribers b t @ subscribers b ''#'') @
     [(ses_id ses, serialize (ack_frame q))]"

lemma publish_on_data:
  assumes "valid_frame (publish_frame t p q)" and "\<not> starts_with t ''secure/''"
    and "length (serialize (publish_frame t p q)) \<le> MAX_RECV_BUFFER"
    and "recv_buffer ses = []" and "protocol_type ses \<noteq> RESP"
  shows "\<exists>ses' sys'. on_data A (ses, sys) now (serialize (publish_frame t p q)) = Some ((ses', sys'), Waiting) \<and>
    recv_buffer ses' = [] \<and> sent (sys_broker sys') = sent (sys_broker sys) @ publish_sent t p q ses (sys_broker sys) \<and>
    current_sequence (sys_broker sys') = current_sequence (sys_broker sys) + 1"
proof -
  let ?f = "publish_frame t p q"
  let ?ses = "ses\<lparr>last_activity := now, recv_buffer := serialize ?f, protocol_type := BINARY\<rparr>"
  obtain ses' sys' x where h: "handleBinaryFrame A (?ses, sys) ?f = ((ses', sys'), x)" by (metis surj_pair)
  have "frame_command ?f = CMD_PUBLISH" "frame_topic ?f = t" "frame_payload ?f = p" "frame_sequence ?f = q"
    by (simp_all add: frame_defs)
  with h assms(2) have "x = None"
      "sent (sys_broker sys') = sent (sys_broker sys) @ publish_sent t p q ses (sys_broker sys)"
      "current_sequence (sys_broker sys') = current_sequence (sys_broker sys) + 1"
    by (auto simp: handleBinaryFrame_def on_publish_def sendBinary_def send_to_def publish_eq publish_sent_def Let_def)
  with on_data_frame [OF assms(1,3-5)] h show ?thesis by fastforce
qed

lemma valid_message: "valid_frame (publish_frame t p q) \<Longrightarrow> valid_frame (message_frame t p n)"
  by (simp add: valid_frame_def frame_defs is_signed_cmd_def command_of_byte_def)

lemma wire_publish:
  "r \<noteq> ses_id ses \<Longrightarrow> wire r (publish_sent t p q ses b) =
     concat (map serialize (replicate (count_list (subscribers b t @ subscribers b ''#'') r) (message_frame t p (ses_sequence ses + 1))))"
  unfolding publish_sent_def by (rule wire_forward)

text \<open>
  End to end: when the bytes of an unsigned publish arrive on a fresh or binary connection, every
  session subscribed to the topic (or to \<^verbatim>\<open>#\<close>) is sent bytes that parse as a \<^verbatim>\<open>MESSAGE\<close> frame with exactly
  that topic and payload, the publisher is sent the acknowledgement of its frame number, and the
  connection goes on with an empty buffer.
\<close>

theorem publish_reaches_subscribers:
  assumes "valid_frame (publish_frame t p q)" and "\<not> starts_with t ''secure/''"
    and "length (serialize (publish_frame t p q)) \<le> MAX_RECV_BUFFER"
    and "recv_buffer ses = []" and "protocol_type ses \<noteq> RESP"
    and "r \<in> set (subscribers (sys_broker sys) t) \<union> set (subscribers (sys_broker sys) ''#'')"
  shows "\<exists>ses' sys' m. on_data A (ses, sys) now (serialize (publish_frame t p q)) = Some ((ses', sys'), Waiting) \<and>
    recv_buffer ses' = [] \<and>
    (r, m) \<in> set (drop (length (sent (sys_broker sys))) (sent (sys_broker sys'))) \<and>
    parse m = Inr (Some (message_frame t p (ses_sequence ses + 1), length m)) \<and>
    (ses_id ses, serialize (ack_frame q)) \<in> set (drop (length (sent (sys_broker sys))) (sent (sys_broker sys')))"
proof -
  define m where "m = serialize (message_frame t p (ses_sequence ses + 1))"
  obtain ses' sys' where d: "on_data A (ses, sys) now (serialize (publish_frame t p q)) = Some ((ses', sys'), Waiting)"
      "recv_buffer ses' = []" and out: "sent (sys_broker sys') = sent (sys_broker sys) @ publish_sent t p q ses (sys_broker sys)"
    using publish_on_data [OF assms(1-5)] by blast
  have "valid_frame (message_frame t p (ses_sequence ses + 1))" using assms(1) by (rule valid_message)
  then have "parse m = Inr (Some (message_frame t p (ses_sequence ses + 1), length m))"
    using parse_serialize_gen [of "message_frame t p (ses_sequence ses + 1)" "[]"] by (simp add: m_def)
  moreover have "(r, m) \<in> set (publish_sent t p q ses (sys_broker sys))"
    "(ses_id ses, serialize (ack_frame q)) \<in> set (publish_sent t p q ses (sys_broker sys))"
    using assms(6) by (auto simp: publish_sent_def m_def)
  ultimately show ?thesis using d out by auto
qed

definition demo_subscribed :: "tree system" where
  "demo_subscribed = (demo_system ks_new)\<lparr>sys_broker := subscribe_locked demo_broker 7 ''t''\<rparr>"

theorem publish_reaches_subscribers_witness:
  "\<exists>ses' sys' m. on_data demo_ambient (session_new 3 0, demo_subscribed) 1 (serialize (publish_frame ''t'' ''x'' 9)) =
     Some ((ses', sys'), Waiting) \<and> (7, m) \<in> set (drop (length (sent (sys_broker demo_subscribed))) (sent (sys_broker sys')))"
proof -
  have v: "valid_frame (publish_frame ''t'' ''x'' 9)" by (simp add: valid_frame_eval)
  have "7 \<in> set (subscribers (sys_broker demo_subscribed) ''t'')"
    by (simp add: demo_subscribed_def subscribe_locked_def update_metrics_def subscribers_def demo_broker_def
        accept_step_def broker_new_def update_conv' Let_def)
  with publish_reaches_subscribers [OF v, of "session_new 3 0" 7 demo_subscribed demo_ambient 1] v show ?thesis
    by (auto simp: session_new_def starts_with_def length_serialize calculateFrameSize_def frame_defs size_defs
        is_signed_cmd_def MAX_RECV_BUFFER_def)
qed

section \<open>Client libraries against the broker\<close>


lemma demo_subscribers: "subscribers (sys_broker demo_subscribed) t = (if t = ''t'' then [7] else [])"
  by (simp add: demo_subscribed_def subscribe_locked_def update_metrics_def subscribers_def demo_broker_def
      accept_step_def broker_new_def update_conv' set_add_def Let_def)

definition demo_publisher :: BinaryPublisher where
  "demo_publisher = fst (BinaryPublisher_new demo_net ''127.0.0.1'' 6379 io_new)"

definition demo_subscriber :: BinarySubscriber where
  "demo_subscriber = fst (BinarySubscriber_new demo_net ''127.0.0.1'' 6379 io_new)"

lemma demo_socks: "pub_sock demo_publisher = 3" "sub_sock demo_subscriber = 3" "pub_sequence demo_publisher = 0"
  by (simp_all add: demo_publisher_def demo_subscriber_def BinaryPublisher_new_def BinarySubscriber_new_def
      open_connection_def demo_net_def Let_def)


text \<open>The two broker calls of an identified subscription: neither throws, and what they leave behind.\<close>

lemma client_subscription:
  assumes "lmdb_engine L eview tview" and "store_inv (eview e)" and "reachable L ord lat e b"
  obtains b2 b3 where "subscribe L b i t = (b2, None)" "replayMessagesForClient L b2 i t c = (b3, None)"
    "client_sessions b3 = client_sessions b" "topic_subscribers b3 = topic_subscribers (subscribe_locked b i t)"
proof -
  let ?b = "subscribe_locked b i t"
  have "store_sat (\<lambda>e. store_inv (eview e)) b" by (rule lmdb_engine.reachable_store_inv [OF assms(1,3,2)])
  then have ok: "store_sat (\<lambda>e. store_inv (eview e)) ?b" by (simp add: store_sat_def)
  obtain out2 where 2: "subscribe L b i t = (?b\<lparr>sent := sent ?b @ out2\<rparr>, None)"
    using replay_eq [of L ?b i t 0] lmdb_engine.replay_no_throw(1) [OF assms(1) ok, of i t 0]
    by (metis prod.collapse subscribe_def)
  let ?b2 = "?b\<lparr>sent := sent ?b @ out2\<rparr>"
  have ok2: "store_sat (\<lambda>e. store_inv (eview e)) ?b2" using ok by (simp add: store_sat_def)
  obtain out3 where 3: "replayMessagesForClient L ?b2 i t c = (?b2\<lparr>sent := sent ?b2 @ out3\<rparr>, None)"
    using replay_client_eq [of L ?b2 i t c] lmdb_engine.replay_no_throw(2) [OF assms(1) ok2, of i t c]
    by (metis prod.collapse)
  have "client_sessions ?b = client_sessions b" by (simp add: subscribe_locked_def update_metrics_def Let_def)
  then show ?thesis by (intro that [OF 2 3]) simp_all
qed

lemma handle_subscribe_client:
  assumes "frame_command f = CMD_SUBSCRIBE" and "frame_topic f = c @ CHR 0x00 # t" and "CHR 0x00 \<notin> set c"
    and "subscribe (amb_lmdb A) (registerClient (amb_lmdb A) (amb_order A) (sys_broker sys) c (ses_id ses)) (ses_id ses) t = (b2, None)"
    and "replayMessagesForClient (amb_lmdb A) b2 (ses_id ses) t c = (b3, None)"
  shows "handleBinaryFrame A (ses, sys) f =
    ((ses\<lparr>client_id := c\<rparr>, sendBinary ses (ack_frame (frame_sequence f)) (sys\<lparr>sys_tick := sys_tick sys + 1, sys_broker := b3\<rparr>)), None)"
  using assms by (simp add: handleBinaryFrame_def on_subscribe_def str_find_mid with_broker_def sendBinary_def)

text \<open>
  (C19) The identity handshake: a \<^verbatim>\<open>BinarySubscriber\<close> with a client id (without NUL bytes) embeds it in the topic
  field, and the broker takes it apart again. After the bytes of its \<^verbatim>\<open>SUBSCRIBE\<close> frame arrived, whatever LMDB
  calls fail, the session carries exactly that client id, the client is registered under the session, the
  session is subscribed to exactly the topic asked for, and the last thing sent to it is the confirmation.
\<close>

theorem subscribe_identity:
  assumes "lmdb_engine (amb_lmdb A) eview tview" and "store_inv (eview e)"
    and "reachable (amb_lmdb A) (amb_order A) (amb_latency A) e (sys_broker sys)"
    and "ses_id ses \<in> set (b_sessions (sys_broker sys))" and "recv_buffer ses = []" and "protocol_type ses \<noteq> RESP"
    and "sends_all N" and "sub_client_id s \<noteq> []" and "CHR 0x00 \<notin> set (sub_client_id s)"
    and "length (sub_client_id s) + length t < unat MAX_TOPIC_LEN"
  shows "\<exists>ses' sys'. on_data A (ses, sys) now (io_out (snd (send_subscribe N s t ack io_new))) = Some ((ses', sys'), Waiting) \<and>
    client_id ses' = sub_client_id s \<and> map_of (client_sessions (sys_broker sys')) (sub_client_id s) = Some (ses_id ses) \<and>
    ses_id ses \<in> set (subscribers (sys_broker sys') t) \<and>
    (\<forall>u. u \<noteq> t \<longrightarrow> subscribers (sys_broker sys') u = subscribers (sys_broker sys) u) \<and>
    last (sent (sys_broker sys')) = (ses_id ses, serialize (ack_frame (sub_sequence s + 1)))"
proof -
  let ?c = "sub_client_id s" and ?q = "sub_sequence s + 1" and ?i = "ses_id ses"
  define f where "f = subscribe_frame (?c @ CHR 0x00 # t) ?q"
  let ?ses = "ses\<lparr>last_activity := now, recv_buffer := serialize f, protocol_type := BINARY\<rparr>"
  let ?b1 = "registerClient (amb_lmdb A) (amb_order A) (sys_broker sys) ?c ?i"
  have f: "frame_command f = CMD_SUBSCRIBE" "frame_topic f = ?c @ CHR 0x00 # t" "frame_sequence f = ?q"
    by (simp_all add: f_def frame_defs)
  have v: "valid_frame f" using assms(10) by (simp add: f_def valid_frame_eval)
  have len: "length (serialize f) \<le> MAX_RECV_BUFFER"
    using assms(10) v by (simp add: f_def length_serialize calculateFrameSize_def frame_defs size_defs is_signed_cmd_def MAX_RECV_BUFFER_def)
  have bytes: "io_out (snd (send_subscribe N s t ack io_new)) = serialize f"
    using assms(7,8) by (simp add: send_subscribe_def subscribe_topic_def io_new_def f_def)
  have "reachable (amb_lmdb A) (amb_order A) (amb_latency A) e ?b1"
    by (rule reachable_step [OF assms(3) step_register [OF assms(4)]])
  then obtain b2 b3 where s2: "subscribe (amb_lmdb A) ?b1 ?i t = (b2, None)"
      and s3: "replayMessagesForClient (amb_lmdb A) b2 ?i t ?c = (b3, None)"
      and b3: "client_sessions b3 = client_sessions ?b1" "topic_subscribers b3 = topic_subscribers (subscribe_locked ?b1 ?i t)"
    by (rule client_subscription [OF assms(1,2)])
  let ?ses' = "?ses\<lparr>client_id := ?c\<rparr>"
  let ?sys' = "sendBinary ?ses (ack_frame ?q) (sys\<lparr>sys_tick := sys_tick sys + 1, sys_broker := b3\<rparr>)"
  have "handleBinaryFrame A (?ses, sys) f = ((?ses', ?sys'), None)"
    using handle_subscribe_client [OF f(1,2) assms(9), of A sys ?ses b2 b3] s2 s3 f(3) by simp
  from on_data_frame [OF v len assms(5,6) this] bytes
  have "on_data A (ses, sys) now (io_out (snd (send_subscribe N s t ack io_new))) =
      Some ((?ses'\<lparr>recv_buffer := []\<rparr>, ?sys'), Waiting)" by simp
  moreover have "map_of (client_sessions b3) ?c = Some ?i" "?i \<in> set (subscribers b3 t)"
    "\<And>u. u \<noteq> t \<Longrightarrow> subscribers b3 u = subscribers (sys_broker sys) u"
    by (simp_all add: b3 registerClient_def subscribe_locked_def update_metrics_def subscribers_def update_conv' Let_def
        split: option.split)
  ultimately show ?thesis
    by (intro exI [of _ "?ses'\<lparr>recv_buffer := []\<rparr>"] exI [of _ ?sys']) (simp add: sendBinary_def send_to_def)
qed

theorem subscribe_identity_witness:
  "\<exists>ses' sys'. on_data demo_ambient (session_new 7 0, demo_system ks_new) 1
       (io_out (snd (send_subscribe demo_net (setClientId demo_subscriber ''dev'') ''t'' True io_new))) = Some ((ses', sys'), Waiting) \<and>
     client_id ses' = ''dev'' \<and> 7 \<in> set (subscribers (sys_broker sys') ''t'')"
proof -
  have "lmdb_engine (amb_lmdb demo_ambient) RBT.lookup RBT.lookup" by (rule demo_engine)
  moreover have "store_inv (RBT.lookup RBT.empty)" by simp
  ultimately show ?thesis
    using subscribe_identity [OF _ _ demo_reachable, of RBT.lookup RBT.lookup "session_new 7 0" ks_new demo_net
        "setClientId demo_subscriber ''dev''" "''t''" 1 True]
    by (auto simp: demo_system_def demo_sessions session_new_def setClientId_def size_defs)
qed

lemma signed_on_data:
  assumes "valid_frame f" and "frame_command f = CMD_SIGNED_PUBLISH" and "length (serialize f) \<le> MAX_RECV_BUFFER"
    and "recv_buffer ses = []" and "protocol_type ses \<noteq> RESP"
    and "get_key_info (sys_keys sys) (frame_key_id f) = Some tk" and "tk_enabled tk"
    and "verify (amb_sodium A) (map byte_of_char (frame_topic f @ frame_payload f)) (frame_signature f) (tk_public_key tk)"
    and "tk_allowed_topics tk = [] \<or> topic_allowed (tk_allowed_topics tk) (frame_topic f)"
  shows "\<exists>ses' sys'. on_data A (ses, sys) now (serialize f) = Some ((ses', sys'), Waiting) \<and>
    sent (sys_broker sys') = sent (sys_broker sys) @
      (map (\<lambda>s. (s, serialize (signed_message_frame (frame_topic f) (frame_payload f) (frame_signature f) (frame_key_id f) (ses_sequence ses + 1))))
        (subscribers (sys_broker sys) (frame_topic f) @ subscribers (sys_broker sys) ''#'') @
       [(ses_id ses, serialize (ack_frame (frame_sequence f)))])"
proof -
  let ?ses = "ses\<lparr>last_activity := now, recv_buffer := serialize f, protocol_type := BINARY\<rparr>"
  obtain ses' sys' x where h: "handleBinaryFrame A (?ses, sys) f = ((ses', sys'), x)" by (metis surj_pair)
  note out = signed_publish_sent [OF assms(2,6-9) h]
  then have "on_data A (ses, sys) now (serialize f) = Some ((ses'\<lparr>recv_buffer := []\<rparr>, sys'), Waiting)"
    using h by (intro on_data_frame [OF assms(1,3-5)]) simp
  with out show ?thesis by auto
qed

text \<open>
  (C11) Signed messages from one client library to the other: a device configured with its generated key pair calls
  \<^verbatim>\<open>sendSigned\<close>; when its public key is registered, enabled and allowed on the topic, the broker accepts the bytes
  and a subscriber that uses \<^verbatim>\<open>subscribeSigned\<close> gets the topic, the payload, the key number and the device's own
  signature, so it can check it again. libsodium is assumed to verify its own signatures, which have 64 bytes.
\<close>

theorem signed_publisher_to_subscriber:
  assumes "sodium_correct (amb_sodium A)" and "\<forall>m k. length (crypto_sign_detached (amb_sodium A) m k) = SIGNATURE_SIZE"
    and "get_key_info (sys_keys sys) kid = Some tk" and "tk_public_key tk = public_key (generate_keypair (amb_sodium A) rnd)"
    and "tk_enabled tk" and "tk_allowed_topics tk = [] \<or> topic_allowed (tk_allowed_topics tk) t"
    and "sends_all N" and "pub_sock pub \<noteq> -1" and "sub_sock s \<noteq> -1"
    and "length t \<le> unat MAX_TOPIC_LEN" and "length p + length t + 84 \<le> MAX_RECV_BUFFER"
    and "recv_buffer ses = []" and "protocol_type ses \<noteq> RESP" and "r \<noteq> ses_id ses"
  shows "\<exists>ses' sys'. on_data A (ses, sys) now (io_out (snd (fst (sendSigned (amb_sodium A) N reply
        (setSigningKey pub (secret_key (generate_keypair (amb_sodium A) rnd)) kid, io_new) t p)))) = Some ((ses', sys'), Waiting) \<and>
    (\<forall>chunks. concat chunks = wire r (drop (length (sent (sys_broker sys))) (sent (sys_broker sys'))) \<longrightarrow>
       (\<exists>s' i'. subscribeSigned N info_callback (s, i, []) topic ack chunks =
          Some ((s', i', replicate (count_list (subscribers (sys_broker sys) t) r + count_list (subscribers (sys_broker sys) ''#'') r)
            \<lparr>info_topic = t, info_payload = p, info_is_signed = True, info_key_id = kid,
             info_signature = sign (amb_sodium A) (map byte_of_char (t @ p)) (secret_key (generate_keypair (amb_sodium A) rnd)),
             info_sequence = ses_sequence ses + 1\<rparr>), None)))"
proof -
  let ?S = "amb_sodium A" and ?b = "sys_broker sys"
  define secret where "secret = secret_key (generate_keypair ?S rnd)"
  define sig where "sig = sign ?S (map byte_of_char (t @ p)) secret"
  define f where "f = signed_publish_frame t p sig kid (pub_sequence pub + 1)"
  define m where "m = signed_message_frame t p sig kid (ses_sequence ses + 1)"
  let ?k = "count_list (subscribers ?b t) r + count_list (subscribers ?b ''#'') r"
  have "length sig = SIGNATURE_SIZE" using assms(2) by (simp add: sig_def sign_def)
  then have v: "valid_frame f" "valid_frame m"
    using assms(10,11) by (simp_all add: f_def m_def valid_frame_eval MAX_RECV_BUFFER_def)
  have len: "length (serialize f) \<le> MAX_RECV_BUFFER"
    using assms(11) v(1) by (simp add: f_def length_serialize calculateFrameSize_def frame_defs size_defs is_signed_cmd_def)
  have ff: "frame_command f = CMD_SIGNED_PUBLISH" "frame_topic f = t" "frame_payload f = p" "frame_signature f = sig" "frame_key_id f = kid"
    by (simp_all add: f_def frame_defs)
  have "verify ?S (map byte_of_char (t @ p)) sig (tk_public_key tk)"
    using sodium_correct.random_pair [OF assms(1), of rnd] assms(4)
    by (auto simp: sig_def secret_def sign_def verify_def generate_keypair_def split: prod.splits)
  then obtain ses' sys' where d: "on_data A (ses, sys) now (serialize f) = Some ((ses', sys'), Waiting)"
      and out: "sent (sys_broker sys') = sent ?b @ (map (\<lambda>s. (s, serialize m)) (subscribers ?b t @ subscribers ?b ''#'') @
        [(ses_id ses, serialize (ack_frame (frame_sequence f)))])"
    using signed_on_data [OF v(1) ff(1) len assms(12,13), of sys tk A] assms(3,5,6) unfolding ff m_def by blast
  have bytes: "io_out (snd (fst (sendSigned ?S N reply (setSigningKey pub secret kid, io_new) t p))) = serialize f"
    using signed_send [OF assms(7,8), of ?S reply secret kid io_new t p] assms(7) by (auto simp: io_new_def f_def sig_def)
  have w: "wire r (drop (length (sent ?b)) (sent (sys_broker sys'))) = concat (map serialize (replicate ?k m))"
    unfolding out using wire_forward [OF assms(14), of m "subscribers ?b t @ subscribers ?b ''#''"] by simp
  have vs: "list_all valid_frame (replicate ?k m)" using v(2) by (simp add: list_all_iff)
  have infos: "map message_info (filter is_message (replicate ?k m)) =
      replicate ?k \<lparr>info_topic = t, info_payload = p, info_is_signed = True, info_key_id = kid, info_signature = sig,
        info_sequence = ses_sequence ses + 1\<rparr>"
    by (simp add: m_def is_message_def message_info_def frame_defs)
  have "\<exists>s' i'. subscribeSigned N info_callback (s, i, []) topic ack chunks =
      Some ((s', i', map message_info (filter is_message (replicate ?k m))), None)"
    if "concat chunks = wire r (drop (length (sent ?b)) (sent (sys_broker sys')))" for chunks
    using signed_subscriber_delivers [OF assms(7,9) vs, of chunks i topic ack] that unfolding w by blast
  with d bytes show ?thesis
    unfolding secret_def [symmetric] sig_def [symmetric] infos by (intro exI [of _ ses'] exI [of _ sys']) simp
qed

theorem signed_publisher_to_subscriber_witness:
  "\<exists>ses' sys'. on_data (demo_ambient\<lparr>amb_sodium := sized_sodium\<rparr>)
     (session_new 3 0, demo_subscribed\<lparr>sys_keys := fst (register_key 0 ks_new [1] ''d'' [])\<rparr>) 1
     (io_out (snd (fst (sendSigned sized_sodium demo_net None
        (setSigningKey demo_publisher (secret_key (generate_keypair sized_sodium ())) 1, io_new) ''t'' ''x'')))) = Some ((ses', sys'), Waiting)"
proof -
  let ?A = "demo_ambient\<lparr>amb_sodium := sized_sodium\<rparr>" and ?sys = "demo_subscribed\<lparr>sys_keys := fst (register_key 0 ks_new [1] ''d'' [])\<rparr>"
  have key: "get_key_info (sys_keys ?sys) 1 = Some (new_key 0 [1] 1 ''d'' [])"
    by (simp add: get_key_info_def register_key_def ks_new_def Let_def)
  have "sodium_correct (amb_sodium ?A)" by (simp add: sized.sodium_correct_axioms)
  moreover have "\<forall>m k. length (crypto_sign_detached (amb_sodium ?A) m k) = SIGNATURE_SIZE"
    by (simp add: sized_sodium_def SIGNATURE_SIZE_def min_def)
  moreover have "tk_public_key (new_key 0 [1] 1 ''d'' []) = public_key (generate_keypair (amb_sodium ?A) ())"
    by (simp add: new_key_def generate_keypair_def sized_sodium_def)
  ultimately show ?thesis
    using signed_publisher_to_subscriber [of ?A, OF _ _ key, where t = "''t''" and N = demo_net and pub = demo_publisher and s = demo_subscriber
        and p = "''x''" and ses = "session_new 3 0" and r = 7 and now = 1 and reply = None and rnd = "()" and i = io_new and topic = "[]" and ack = True]
    by (auto simp: new_key_def demo_socks size_defs MAX_RECV_BUFFER_def session_new_def)
qed

section \<open>Which message an acknowledgement is for\<close>

text \<open>One acknowledgement frame of an identified session.\<close>

lemma ack_on_data:
  assumes "recv_buffer ses = []" and "protocol_type ses \<noteq> RESP" and "client_id ses \<noteq> []"
  shows "\<exists>ses' sys'. on_data A (ses, sys) now (serialize (ack_frame n)) = Some ((ses', sys'), Waiting) \<and>
    sys_broker sys' = handleAck (amb_lmdb A) (sys_broker sys) (client_id ses) n"
proof -
  have v: "valid_frame (ack_frame n)" by (simp add: valid_frame_eval)
  have "length (serialize (ack_frame n)) \<le> MAX_RECV_BUFFER"
    using v by (simp add: length_serialize calculateFrameSize_def frame_defs size_defs is_signed_cmd_def MAX_RECV_BUFFER_def)
  then show ?thesis
    using on_data_frame [OF v _ assms(1,2), of A now sys] assms(3)
    by (simp add: handleBinaryFrame_def frame_defs with_broker_def)
qed



text \<open>
  What one text command does to the acknowledgement tables of a session without a client id: nothing.
\<close>

definition acks_same :: "'e conn \<Rightarrow> 'e conn \<Rightarrow> bool" where
  "acks_same st st' \<longleftrightarrow> client_id (fst st') = [] \<and> protocol_type (fst st') = protocol_type (fst st) \<and>
     client_acks (sys_broker (snd st')) = client_acks (sys_broker (snd st)) \<and>
     last_ack_seq (sys_broker (snd st')) = last_ack_seq (sys_broker (snd st))"

lemma acks_frame [simp]:
  "client_acks (send_to s d b) = client_acks b" "last_ack_seq (send_to s d b) = last_ack_seq b"
  "client_acks (unsubscribe b s t) = client_acks b" "last_ack_seq (unsubscribe b s t) = last_ack_seq b"
  "client_acks (fst (publish L lat b t p)) = client_acks b" "last_ack_seq (fst (publish L lat b t p)) = last_ack_seq b"
  by (simp_all add: send_to_def unsubscribe_def update_metrics_def publish_eq Let_def split: option.split)

lemma acks_subscribe [simp]:
  "client_acks (fst (subscribe L b s t)) = client_acks b" "last_ack_seq (fst (subscribe L b s t)) = last_ack_seq b"
proof -
  obtain out where "fst (subscribe L b s t) = (subscribe_locked b s t)\<lparr>sent := sent (subscribe_locked b s t) @ out\<rparr>"
    using replay_eq [of L "subscribe_locked b s t" s t 0] unfolding subscribe_def by blast
  then show "client_acks (fst (subscribe L b s t)) = client_acks b" "last_ack_seq (fst (subscribe L b s t)) = last_ack_seq b"
    by (simp_all add: subscribe_locked_def update_metrics_def Let_def)
qed

lemma acks_resp_subscribe:
  "client_acks (sys_broker (fst (resp_subscribe A ses k vs sys))) = client_acks (sys_broker sys) \<and>
   last_ack_seq (sys_broker (fst (resp_subscribe A ses k vs sys))) = last_ack_seq (sys_broker sys)"
proof (induction A ses k vs sys rule: resp_subscribe.induct)
  case (2 A ses k v vs sys)
  obtain b x where s: "subscribe (amb_lmdb A) (sys_broker sys) (ses_id ses) (asString v) = (b, x)" by fastforce
  then have "client_acks b = client_acks (sys_broker sys)" "last_ack_seq b = last_ack_seq (sys_broker sys)"
    using acks_subscribe [of "amb_lmdb A" "sys_broker sys" "ses_id ses" "asString v"] by simp_all
  with 2 s show ?case by (cases x) (simp_all add: sendResp_def)
qed simp

lemma acks_resp_unsubscribe:
  "client_acks (sys_broker (resp_unsubscribe ses vs sys)) = client_acks (sys_broker sys) \<and>
   last_ack_seq (sys_broker (resp_unsubscribe ses vs sys)) = last_ack_seq (sys_broker sys)"
  by (induction ses vs sys rule: resp_unsubscribe.induct) (simp_all add: sendResp_def)

lemma handleCommand_acks:
  assumes "client_id (fst st) = []"
  shows "acks_same st (fst (handleCommand A st v))"
proof -
  obtain ses sys where st: "st = (ses, sys)" by fastforce
  show ?thesis
    using assms
    by (auto simp: st acks_same_def handleCommand_def sendResp_def acks_resp_subscribe acks_resp_unsubscribe case_prod_beta Let_def
        simp del: resp_subscribe.simps resp_unsubscribe.simps split: list.splits)
qed

lemma drain_acks:
  assumes "client_id ses = []" and "protocol_type ses = RESP" and "drain A (ses, sys) = Some ((ses', sys'), r, x)"
  shows "acks_same (ses, sys) (ses', sys')"
proof -
  have loop: "recv_loop resp_parse (handleCommand A) (ses, sys) (recv_buffer ses) = Some ((ses', sys'), r, x)"
    using assms(2,3) by (simp add: drain_def)
  have keep: "acks_same (ses, sys) (fst (handleCommand A st v))" if "acks_same (ses, sys) st" for st v
    using that handleCommand_acks [of st A v] by (simp add: acks_same_def)
  have "acks_same (ses, sys) (ses, sys)" using assms(1) by (simp add: acks_same_def)
  with resp_codec.loop_invariant [where P = "acks_same (ses, sys)", OF keep loop] show ?thesis by blast
qed

text \<open>
  Text clients cannot acknowledge: no client id is ever attached to a connection that speaks the text protocol,
  so whatever it sends, the \<^verbatim>\<open>ACK\<close> commands of the \<^verbatim>\<open>Subscriber\<close> library included, leaves the broker's acknowledgement
  tables as they were; and the \<^verbatim>\<open>ACK\<close> that the library writes is answered with \<^verbatim>\<open>OK\<close> all the same.
\<close>

theorem resp_acks_ignored:
  assumes "client_id ses = []" and "protocol_type ses = RESP"
    and "on_data A (ses, sys) now data = Some ((ses', sys'), w)"
  shows "acks_same (ses, sys) (ses', sys') \<and>
    (\<exists>sys2. handleCommand A (ses, sys) (makeArray [''ACK'', to_string (unat n)]) = ((ses, sys2), None) \<and>
       sys_broker sys2 = send_to (ses_id ses) (resp_serialize (SimpleString ''OK'')) (sys_broker sys))"
proof
  show "acks_same (ses, sys) (ses', sys')"
  proof (cases "MAX_RECV_BUFFER < length (recv_buffer ses) + length data")
    case True
    with assms show ?thesis by (auto simp: on_data_def acks_same_def sendBinary_def)
  next
    case False
    let ?ses = "ses\<lparr>last_activity := now, recv_buffer := recv_buffer ses @ data\<rparr>"
    obtain ses3 r x where d: "drain A (?ses, sys) = Some ((ses3, sys'), r, x)" and s: "ses' = ses3\<lparr>recv_buffer := r\<rparr>"
      using assms(2,3) False by (auto simp: on_data_def Let_def split: option.splits)
    have "acks_same (?ses, sys) (ses3, sys')" using assms(1,2) by (intro drain_acks [OF _ _ d]) simp_all
    then show ?thesis using s by (simp add: acks_same_def)
  qed
next
  have "map toupper ''ACK'' = ''ACK''" by (simp add: toupper_def less_eq_char_def)
  then show "\<exists>sys2. handleCommand A (ses, sys) (makeArray [''ACK'', to_string (unat n)]) = ((ses, sys2), None) \<and>
       sys_broker sys2 = send_to (ses_id ses) (resp_serialize (SimpleString ''OK'')) (sys_broker sys)"
    using assms(1) unfolding handleCommand_def Let_def makeArray_def by (simp add: sendResp_def)
qed

theorem resp_acks_ignored_witness:
  "\<exists>ses' sys' w. on_data demo_ambient ((session_new 7 0)\<lparr>protocol_type := RESP\<rparr>, demo_system ks_new) 1 ''*1'' = Some ((ses', sys'), w) \<and>
     client_acks (sys_broker sys') = client_acks demo_broker"
proof -
  let ?ses = "(session_new 7 0)\<lparr>protocol_type := RESP\<rparr>"
  have "ses_id ?ses \<in> set (b_sessions (sys_broker (demo_system ks_new)))" "length (recv_buffer ?ses) \<le> MAX_RECV_BUFFER"
    by (simp_all add: session_new_def demo_system_def demo_sessions)
  then obtain ses' sys' w where d: "on_data demo_ambient (?ses, demo_system ks_new) 1 ''*1'' = Some ((ses', sys'), w)"
    using on_data_ok [of "(?ses, demo_system ks_new)"] by force
  from resp_acks_ignored [OF _ _ d] d show ?thesis
    by (auto simp: acks_same_def session_new_def demo_system_def)
qed

end
